(* ===== verification/Prelude.thy ===== *)
theory Prelude
  imports Main "HOL-Library.Word"
begin

unbundle bit_operations_syntax

text \<open>
  What every component shares: the exceptions the Python code raises, a result type for code that
  may raise, a state-and-exception monad for code that also mutates its arguments, the collections
  of simplification facts the component theories extend, and generic lemmas on lists.
\<close>

section \<open>Exceptions and results\<close>

text \<open>
  \<open>Divergence\<close> is not an exception of Python: it is the value of a run that never ends, so that a theorem
  that a computation returns also says that its loops end.
\<close>

datatype pyexc =
    AssertionError string
  | ValueError string
  | TypeError string
  | KeyError string
  | IndexError string
  | ZeroDivisionError
  | RuntimeError string
  | OSError string
  | SystemExit int
  | CalledProcessError int string
  | TimeoutExpired string
  | ReError string
  | CsvError string
  | JsonError string
  | AttributeError string
  | Divergence

type_synonym 'a result = "pyexc + 'a"

text \<open>\<open>bindR m f\<close> runs \<open>f\<close> on the value of \<open>m\<close>; an exception of \<open>m\<close> propagates.\<close>

fun bindR :: "'a result \<Rightarrow> ('a \<Rightarrow> 'b result) \<Rightarrow> 'b result" where
  "bindR (Inl e) f = Inl e"
| "bindR (Inr x) f = f x"

lemma bindR_cong [fundef_cong]:
  "m = m' \<Longrightarrow> (\<And>x. m' = Inr x \<Longrightarrow> f x = g x) \<Longrightarrow> bindR m f = bindR m' g"
  by (cases m') auto

text \<open>\<open>assertR c msg\<close> is Python's \<open>assert c, msg\<close>.\<close>

definition assertR :: "bool \<Rightarrow> string \<Rightarrow> unit result" where
  "assertR c msg = (if c then Inr () else Inl (AssertionError msg))"

text \<open>\<open>mapR f xs\<close> is the loop \<open>for x in xs: out.append(f(x))\<close>, stopped by the first exception.\<close>

fun mapR :: "('a \<Rightarrow> 'b result) \<Rightarrow> 'a list \<Rightarrow> 'b list result" where
  "mapR f [] = Inr []"
| "mapR f (x # xs) = bindR (f x) (\<lambda>y. bindR (mapR f xs) (\<lambda>ys. Inr (y # ys)))"

definition no_raise :: "'a result \<Rightarrow> bool" where
  "no_raise r \<longleftrightarrow> (\<exists>x. r = Inr x)"

named_theorems result_iff "when a computation with exceptions returns normally"

lemma bindR_eq_Inr [result_iff]: "bindR r g = Inr z \<longleftrightarrow> (\<exists>v. r = Inr v \<and> g v = Inr z)"
  by (cases r) auto

lemma bindR_eq_Inl: "bindR m f = Inl e \<longleftrightarrow> m = Inl e \<or> (\<exists>x. m = Inr x \<and> f x = Inl e)"
  by (cases m) auto

lemma assertR_eq_Inr [result_iff]: "assertR c msg = Inr u \<longleftrightarrow> c"
  by (simp add: assertR_def)

lemma assertR_simps [simp]:
  "assertR True msg = Inr ()"
  "assertR False msg = Inl (AssertionError msg)"
  by (simp_all add: assertR_def)

lemma bindR_assoc: "bindR (bindR m f) g = bindR m (\<lambda>x. bindR (f x) g)"
  by (cases m) auto

lemma mapR_eq_Inr: "mapR f xs = Inr ys \<longleftrightarrow> list_all2 (\<lambda>x y. f x = Inr y) xs ys"
  by (induction xs arbitrary: ys) (auto simp: result_iff list_all2_Cons1)

lemma mapR_Inr: "(\<And>x. x \<in> set xs \<Longrightarrow> f x = Inr (g x)) \<Longrightarrow> mapR f xs = Inr (map g xs)"
  by (induction xs) auto

lemma mapR_append: "mapR f xs = Inr ys \<Longrightarrow> mapR f xs' = Inr ys' \<Longrightarrow> mapR f (xs @ xs') = Inr (ys @ ys')"
  by (induction xs arbitrary: ys) (fastforce simp: bindR_eq_Inr)+

lemma mapR_cong: "(\<And>x. x \<in> set xs \<Longrightarrow> f x = g x) \<Longrightarrow> mapR f xs = mapR g xs"
  by (induction xs) simp_all

lemma mapR_total: "\<forall>x \<in> set xs. \<exists>y. f x = Inr y \<Longrightarrow> \<exists>ys. mapR f xs = Inr ys"
  by (induction xs) auto

lemma mapR_length: "mapR f xs = Inr ys \<Longrightarrow> length ys = length xs"
  by (simp add: mapR_eq_Inr list_all2_lengthD)

section \<open>State and exceptions\<close>

text \<open>
  A function of the source that mutates an object and may raise is a function from the state before
  to the value and the state after. \<open>bindM\<close> is sequencing.
\<close>

type_synonym ('s, 'a) sem = "'s \<Rightarrow> ('a \<times> 's) result"

definition retM :: "'a \<Rightarrow> ('s, 'a) sem" where
  "retM x = (\<lambda>s. Inr (x, s))"

definition bindM :: "('s, 'a) sem \<Rightarrow> ('a \<Rightarrow> ('s, 'b) sem) \<Rightarrow> ('s, 'b) sem" where
  "bindM m f = (\<lambda>s. case m s of Inl e \<Rightarrow> Inl e | Inr (x, s') \<Rightarrow> f x s')"

definition liftM :: "'a result \<Rightarrow> ('s, 'a) sem" where
  "liftM r = (\<lambda>s. case r of Inl e \<Rightarrow> Inl e | Inr x \<Rightarrow> Inr (x, s))"

definition getM :: "('s, 's) sem" where
  "getM = (\<lambda>s. Inr (s, s))"

definition modifyM :: "('s \<Rightarrow> 's) \<Rightarrow> ('s, unit) sem" where
  "modifyM f = (\<lambda>s. Inr ((), f s))"

text \<open>
  The total-correctness precondition: run from \<open>s\<close>, \<open>m\<close> returns normally and the value and the new
  state satisfy \<open>Q\<close>. The equations push it through sequencing, so that a proof about a generator is
  left with the draws of the random source only.
\<close>

definition wp :: "('s, 'a) sem \<Rightarrow> ('a \<Rightarrow> 's \<Rightarrow> bool) \<Rightarrow> 's \<Rightarrow> bool" where
  "wp m Q s \<longleftrightarrow> (case m s of Inl e \<Rightarrow> False | Inr (x, s') \<Rightarrow> Q x s')"

named_theorems wp_simps "equations of the precondition for the sequencing primitives"

lemma wp_ret [wp_simps]: "wp (retM x) Q = Q x"
  by (simp add: fun_eq_iff wp_def retM_def)

lemma wp_bind [wp_simps]: "wp (bindM m f) Q = wp m (\<lambda>x. wp (f x) Q)"
  by (simp add: fun_eq_iff wp_def bindM_def split: sum.split)

lemma wp_lift [wp_simps]: "wp (liftM r) Q = (\<lambda>s. case r of Inl e \<Rightarrow> False | Inr x \<Rightarrow> Q x s)"
  by (simp add: fun_eq_iff wp_def liftM_def split: sum.split)

lemma wp_get [wp_simps]: "wp getM Q = (\<lambda>s. Q s s)"
  by (simp add: fun_eq_iff wp_def getM_def)

lemma wp_modify [wp_simps]: "wp (modifyM f) Q = (\<lambda>s. Q () (f s))"
  by (simp add: fun_eq_iff wp_def modifyM_def)

lemma wp_mono: "wp m Q s \<Longrightarrow> (\<And>x s'. Q x s' \<Longrightarrow> Q' x s') \<Longrightarrow> wp m Q' s"
  by (auto simp: wp_def split: sum.splits)

lemma wpD:
  assumes "wp m Q s"
  obtains x s' where "m s = Inr (x, s')" and "Q x s'"
  using assms by (auto simp: wp_def split: sum.splits)

lemma wpI: "m s = Inr (x, s') \<Longrightarrow> Q x s' \<Longrightarrow> wp m Q s"
  by (simp add: wp_def)

lemma wp_True_iff: "wp m (\<lambda>_ _. True) s \<longleftrightarrow> no_raise (m s)"
  by (auto simp: wp_def no_raise_def split: sum.splits)

lemma bindM_eq_Inr [result_iff]:
  "bindM m f s = Inr r \<longleftrightarrow> (\<exists>x s'. m s = Inr (x, s') \<and> f x s' = Inr r)"
  by (auto simp: bindM_def split: sum.splits)

lemma retM_eq_Inr [result_iff]: "retM x s = Inr r \<longleftrightarrow> r = (x, s)"
  by (auto simp: retM_def)

lemma liftM_eq_Inr [result_iff]: "liftM r s = Inr z \<longleftrightarrow> (\<exists>x. r = Inr x \<and> z = (x, s))"
  by (auto simp: liftM_def split: sum.splits)

section \<open>Lists and arithmetic\<close>

text \<open>Python's \<open>xs[-k:]\<close> for \<open>k > 0\<close>: the last \<open>k\<close> elements, all of them when there are fewer.\<close>

definition last_n :: "nat \<Rightarrow> 'a list \<Rightarrow> 'a list" where
  "last_n k xs = drop (length xs - k) xs"

lemma last_n_length [simp]: "length (last_n k xs) = min k (length xs)"
  by (simp add: last_n_def)

lemma last_n_subset: "set (last_n k xs) \<subseteq> set xs"
  by (simp add: last_n_def set_drop_subset)

lemma last_n_append_one: "0 < k \<Longrightarrow> last_n k (xs @ [x]) = last_n (k - 1) xs @ [x]"
  by (cases k) (auto simp: last_n_def)

lemma repeated_element [simp]: "replicate (numeral n) a = a # replicate (pred_numeral n) a"
  unfolding numeral_eq_Suc by (rule replicate_Suc)

text \<open>
  \<open>spaced P gap k xs\<close>: after any element satisfying \<open>P\<close> at least \<open>gap\<close> others come before the next
  one, and at least \<open>k\<close> come before the first. \<open>runs P m k xs\<close>: no more than \<open>m\<close> elements satisfying
  \<open>P\<close> in a row, where \<open>k\<close> of them precede the list. Both scan from the left; \<open>gap_after\<close> and
  \<open>run_after\<close> are the scanner's counters at the end, which is what makes them compose over \<open>@\<close>.
\<close>

fun spaced :: "('a \<Rightarrow> bool) \<Rightarrow> nat \<Rightarrow> nat \<Rightarrow> 'a list \<Rightarrow> bool" where
  "spaced P gap k [] = True"
| "spaced P gap k (x # xs) = (if P x then k = 0 \<and> spaced P gap gap xs else spaced P gap (k - 1) xs)"

fun gap_after :: "('a \<Rightarrow> bool) \<Rightarrow> nat \<Rightarrow> nat \<Rightarrow> 'a list \<Rightarrow> nat" where
  "gap_after P gap k [] = k"
| "gap_after P gap k (x # xs) = gap_after P gap (if P x then gap else k - 1) xs"

fun runs :: "('a \<Rightarrow> bool) \<Rightarrow> nat \<Rightarrow> nat \<Rightarrow> 'a list \<Rightarrow> bool" where
  "runs P m k [] = True"
| "runs P m k (x # xs) = (if P x then k < m \<and> runs P m (Suc k) xs else runs P m 0 xs)"

fun run_after :: "('a \<Rightarrow> bool) \<Rightarrow> nat \<Rightarrow> 'a list \<Rightarrow> nat" where
  "run_after P k [] = k"
| "run_after P k (x # xs) = run_after P (if P x then Suc k else 0) xs"

lemma spaced_append [simp]:
  "spaced P gap k (xs @ ys) \<longleftrightarrow> spaced P gap k xs \<and> spaced P gap (gap_after P gap k xs) ys"
  by (induction xs arbitrary: k) auto

lemma gap_after_append [simp]: "gap_after P gap k (xs @ ys) = gap_after P gap (gap_after P gap k xs) ys"
  by (induction xs arbitrary: k) auto

lemma runs_append [simp]: "runs P m k (xs @ ys) \<longleftrightarrow> runs P m k xs \<and> runs P m (run_after P k xs) ys"
  by (induction xs arbitrary: k) auto

lemma run_after_append [simp]: "run_after P k (xs @ ys) = run_after P (run_after P k xs) ys"
  by (induction xs arbitrary: k) auto

lemma list_all_conj: "list_all (\<lambda>x. P x \<and> Q x) xs \<longleftrightarrow> list_all P xs \<and> list_all Q xs"
  by (auto simp: list_all_iff)

lemma scan_none:
  assumes "list_all (\<lambda>x. \<not> P x) xs"
  shows "spaced P gap k xs" and "gap_after P gap k xs = k - length xs" and "runs P m n xs"
    and "run_after P n xs = (if xs = [] then n else 0)"
  using assms by (induction xs arbitrary: k n) auto

text \<open>The scanner finds exactly the pairs that are too close.\<close>

lemma spaced_nth:
  "spaced P gap k xs \<Longrightarrow> j < length xs \<Longrightarrow> P (xs ! j) \<Longrightarrow> k \<le> j"
proof (induction xs arbitrary: k j)
  case (Cons x xs)
  show ?case
  proof (cases j)
    case (Suc j')
    with Cons.prems Cons.IH [of gap j'] Cons.IH [of "k - 1" j'] show ?thesis by (auto split: if_splits)
  qed (use Cons.prems in auto)
qed simp

lemma spaced_distance:
  assumes "spaced P gap k xs" and "i < j" and "j < length xs" and "P (xs ! i)" and "P (xs ! j)"
  shows "gap < j - i"
proof -
  have "xs = take i xs @ xs ! i # drop (Suc i) xs" using assms(2,3) by (intro id_take_nth_drop) simp
  with assms(1,4) have "spaced P gap gap (drop (Suc i) xs)"
    by (metis spaced.simps(2) spaced_append)
  moreover have "j - Suc i < length (drop (Suc i) xs)" using assms(2,3) by simp
  moreover have "P (drop (Suc i) xs ! (j - Suc i))" using assms(2,3,5) by simp
  ultimately have "gap \<le> j - Suc i" by (rule spaced_nth)
  with assms(2) show ?thesis by simp
qed

text \<open>The source's shifts and masks on unbounded integers, as arithmetic.\<close>

named_theorems bit_arith "shifts, masks and disjoint ors on unbounded integers as arithmetic"

lemma shift_or_small: "0 \<le> b \<Longrightarrow> b < 2 ^ n \<Longrightarrow> push_bit n a OR b = a * 2 ^ n + (b::int)"
  using concat_bit_eq [of n b a] concat_bit_def [of n b a]
  by (simp add: take_bit_int_eq_self push_bit_eq_mult or.commute)

lemma and_low_mask [bit_arith]: "x AND (2 ^ n - 1) = x mod (2 ^ n :: int)"
  by (metis mask_eq_exp_minus_1 take_bit_eq_mask take_bit_eq_mod)

lemma and_3 [bit_arith]: "x AND 3 = x mod (4 :: int)"
  using and_low_mask [of x 2] by simp

lemma or_1_shift_1 [bit_arith]: "push_bit 1 (q::int) OR 1 = 2 * q + 1"
  by (simp add: or_one_eq push_bit_eq_mult)

lemma or_1_shift_2 [bit_arith]: "push_bit 2 (q::int) OR 1 = 4 * q + 1"
  by (simp add: or_one_eq push_bit_eq_mult)

lemmas [bit_arith] = push_bit_eq_mult drop_bit_eq_div

end
