(* ===== verification/Srt_Divide.thy ===== *)
theory Srt_Divide
  imports Prelude
begin

text \<open>
  The reference divider tb/stage5/ref/srt_divide.py, which the vector generator uses as the oracle
  for the RTL division core. Python integers are unbounded, so they are \<open>int\<close>; the shifts and the
  bitwise or of the source are the library's. The loop body, the loop and the function with its two
  assertions are separate definitions. The theorems say that the result is the floor of the scaled
  quotient, that the sticky flag is exactness, and when the assertions fail.
\<close>

section \<open>The program\<close>

text \<open>One pass of the loop body: shift the partial remainder, compare, subtract, append a bit.\<close>

definition srt_divide_step :: "int \<Rightarrow> int \<times> int \<Rightarrow> int \<times> int" where
  "srt_divide_step b = (\<lambda>(p, q).
     let p = push_bit 1 p in
     if p \<ge> b then (p - b, push_bit 1 q OR 1) else (p, push_bit 1 q))"

text \<open>\<open>for _ in range(k)\<close>.\<close>

primrec srt_divide_loop :: "int \<Rightarrow> nat \<Rightarrow> int \<times> int \<Rightarrow> int \<times> int" where
  "srt_divide_loop b 0 s = s"
| "srt_divide_loop b (Suc k) s = srt_divide_loop b k (srt_divide_step b s)"

text \<open>The integer bit, computed before the loop.\<close>

definition srt_divide_init :: "int \<Rightarrow> int \<Rightarrow> int \<times> int" where
  "srt_divide_init a b = (if a \<ge> b then (a - b, 1) else (a, 0))"

definition srt_divide :: "int \<Rightarrow> int \<Rightarrow> int \<Rightarrow> (int \<times> bool) result" where
  "srt_divide a b n =
     bindR (assertR (0 < a \<and> a < push_bit 52 2 \<and> 0 < b \<and> b < push_bit 52 2) ''operands out of range'')
     (\<lambda>_. bindR (assertR (a < 2 * b) ''precondition: A < 2B'')
     (\<lambda>_. let (p, q) = srt_divide_loop b (nat (n - 1)) (srt_divide_init a b)
          in Inr (q, p \<noteq> 0)))"

section \<open>Correctness\<close>

text \<open>
  The invariant of the recurrence: after \<open>k\<close> fractional bits the partial remainder and the quotient
  decompose \<open>a * 2 ^ k\<close> by Euclidean division.
\<close>

definition srt_divide_inv :: "int \<Rightarrow> int \<Rightarrow> nat \<Rightarrow> int \<times> int \<Rightarrow> bool" where
  "srt_divide_inv a b k = (\<lambda>(p, q). a * 2 ^ k = q * b + p \<and> 0 \<le> p \<and> p < b \<and> 0 \<le> q)"

lemma srt_divide_step_eq:
  "srt_divide_step b (p, q) = (if 2 * p \<ge> b then (2 * p - b, 2 * q + 1) else (2 * p, 2 * q))"
  unfolding srt_divide_step_def Let_def split or_1_shift_1 by (simp add: push_bit_eq_mult)

lemma srt_divide_init_inv:
  "0 < a \<Longrightarrow> a < 2 * b \<Longrightarrow> srt_divide_inv a b 0 (srt_divide_init a b)"
  by (simp add: srt_divide_inv_def srt_divide_init_def)

lemma srt_divide_step_inv:
  assumes "srt_divide_inv a b k s"
  shows "srt_divide_inv a b (Suc k) (srt_divide_step b s)"
proof (cases s)
  case (Pair p q)
  with assms have inv: "a * 2 ^ k = q * b + p" "0 \<le> p" "p < b" "0 \<le> q"
    by (simp_all add: srt_divide_inv_def)
  from inv(1) have "a * 2 ^ Suc k = 2 * q * b + 2 * p" by (simp add: algebra_simps)
  with inv show ?thesis
    by (simp add: Pair srt_divide_step_eq srt_divide_inv_def algebra_simps)
qed

lemma srt_divide_loop_inv:
  "srt_divide_inv a b k s \<Longrightarrow> srt_divide_inv a b (k + j) (srt_divide_loop b j s)"
proof (induction j arbitrary: k s)
  case 0
  then show ?case by simp
next
  case (Suc j)
  from Suc.prems have "srt_divide_inv a b (Suc k) (srt_divide_step b s)"
    by (rule srt_divide_step_inv)
  from Suc.IH [OF this] show ?case by simp
qed

lemma euclid_unique:
  fixes x q b p :: int
  assumes "x = q * b + p" and "0 \<le> p" and "p < b"
  shows "q = x div b" and "p = x mod b"
proof -
  from assms have b: "0 < b" by linarith
  from assms b show "q = x div b" by (simp add: div_pos_pos_trivial)
  from assms b show "p = x mod b" by (simp add: mod_pos_pos_trivial)
qed

lemma euclid_floor:
  fixes x b :: int
  assumes "0 < b"
  shows "x div b * b \<le> x" and "x < (x div b + 1) * b" and "x mod b \<noteq> 0 \<longleftrightarrow> x div b * b \<noteq> x"
proof -
  have "x div b * b + x mod b = x" by (rule div_mult_mod_eq)
  moreover have "0 \<le> x mod b" "x mod b < b" using assms by simp_all
  moreover have "(x div b + 1) * b = x div b * b + b" by (simp add: distrib_right)
  ultimately show "x div b * b \<le> x" "x < (x div b + 1) * b" "x mod b \<noteq> 0 \<longleftrightarrow> x div b * b \<noteq> x"
    by linarith+
qed

text \<open>The operands for which neither assertion fails.\<close>

definition srt_divide_pre :: "int \<Rightarrow> int \<Rightarrow> bool" where
  "srt_divide_pre a b \<longleftrightarrow> 0 < a \<and> a < 2 ^ 53 \<and> 0 < b \<and> b < 2 ^ 53 \<and> a < 2 * b"

lemma srt_divide_result:
  assumes "srt_divide_pre a b"
  shows "srt_divide a b n =
    Inr (a * 2 ^ nat (n - 1) div b, a * 2 ^ nat (n - 1) mod b \<noteq> 0)"
proof -
  let ?k = "nat (n - 1)"
  obtain p q where s: "srt_divide_loop b ?k (srt_divide_init a b) = (p, q)" by fastforce
  from assms have "0 < a" "a < 2 * b" by (simp_all add: srt_divide_pre_def)
  then have "srt_divide_inv a b (0 + ?k) (p, q)"
    using srt_divide_loop_inv [OF srt_divide_init_inv, of a b ?k] s by simp
  then have "a * 2 ^ ?k = q * b + p" "0 \<le> p" "p < b" by (simp_all add: srt_divide_inv_def)
  then have "q = a * 2 ^ ?k div b" "p = a * 2 ^ ?k mod b" by (rule euclid_unique)+
  with assms s show ?thesis
    by (simp add: srt_divide_def srt_divide_pre_def push_bit_eq_mult)
qed

lemma srt_divide_quotient_bounds:
  fixes a b :: int
  assumes "0 < a" "a < 2 * b" "1 \<le> n"
  shows "0 \<le> a * 2 ^ nat (n - 1) div b" and "a * 2 ^ nat (n - 1) div b < 2 ^ nat n"
proof -
  from assms have b: "0 < b" by linarith
  with assms show "0 \<le> a * 2 ^ nat (n - 1) div b" by (simp add: pos_imp_zdiv_nonneg_iff)
  have "(2::int) ^ nat n = 2 * 2 ^ nat (n - 1)"
    using assms by (metis Suc_nat_eq_nat_zadd1 add.commute diff_add_cancel diff_ge_0_iff_ge power_Suc)
  then have "a * 2 ^ nat (n - 1) < 2 ^ nat n * b" using assms by simp
  moreover have "a * 2 ^ nat (n - 1) div b * b \<le> a * 2 ^ nat (n - 1)"
    using div_mult_mod_eq [of "a * 2 ^ nat (n - 1)" b] pos_mod_sign [OF b, of "a * 2 ^ nat (n - 1)"]
    by linarith
  ultimately have "a * 2 ^ nat (n - 1) div b * b < 2 ^ nat n * b" by linarith
  then show "a * 2 ^ nat (n - 1) div b < 2 ^ nat n"
    using b by (simp add: mult_less_cancel_right)
qed


lemma srt_divide_leading_bit:
  fixes a b :: int
  assumes "0 < a" "a < 2 * b"
  shows "2 ^ k \<le> a * 2 ^ k div b \<longleftrightarrow> b \<le> a"
proof -
  from assms have b: "0 < b" by linarith
  have "2 ^ k \<le> a * 2 ^ k div b \<longleftrightarrow> 2 ^ k * b \<le> a * 2 ^ k"
  proof
    assume "2 ^ k \<le> a * 2 ^ k div b"
    then have "2 ^ k * b \<le> a * 2 ^ k div b * b"
      using b by (intro mult_right_mono) simp_all
    also have "\<dots> \<le> a * 2 ^ k"
      using div_mult_mod_eq [of "a * 2 ^ k" b] pos_mod_sign [OF b, of "a * 2 ^ k"]
      by linarith
    finally show "2 ^ k * b \<le> a * 2 ^ k" .
  next
    assume "2 ^ k * b \<le> a * 2 ^ k"
    from zdiv_mono1 [OF this b] b show "2 ^ k \<le> a * 2 ^ k div b" by simp
  qed
  also have "\<dots> \<longleftrightarrow> b \<le> a" by (simp add: mult.commute)
  finally show ?thesis .
qed

text \<open>Dropping output bits of the quotient is the same as asking for fewer of them.\<close>

lemma div_pow2_prefix:
  fixes x b :: int
  assumes "0 < b"
  shows "x * 2 ^ j div b = x * 2 ^ (j + i) div b div 2 ^ i"
proof -
  have "x * 2 ^ (j + i) div b div 2 ^ i = x * 2 ^ (j + i) div 2 ^ i div b"
    by (metis div_mult2_eq' mult.commute zdiv_zmult2_eq zero_le_power zero_le_numeral assms less_imp_le)
  also have "x * 2 ^ (j + i) div 2 ^ i = x * 2 ^ j" by (simp add: power_add)
  finally show ?thesis by simp
qed

section \<open>Properties\<close>

text \<open>
  C1. For operands that satisfy both assertions and at least one output bit, \<open>srt_divide\<close> returns
  (never raises); the quotient is the \<open>n\<close>-bit floor of \<open>a / b\<close> scaled by \<open>2 ^ (n - 1)\<close>, its leading
  (integer) bit is set exactly when \<open>a \<ge> b\<close>, and the sticky flag is set exactly when the result is inexact.
\<close>

theorem srt_divide_correct:
  assumes "srt_divide_pre a b" and "1 \<le> n"
  shows "\<exists>q s. srt_divide a b n = Inr (q, s)
    \<and> q * b \<le> a * 2 ^ nat (n - 1) \<and> a * 2 ^ nat (n - 1) < (q + 1) * b
    \<and> 0 \<le> q \<and> q < 2 ^ nat n \<and> (2 ^ nat (n - 1) \<le> q \<longleftrightarrow> b \<le> a)
    \<and> (s \<longleftrightarrow> q * b \<noteq> a * 2 ^ nat (n - 1))"
proof -
  let ?x = "a * 2 ^ nat (n - 1)"
  from assms have ab: "0 < a" "a < 2 * b" and b: "0 < b" by (simp_all add: srt_divide_pre_def)
  show ?thesis
    using srt_divide_result [OF assms(1)] srt_divide_quotient_bounds [OF ab assms(2)]
      srt_divide_leading_bit [OF ab] euclid_floor [OF b, of ?x] by auto
qed

theorem srt_divide_correct_witness:
  "\<exists>q s. srt_divide (2 ^ 52) (2 ^ 52 + 2 ^ 51) 27 = Inr (q, s)
    \<and> q * (2 ^ 52 + 2 ^ 51) \<le> 2 ^ 52 * 2 ^ nat (27 - 1) \<and> q < 2 ^ nat 27"
  using srt_divide_correct [of "2 ^ 52" "2 ^ 52 + 2 ^ 51" 27] by (auto simp: srt_divide_pre_def)

text \<open>
  The exceptions of \<open>srt_divide\<close>, exhaustively: the range assertion fails first, then the
  precondition \<open>A < 2B\<close>; on every other input the function returns.
\<close>

lemma srt_divide_raises:
  "srt_divide a b n = Inl e \<longleftrightarrow>
     (e = AssertionError ''operands out of range'' \<and> \<not> (0 < a \<and> a < 2 ^ 53 \<and> 0 < b \<and> b < 2 ^ 53)) \<or>
     (e = AssertionError ''precondition: A < 2B'' \<and> (0 < a \<and> a < 2 ^ 53 \<and> 0 < b \<and> b < 2 ^ 53) \<and> 2 * b \<le> a)"
  by (auto simp: srt_divide_def assertR_def push_bit_eq_mult Let_def split: prod.splits)

text \<open>
  The single-precision quotient is a prefix of the double-precision one: asking the divider for
  \<open>m \<le> n\<close> bits gives the top \<open>m\<close> of the \<open>n\<close> bits, and the coarser result is inexact exactly when the
  finer one is inexact or a dropped bit is set.
\<close>

lemma srt_divide_prefix:
  assumes "srt_divide_pre a b" and "1 \<le> m" and "m \<le> n"
    and "srt_divide a b n = Inr (q, s)" and "srt_divide a b m = Inr (q', s')"
  shows "q' = q div 2 ^ nat (n - m) \<and> (s' \<longleftrightarrow> s \<or> q mod 2 ^ nat (n - m) \<noteq> 0)"
proof -
  let ?i = "nat (n - m)" and ?j = "nat (m - 1)"
  from assms(1) have b: "0 < b" by (simp add: srt_divide_pre_def)
  from assms(2,3) have ij: "nat (n - 1) = ?j + ?i" by linarith
  from srt_divide_result [OF assms(1)] assms(4,5) ij
  have q: "q = a * 2 ^ (?j + ?i) div b" "s \<longleftrightarrow> a * 2 ^ (?j + ?i) mod b \<noteq> 0"
    and q': "q' = a * 2 ^ ?j div b" "s' \<longleftrightarrow> a * 2 ^ ?j mod b \<noteq> 0" by simp_all
  have eq: "q' = q div 2 ^ ?i" using div_pow2_prefix [OF b] q q' by simp
  have "b dvd a * 2 ^ ?j \<longleftrightarrow> b dvd a * 2 ^ (?j + ?i) \<and> 2 ^ ?i dvd q"
  proof
    assume "b dvd a * 2 ^ ?j"
    then obtain c where "a * 2 ^ ?j = b * c" by (rule dvdE)
    then have "a * 2 ^ (?j + ?i) = b * (c * 2 ^ ?i)" by (simp add: power_add mult.assoc [symmetric])
    with q b show "b dvd a * 2 ^ (?j + ?i) \<and> 2 ^ ?i dvd q" by simp
  next
    assume *: "b dvd a * 2 ^ (?j + ?i) \<and> 2 ^ ?i dvd q"
    then obtain c where "q = 2 ^ ?i * c" by (auto elim: dvdE)
    with * q have "a * 2 ^ (?j + ?i) = b * (2 ^ ?i * c)" by (metis dvd_mult_div_cancel)
    then have "2 ^ ?i * (a * 2 ^ ?j) = 2 ^ ?i * (b * c)" by (simp add: power_add ac_simps)
    then show "b dvd a * 2 ^ ?j" by simp
  qed
  then have "s' \<longleftrightarrow> s \<or> \<not> 2 ^ ?i dvd q"
    unfolding q(2) q'(2) mod_eq_0_iff_dvd by blast
  with eq show ?thesis by (simp add: mod_eq_0_iff_dvd)
qed

lemma srt_divide_prefix_witness:
  "\<exists>q s q' s'. srt_divide 4503599627370496 6755399441055744 56 = Inr (q, s)
     \<and> srt_divide 4503599627370496 6755399441055744 27 = Inr (q', s') \<and> q' = q div 2 ^ nat (56 - 27)"
proof -
  have pre: "srt_divide_pre 4503599627370496 6755399441055744" by (simp add: srt_divide_pre_def)
  note r = srt_divide_result [OF pre]
  from srt_divide_prefix [OF pre _ _ r [of 56] r [of 27]] show ?thesis unfolding r by auto
qed

end
