(* ===== verification/Py_Str.thy ===== *)
theory Py_Str
  imports Prelude
begin

text \<open>
  The string operations of Python that the tools use, on lists of characters. A \<open>char\<close> is one of the
  first 256 code points, and the character classes are Python's on that range (so \<open>0x85\<close> and \<open>0xa0\<close>
  are spaces, and \<open>0x85\<close> ends a line). The lemmas are the ones the tools' proofs need: widths,
  digit alphabets and the round trip from an integer to its digits and back.
\<close>

section \<open>Characters\<close>

definition is_space :: "char \<Rightarrow> bool" where
  "is_space c \<longleftrightarrow> (let n = of_char c :: nat in
     9 \<le> n \<and> n \<le> 13 \<or> 28 \<le> n \<and> n \<le> 32 \<or> n = 133 \<or> n = 160)"

definition is_digit :: "char \<Rightarrow> bool" where
  "is_digit c \<longleftrightarrow> (let n = of_char c :: nat in 48 \<le> n \<and> n \<le> 57)"

text \<open>\<open>\w\<close>: letters, digits and other numeric characters of the range, and the underscore.\<close>

definition is_word_char :: "char \<Rightarrow> bool" where
  "is_word_char c \<longleftrightarrow> (let n = of_char c :: nat in
     48 \<le> n \<and> n \<le> 57 \<or> 65 \<le> n \<and> n \<le> 90 \<or> 97 \<le> n \<and> n \<le> 122 \<or> n = 95
     \<or> n = 170 \<or> n = 178 \<or> n = 179 \<or> n = 181 \<or> n = 185 \<or> n = 186 \<or> 188 \<le> n \<and> n \<le> 190
     \<or> 192 \<le> n \<and> n \<noteq> 215 \<and> n \<noteq> 247)"

text \<open>The value of a digit in bases up to 16; letters of either case.\<close>

definition digit_value :: "char \<Rightarrow> nat option" where
  "digit_value c = (let n = of_char c :: nat in
     if 48 \<le> n \<and> n \<le> 57 then Some (n - 48)
     else if 97 \<le> n \<and> n \<le> 102 then Some (n - 87)
     else if 65 \<le> n \<and> n \<le> 70 then Some (n - 55)
     else None)"

definition is_hex :: "char \<Rightarrow> bool" where
  "is_hex c \<longleftrightarrow> digit_value c \<noteq> None"

definition digit_char :: "nat \<Rightarrow> char" where
  "digit_char d = ''0123456789abcdef'' ! d"

lemma of_char_digit_char: "d < 16 \<Longrightarrow> of_char (digit_char d) = (if d < 10 then 48 + d else 87 + d)"
proof -
  have "list_all (\<lambda>d. of_char (digit_char d) = (if d < 10 then 48 + d else 87 + d)) [0..<16]"
    by (simp add: upt_rec digit_char_def)
  then show "d < 16 \<Longrightarrow> ?thesis" by (simp add: list_all_iff)
qed

lemma digit_value_digit_char [simp]: "d < 16 \<Longrightarrow> digit_value (digit_char d) = Some d"
  by (auto simp: digit_value_def of_char_digit_char Let_def)

lemma is_hex_digit_char [simp]: "d < 16 \<Longrightarrow> is_hex (digit_char d)"
  by (simp add: is_hex_def)

lemma is_digit_digit_char [simp]: "d < 10 \<Longrightarrow> is_digit (digit_char d)"
  by (simp add: is_digit_def of_char_digit_char)

lemma is_hex_code:
  "is_hex c \<longleftrightarrow> (let n = of_char c :: nat in 48 \<le> n \<and> n \<le> 57 \<or> 97 \<le> n \<and> n \<le> 102 \<or> 65 \<le> n \<and> n \<le> 70)"
  by (auto simp: is_hex_def digit_value_def Let_def)

lemma digit_is_hex: "is_digit c \<Longrightarrow> is_hex c"
  by (simp add: is_digit_def is_hex_code Let_def)

lemma hex_is_word: "is_hex c \<Longrightarrow> is_word_char c"
  unfolding is_hex_code is_word_char_def Let_def by (elim disjE conjE) simp_all

lemma hex_not_space: "is_hex c \<Longrightarrow> \<not> is_space c"
  unfolding is_hex_code is_space_def Let_def by (elim disjE conjE) simp_all

section \<open>Integers to strings\<close>

fun nat_digits :: "nat \<Rightarrow> nat \<Rightarrow> string" where
  "nat_digits b n = (if b < 2 \<or> n < b then [digit_char n] else nat_digits b (n div b) @ [digit_char (n mod b)])"

declare nat_digits.simps [simp del]

text \<open>\<open>str(i)\<close> and the \<open>{i}\<close> of an f-string.\<close>

definition str_int :: "int \<Rightarrow> string" where
  "str_int i = (if i < 0 then CHR ''-'' # nat_digits 10 (nat (- i)) else nat_digits 10 (nat i))"

definition zero_pad :: "nat \<Rightarrow> string \<Rightarrow> string" where
  "zero_pad w s = replicate (w - length s) CHR ''0'' @ s"

text \<open>\<open>{v:0wx}\<close> (the sign counts for the width), \<open>{v:#x}\<close> and \<open>{v:0wb}\<close>.\<close>

definition fmt_hex :: "nat \<Rightarrow> int \<Rightarrow> string" where
  "fmt_hex w v = (if v < 0 then CHR ''-'' # zero_pad (w - 1) (nat_digits 16 (nat (- v)))
                  else zero_pad w (nat_digits 16 (nat v)))"

definition fmt_alt_hex :: "int \<Rightarrow> string" where
  "fmt_alt_hex v = (if v < 0 then ''-0x'' @ nat_digits 16 (nat (- v)) else ''0x'' @ nat_digits 16 (nat v))"

definition fmt_bin :: "nat \<Rightarrow> int \<Rightarrow> string" where
  "fmt_bin w v = (if v < 0 then CHR ''-'' # zero_pad (w - 1) (nat_digits 2 (nat (- v)))
                  else zero_pad w (nat_digits 2 (nat v)))"

text \<open>\<open>{s:>w}\<close> and \<open>{s:<w}\<close>.\<close>

definition pad_left :: "nat \<Rightarrow> string \<Rightarrow> string" where
  "pad_left w s = replicate (w - length s) CHR '' '' @ s"

definition pad_right :: "nat \<Rightarrow> string \<Rightarrow> string" where
  "pad_right w s = s @ replicate (w - length s) CHR '' ''"

lemma nat_digits_nonempty [simp]: "nat_digits b n \<noteq> []"
  by (subst nat_digits.simps) simp

lemma nat_digits_hex: "b \<le> 16 \<Longrightarrow> 2 \<le> b \<Longrightarrow> list_all is_hex (nat_digits b n)"
proof (induction b n rule: nat_digits.induct)
  case (1 b n)
  then show ?case by (subst nat_digits.simps) (auto intro!: is_hex_digit_char intro: less_le_trans [of _ b])
qed

lemma nat_digits_dec: "list_all is_digit (nat_digits 10 n)"
proof (induction "10::nat" n rule: nat_digits.induct)
  case (1 n)
  then show ?case by (subst nat_digits.simps) auto
qed

lemma nat_digits_length: "2 \<le> b \<Longrightarrow> n < b ^ Suc k \<Longrightarrow> length (nat_digits b n) \<le> Suc k"
proof (induction k arbitrary: n)
  case 0
  then show ?case by (subst nat_digits.simps) simp
next
  case (Suc k)
  show ?case
  proof (cases "n < b")
    case True
    then show ?thesis by (subst nat_digits.simps) simp
  next
    case False
    from Suc.prems have "n div b < b ^ Suc k" by (simp add: less_mult_imp_div_less mult.commute)
    with Suc have "length (nat_digits b (n div b)) \<le> Suc k" by blast
    with False Suc.prems show ?thesis by (subst nat_digits.simps) simp
  qed
qed

lemma zero_pad_length: "length (zero_pad w s) = max w (length s)"
  by (simp add: zero_pad_def max_def)

lemma is_hex_0 [simp]: "is_hex CHR ''0''"
  by (simp add: is_hex_code)

lemma zero_pad_hex: "list_all is_hex s \<Longrightarrow> list_all is_hex (zero_pad w s)"
  by (auto simp: zero_pad_def list_all_iff)

text \<open>A value that fits the field is printed with exactly the field's width, in hexadecimal digits.\<close>

lemma fmt_hex_length:
  assumes "0 \<le> v" and "v < 16 ^ w" and "0 < w"
  shows "length (fmt_hex w v) = w"
proof -
  obtain k where w: "w = Suc k" using assms(3) by (cases w) auto
  from assms(1,2) have "nat v < 16 ^ Suc k" unfolding w by (simp add: nat_less_iff)
  then have "length (nat_digits 16 (nat v)) \<le> w" using nat_digits_length [of 16 "nat v" k] w by simp
  with assms show ?thesis by (simp add: fmt_hex_def zero_pad_length)
qed

lemma fmt_hex_all_hex: "0 \<le> v \<Longrightarrow> list_all is_hex (fmt_hex w v)"
  by (simp add: fmt_hex_def zero_pad_hex nat_digits_hex)

section \<open>Strings to integers\<close>

text \<open>The value of a run of digits; \<open>None\<close> when a character is not a digit of the base.\<close>

fun digits_value :: "nat \<Rightarrow> nat \<Rightarrow> string \<Rightarrow> nat option" where
  "digits_value b acc [] = Some acc"
| "digits_value b acc (c # cs) =
     (case digit_value c of
        Some d \<Rightarrow> if d < b then digits_value b (b * acc + d) cs else None
      | None \<Rightarrow> None)"

lemma digits_value_append:
  "digits_value b acc (xs @ ys) =
     (case digits_value b acc xs of Some v \<Rightarrow> digits_value b v ys | None \<Rightarrow> None)"
  by (induction xs arbitrary: acc) (auto split: option.splits)

lemma digits_value_zeros: "0 < b \<Longrightarrow> digits_value b 0 (replicate k CHR ''0'' @ s) = digits_value b 0 s"
  by (induction k) (simp_all add: digit_value_def)

lemma digits_value_nat_digits:
  "2 \<le> b \<Longrightarrow> b \<le> 16 \<Longrightarrow> digits_value b 0 (nat_digits b n) = Some n"
proof (induction b n rule: nat_digits.induct)
  case (1 b n)
  show ?case
  proof (cases "n < b")
    case True
    with 1 show ?thesis by (subst nat_digits.simps) simp
  next
    case False
    from 1 False have IH: "digits_value b 0 (nat_digits b (n div b)) = Some (n div b)" by simp
    from 1 have "n mod b < b" by simp
    moreover from this 1 have "n mod b < 16" by linarith
    ultimately have "n mod b < b" "n mod b < 16" .
    with 1 False IH show ?thesis
      by (subst nat_digits.simps) (simp add: digits_value_append mult.commute)
  qed
qed

text \<open>\<open>int(s, 16)\<close> and \<open>int(s)\<close> on a group of digits that a regular expression has matched.\<close>

definition hex_value :: "string \<Rightarrow> nat" where
  "hex_value s = (case digits_value 16 0 s of Some v \<Rightarrow> v | None \<Rightarrow> 0)"

definition dec_value :: "string \<Rightarrow> nat" where
  "dec_value s = (case digits_value 10 0 s of Some v \<Rightarrow> v | None \<Rightarrow> 0)"

lemma hex_value_fmt_hex [simp]: "0 \<le> v \<Longrightarrow> int (hex_value (fmt_hex w v)) = v"
  by (simp add: hex_value_def fmt_hex_def zero_pad_def digits_value_zeros digits_value_nat_digits)

lemma dec_value_nat_digits [simp]: "dec_value (nat_digits 10 n) = n"
  by (simp add: dec_value_def digits_value_nat_digits)

lemma digits_value_acc: "digits_value b 0 s = Some v \<Longrightarrow> digits_value b acc s = Some (acc * b ^ length s + v)"
proof (induction s arbitrary: v rule: rev_induct)
  case (snoc c s)
  then obtain v1 d where "digits_value b 0 s = Some v1" "digit_value c = Some d" "d < b" "v = b * v1 + d"
    by (auto simp: digits_value_append split: option.splits if_splits)
  with snoc.IH [of v1] show ?case by (simp add: digits_value_append algebra_simps)
qed simp

section \<open>Joining and splitting\<close>

text \<open>\<open>sep.join(xs)\<close>.\<close>

fun join :: "string \<Rightarrow> string list \<Rightarrow> string" where
  "join sep [] = []"
| "join sep [x] = x"
| "join sep (x # y # xs) = x @ sep @ join sep (y # xs)"

lemma join_Cons: "xs \<noteq> [] \<Longrightarrow> join sep (x # xs) = x @ sep @ join sep xs"
  by (cases xs) auto

text \<open>\<open>s.split(c)\<close> for a one-character separator, and \<open>s.split(c, 1)\<close>.\<close>

fun split_char :: "char \<Rightarrow> string \<Rightarrow> string list" where
  "split_char c [] = [[]]"
| "split_char c (x # xs) =
     (if x = c then [] # split_char c xs
      else case split_char c xs of y # ys \<Rightarrow> (x # y) # ys | [] \<Rightarrow> [[x]])"

definition split_once :: "char \<Rightarrow> string \<Rightarrow> string list" where
  "split_once c s =
     (let head = takeWhile (\<lambda>x. x \<noteq> c) s in
      if length head < length s then [head, drop (Suc (length head)) s] else [s])"

lemma split_char_nonempty [simp]: "split_char c s \<noteq> []"
  by (induction s) (auto split: list.splits)

lemma split_char_no_sep: "c \<notin> set s \<Longrightarrow> split_char c s = [s]"
  by (induction s) auto

lemma split_char_append: "c \<notin> set s \<Longrightarrow> split_char c (s @ c # t) = s # split_char c t"
  by (induction s) (auto split: list.splits)

lemma split_char_join:
  "xs \<noteq> [] \<Longrightarrow> list_all (\<lambda>x. c \<notin> set x) xs \<Longrightarrow> split_char c (join [c] xs) = xs"
proof (induction "[c]" xs rule: join.induct)
  case (2 x)
  then show ?case by (simp add: split_char_no_sep)
next
  case (3 x y xs)
  then show ?case by (simp add: split_char_append)
qed simp

lemma takeWhile_no_sep: "c \<notin> set s \<Longrightarrow> takeWhile (\<lambda>x. x \<noteq> c) (s @ c # t) = s"
  by (induction s) auto

lemma split_once_append: "c \<notin> set s \<Longrightarrow> split_once c (s @ c # t) = [s, t]"
  by (simp add: split_once_def takeWhile_no_sep)

lemma split_once_no_sep:
  assumes "c \<notin> set s"
  shows "split_once c s = [s]"
proof -
  have "takeWhile (\<lambda>x. x \<noteq> c) s = s" using assms by (induction s) auto
  then show ?thesis unfolding split_once_def Let_def by (simp only: less_irrefl if_False)
qed

section \<open>Stripping and parsing\<close>

text \<open>\<open>s.strip()\<close>, and \<open>int(s)\<close>: surrounding spaces, a sign and single underscores are accepted.\<close>

definition lstrip :: "string \<Rightarrow> string" where
  "lstrip s = dropWhile is_space s"

definition rstrip :: "string \<Rightarrow> string" where
  "rstrip s = rev (dropWhile is_space (rev s))"

definition strip :: "string \<Rightarrow> string" where
  "strip s = rstrip (lstrip s)"

definition py_int :: "string \<Rightarrow> int result" where
  "py_int s =
     (let t = strip s;
          negative = (t \<noteq> [] \<and> hd t = CHR ''-'');
          ds = (if t \<noteq> [] \<and> (hd t = CHR ''-'' \<or> hd t = CHR ''+'') then tl t else t);
          parts = split_char CHR ''_'' ds
      in if list_all (\<lambda>p. p \<noteq> [] \<and> list_all is_digit p) parts
         then Inr ((if negative then -1 else 1) * int (dec_value (concat parts)))
         else Inl (ValueError (''invalid literal for int() with base 10: '' @ [CHR 0x27] @ s @ [CHR 0x27])))"

lemma strip_no_space:
  assumes "list_all (\<lambda>c. \<not> is_space c) s"
  shows "strip s = s"
proof -
  have *: "dropWhile is_space t = t" if "list_all (\<lambda>c. \<not> is_space c) t" for t
    using that by (cases t) auto
  from assms have "list_all (\<lambda>c. \<not> is_space c) (rev s)" by (simp add: list_all_iff)
  from *[OF assms] *[OF this] show ?thesis by (simp add: strip_def rstrip_def lstrip_def)
qed

lemma digit_not_mark: "is_digit c \<Longrightarrow> c \<noteq> CHR ''-'' \<and> c \<noteq> CHR ''+'' \<and> c \<noteq> CHR ''_''"
  by (auto simp: is_digit_def)

lemma py_int_nat_digits [simp]: "py_int (nat_digits 10 n) = Inr (int n)"
proof -
  let ?s = "nat_digits 10 n"
  have d: "\<And>c. c \<in> set ?s \<Longrightarrow> is_digit c" using nat_digits_dec [of n] by (simp add: list_all_iff)
  have strip: "strip ?s = ?s"
    by (rule strip_no_space) (use d digit_is_hex hex_not_space in \<open>auto simp: list_all_iff\<close>)
  have hd: "is_digit (hd ?s)" by (rule d) simp
  have "split_char CHR ''_'' ?s = [?s]" by (rule split_char_no_sep) (use d digit_not_mark in blast)
  with strip digit_not_mark [OF hd] nat_digits_dec [of n] show ?thesis by (simp add: py_int_def)
qed

lemma py_int_str_int [simp]: "py_int (str_int i) = Inr i"
proof (cases "i < 0")
  case True
  let ?d = "nat_digits 10 (nat (- i))"
  have d: "list_all is_digit ?d" "?d \<noteq> []" by (simp_all add: nat_digits_dec)
  have "list_all (\<lambda>c. \<not> is_space c) (CHR ''-'' # ?d)"
    using d digit_is_hex hex_not_space by (auto simp: list_all_iff is_space_def)
  from strip_no_space [OF this] have strip: "strip (CHR ''-'' # ?d) = CHR ''-'' # ?d" .
  have "split_char CHR ''_'' ?d = [?d]"
    by (rule split_char_no_sep) (use d digit_not_mark in \<open>auto simp: list_all_iff\<close>)
  then show ?thesis using True d by (simp add: str_int_def py_int_def strip nat_digits_dec)
qed (simp add: str_int_def)

end
