(* ===== verification/Srt_Sqrt.thy ===== *)
theory Srt_Sqrt
  imports Py_Str
begin

text \<open>
  The reference square root tb/stage5/ref/srt_sqrt.py: a digit-by-digit root of the padded
  significand, two operand bits per step, followed by the removal of the 26 integer bits that
  mirror \<open>sqrt (2 ^ 52)\<close>. The theorems say that the result is the floor of the scaled root with its
  leading bit set, that the sticky flag is exactness, and when the function raises.
\<close>

section \<open>The program\<close>

text \<open>One pass of the loop body for index \<open>i\<close>; the state is the running root and the remainder.\<close>

definition srt_sqrt_step :: "int \<Rightarrow> int \<Rightarrow> int \<times> int \<Rightarrow> nat \<Rightarrow> int \<times> int" where
  "srt_sqrt_step a_padded tot = (\<lambda>(q, r) i.
     let pair = drop_bit (nat (2 * (tot - 1 - int i))) a_padded AND 3;
         r = push_bit 2 r OR pair;
         t = push_bit 2 q OR 1
     in if r \<ge> t then (push_bit 1 q OR 1, r - t) else (push_bit 1 q, r))"

text \<open>\<open>for i in range(total)\<close> from \<open>q = 0\<close>, \<open>r = 0\<close>.\<close>

definition srt_sqrt_loop :: "int \<Rightarrow> int \<Rightarrow> int \<times> int" where
  "srt_sqrt_loop a_padded tot = foldl (srt_sqrt_step a_padded tot) (0, 0) [0..<nat tot]"

text \<open>
  The assertion, the padding shift (a negative shift count raises \<open>ValueError\<close>), the loop and the
  final split into the root and the sticky flag.
\<close>

definition srt_sqrt :: "int \<Rightarrow> int \<Rightarrow> (int \<times> bool) result" where
  "srt_sqrt a n =
     bindR (assertR (push_bit 52 1 \<le> a \<and> a < push_bit 54 1) (''a='' @ fmt_alt_hex a @ '' out of range''))
     (\<lambda>_. let tot = n + 26 in
          if 2 * tot - 54 < 0 then Inl (ValueError ''negative shift count'')
          else let a_padded = push_bit (nat (2 * tot - 54)) a;
                   (q, r) = srt_sqrt_loop a_padded tot
               in Inr (drop_bit 26 q, q AND (push_bit 26 1 - 1) \<noteq> 0 \<or> r \<noteq> 0))"

section \<open>Correctness\<close>

text \<open>
  After \<open>i\<close> of \<open>m\<close> steps the root and the remainder decompose the top \<open>2 * i\<close> bits of the operand
  (of \<open>2 * m\<close> bits): their square sum, with the remainder small enough for the root to be the floor.
\<close>

definition sqrt_inv :: "int \<Rightarrow> nat \<Rightarrow> nat \<Rightarrow> int \<times> int \<Rightarrow> bool" where
  "sqrt_inv x m i = (\<lambda>(q, r). x div 4 ^ (m - i) = q * q + r \<and> 0 \<le> q \<and> 0 \<le> r \<and> r \<le> 2 * q)"

lemma srt_sqrt_step_eq:
  "srt_sqrt_step x tot (q, r) i =
     (let r' = 4 * r + x div 2 ^ nat (2 * (tot - 1 - int i)) mod 4 in
      if r' \<ge> 4 * q + 1 then (2 * q + 1, r' - (4 * q + 1)) else (2 * q, r'))"
proof -
  have "push_bit 2 r OR y mod 4 = 4 * r + y mod 4" for y :: int
    using shift_or_small [of "y mod 4" 2 r] by simp
  then show ?thesis
    unfolding srt_sqrt_step_def split Let_def and_3 or_1_shift_1 or_1_shift_2 drop_bit_eq_div
    by (simp add: push_bit_eq_mult)
qed

lemma div_4_split: "(x::int) div 4 ^ k = 4 * (x div 4 ^ Suc k) + x div 4 ^ k mod 4"
proof -
  have "x div 4 ^ Suc k = x div 4 ^ k div 4"
    by (metis power_Suc2 zdiv_zmult2_eq zero_le_numeral)
  then show ?thesis by presburger
qed

lemma srt_sqrt_step_inv:
  assumes "sqrt_inv x m i s" and "i < m"
  shows "sqrt_inv x m (Suc i) (srt_sqrt_step x (int m) s i)"
proof (cases s)
  case (Pair q r)
  define d where "d = x div 4 ^ (m - Suc i) mod 4"
  have k: "nat (2 * (int m - 1 - int i)) = 2 * (m - Suc i)" using assms(2) by simp
  have "m - i = Suc (m - Suc i)" using assms(2) by simp
  with assms(1) Pair have inv: "x div 4 ^ Suc (m - Suc i) = q * q + r" "0 \<le> q" "0 \<le> r" "r \<le> 2 * q"
    by (simp_all add: sqrt_inv_def)
  have x: "x div 4 ^ (m - Suc i) = 4 * (q * q + r) + d"
    unfolding d_def inv(1) [symmetric] by (rule div_4_split)
  have d: "0 \<le> d" "d < 4" by (simp_all add: d_def)
  have step: "srt_sqrt_step x (int m) s i =
      (if 4 * r + d \<ge> 4 * q + 1 then (2 * q + 1, 4 * r + d - (4 * q + 1)) else (2 * q, 4 * r + d))"
    unfolding Pair srt_sqrt_step_eq k d_def Let_def by (simp add: power_mult)
  show ?thesis unfolding sqrt_inv_def step using x inv d by (auto simp: algebra_simps)
qed

lemma srt_sqrt_loop_inv:
  assumes "0 \<le> x" and "x < 4 ^ m"
  shows "sqrt_inv x m m (srt_sqrt_loop x (int m))"
proof -
  have "i \<le> m \<Longrightarrow> sqrt_inv x m i (foldl (srt_sqrt_step x (int m)) (0, 0) [0..<i])" for i
  proof (induction i)
    case 0
    from assms show ?case by (simp add: sqrt_inv_def div_pos_pos_trivial)
  next
    case (Suc i)
    then show ?case by (simp add: srt_sqrt_step_inv)
  qed
  then show ?thesis by (simp add: srt_sqrt_loop_def)
qed

text \<open>The root over all its bits, before the low 26 are split off.\<close>

lemma srt_sqrt_loop_root:
  assumes "0 \<le> x" and "x < 4 ^ m"
  obtains q r where "srt_sqrt_loop x (int m) = (q, r)" and "x = q * q + r"
    and "0 \<le> q" and "0 \<le> r" and "r \<le> 2 * q"
  using srt_sqrt_loop_inv [OF assms] by (cases "srt_sqrt_loop x (int m)") (auto simp: sqrt_inv_def)


lemma root_strip_26:
  fixes x q r :: int
  assumes x: "x = q * q + r" and q: "0 \<le> q" and r: "0 \<le> r" "r \<le> 2 * q"
  defines "Q \<equiv> q div 2 ^ 26"
  shows "Q * Q * 2 ^ 52 \<le> x" and "x < (Q + 1) * (Q + 1) * 2 ^ 52" and "0 \<le> Q"
    and "q mod 2 ^ 26 \<noteq> 0 \<or> r \<noteq> 0 \<longleftrightarrow> Q * Q * 2 ^ 52 \<noteq> x"
proof -
  define d where "d = q mod 2 ^ 26"
  have qd: "q = Q * 2 ^ 26 + d" "0 \<le> d" "d < 2 ^ 26" by (simp_all add: Q_def d_def)
  show Q: "0 \<le> Q" using q by (simp add: Q_def)
  have lo: "Q * 2 ^ 26 \<le> q" and hi: "q + 1 \<le> (Q + 1) * 2 ^ 26" using qd by (simp_all add: algebra_simps)
  have sq: "Q * Q * 2 ^ 52 = (Q * 2 ^ 26) * (Q * 2 ^ 26)" by (simp add: algebra_simps)
  have "(Q * 2 ^ 26) * (Q * 2 ^ 26) \<le> q * q" using lo Q by (intro mult_mono) simp_all
  then show 1: "Q * Q * 2 ^ 52 \<le> x" unfolding sq x using r by simp
  have "x < (q + 1) * (q + 1)" unfolding x using r by (simp add: algebra_simps)
  also have "\<dots> \<le> ((Q + 1) * 2 ^ 26) * ((Q + 1) * 2 ^ 26)" using hi q Q by (intro mult_mono) simp_all
  also have "\<dots> = (Q + 1) * (Q + 1) * 2 ^ 52" by (simp add: algebra_simps)
  finally show "x < (Q + 1) * (Q + 1) * 2 ^ 52" .
  show "q mod 2 ^ 26 \<noteq> 0 \<or> r \<noteq> 0 \<longleftrightarrow> Q * Q * 2 ^ 52 \<noteq> x"
  proof
    assume *: "q mod 2 ^ 26 \<noteq> 0 \<or> r \<noteq> 0"
    show "Q * Q * 2 ^ 52 \<noteq> x"
    proof (cases "d = 0")
      case True
      with * have "r \<noteq> 0" by (simp add: d_def)
      moreover from True qd(1) have "q * q = (Q * 2 ^ 26) * (Q * 2 ^ 26)" by simp
      ultimately show ?thesis unfolding sq x by simp
    next
      case False
      then have "Q * 2 ^ 26 < q" using qd by simp
      then have "(Q * 2 ^ 26) * (Q * 2 ^ 26) < q * q" using Q by (intro mult_strict_mono) simp_all
      then show ?thesis unfolding sq x using r by simp
    qed
  next
    assume ne: "Q * Q * 2 ^ 52 \<noteq> x"
    show "q mod 2 ^ 26 \<noteq> 0 \<or> r \<noteq> 0"
    proof (rule ccontr)
      assume "\<not> (q mod 2 ^ 26 \<noteq> 0 \<or> r \<noteq> 0)"
      then have "d = 0" "r = 0" by (simp_all add: d_def)
      with qd(1) x have "x = (Q * 2 ^ 26) * (Q * 2 ^ 26)" by simp
      with ne sq show False by simp
    qed
  qed
qed

lemma square_less_imp_less:
  fixes x y :: int
  shows "0 \<le> y \<Longrightarrow> x * x < y * y \<Longrightarrow> x < y"
  using mult_mono [of y x y x] by linarith

lemma root_bounds:
  fixes Q a :: int
  assumes a: "2 ^ 52 \<le> a" "a < 2 ^ 54" and Q: "0 \<le> Q"
    and lo: "Q * Q * 2 ^ 52 \<le> a * 4 ^ k" and hi: "a * 4 ^ k < (Q + 1) * (Q + 1) * 2 ^ 52"
  shows "2 ^ k \<le> Q" and "Q < 2 ^ Suc k"
proof -
  have p: "(4::int) ^ k = 2 ^ k * 2 ^ k" by (simp add: power_mult_distrib [symmetric])
  have "2 ^ 52 * 4 ^ k \<le> a * 4 ^ k" using a by (intro mult_right_mono) simp_all
  with hi have "2 ^ 52 * (2 ^ k * 2 ^ k) < 2 ^ 52 * ((Q + 1) * (Q + 1))"
    unfolding p by (simp only: mult.commute [of "2 ^ 52"])
  then have "2 ^ k * 2 ^ k < (Q + 1) * (Q + 1)" by (rule mult_left_less_imp_less) simp
  then have "2 ^ k < Q + 1" by (rule square_less_imp_less [rotated]) (use Q in simp)
  then show "2 ^ k \<le> Q" by simp
  have "a * (2 ^ k * 2 ^ k) < 2 ^ 54 * (2 ^ k * 2 ^ k)"
    using a(2) by (rule mult_strict_right_mono) simp
  moreover have "(2::int) ^ 54 * (2 ^ k * 2 ^ k) = 2 ^ 52 * (2 ^ Suc k * 2 ^ Suc k)" by simp
  ultimately have "2 ^ 52 * (Q * Q) < 2 ^ 52 * (2 ^ Suc k * 2 ^ Suc k)"
    using lo unfolding p by (simp only: mult.commute [of "2 ^ 52" "Q * Q"])
  then have "Q * Q < 2 ^ Suc k * 2 ^ Suc k" by (rule mult_left_less_imp_less) simp
  then show "Q < 2 ^ Suc k" by (rule square_less_imp_less [rotated]) simp
qed

lemma srt_sqrt_eval:
  assumes "2 ^ 52 \<le> a" "a < 2 ^ 54" and "1 \<le> n"
  obtains q r where "srt_sqrt a n = Inr (q div 2 ^ 26, q mod 2 ^ 26 \<noteq> 0 \<or> r \<noteq> 0)"
    and "a * 4 ^ nat (n - 1) = q * q + r" and "0 \<le> q" and "0 \<le> r" and "r \<le> 2 * q"
proof -
  define m where "m = nat (n + 26)"
  define x where "x = a * 4 ^ nat (n - 1)"
  have m: "m = nat (n - 1) + 27" and im: "n + 26 = int m" using assms(3) by (simp_all add: m_def)
  have "nat (2 * (n + 26) - 54) = 2 * nat (n - 1)" using assms(3) by simp
  then have pad: "push_bit (nat (2 * (n + 26) - 54)) a = x"
    by (simp add: x_def push_bit_eq_mult power_mult)
  have "a * 4 ^ nat (n - 1) < 4 ^ 27 * 4 ^ nat (n - 1)"
    using assms(2) by (intro mult_strict_right_mono) simp_all
  then have "x < 4 ^ m" unfolding x_def m by (simp add: power_add mult.commute)
  moreover have "0 \<le> x" using assms(1) by (simp add: x_def)
  ultimately obtain q r where loop: "srt_sqrt_loop x (int m) = (q, r)" and qr: "x = q * q + r"
    "0 \<le> q" "0 \<le> r" "r \<le> 2 * q" using srt_sqrt_loop_root [of x m] by blast
  have "srt_sqrt a n = Inr (q div 2 ^ 26, q mod 2 ^ 26 \<noteq> 0 \<or> r \<noteq> 0)"
    unfolding srt_sqrt_def Let_def
    unfolding pad
    unfolding im loop using assms(1,2) m and_low_mask [of q 26]
    by (simp add: push_bit_eq_mult drop_bit_eq_div assertR_def)
  with qr show ?thesis using that unfolding x_def by blast
qed

section \<open>Properties\<close>

text \<open>
  C2. For a significand in range and at least one output bit, \<open>srt_sqrt\<close> returns: the root \<open>Q\<close> is the
  floor of the square root of \<open>a * 4 ^ (n - 1) / 2 ^ 52\<close>, it has exactly \<open>n\<close> bits with the leading one
  set, and the sticky flag is set exactly when the root is inexact.
\<close>

theorem srt_sqrt_correct:
  assumes "2 ^ 52 \<le> a" and "a < 2 ^ 54" and "1 \<le> n"
  shows "\<exists>Q s. srt_sqrt a n = Inr (Q, s)
    \<and> Q * Q * 2 ^ 52 \<le> a * 4 ^ nat (n - 1) \<and> a * 4 ^ nat (n - 1) < (Q + 1) * (Q + 1) * 2 ^ 52
    \<and> 2 ^ nat (n - 1) \<le> Q \<and> Q < 2 ^ nat n
    \<and> (s \<longleftrightarrow> Q * Q * 2 ^ 52 \<noteq> a * 4 ^ nat (n - 1))"
proof -
  from srt_sqrt_eval [OF assms] obtain q r
    where eval: "srt_sqrt a n = Inr (q div 2 ^ 26, q mod 2 ^ 26 \<noteq> 0 \<or> r \<noteq> 0)"
      and qr: "a * 4 ^ nat (n - 1) = q * q + r" "0 \<le> q" "0 \<le> r" "r \<le> 2 * q" .
  note strip = root_strip_26 [OF qr]
  have "Suc (nat (n - 1)) = nat n" using assms(3) by simp
  with root_bounds [OF assms(1,2) strip(3,1,2)] eval strip show ?thesis by simp
qed

theorem srt_sqrt_correct_witness:
  "\<exists>Q s. srt_sqrt (2 ^ 53) 27 = Inr (Q, s) \<and> 2 ^ nat (27 - 1) \<le> Q \<and> Q < 2 ^ nat 27"
  using srt_sqrt_correct [of "2 ^ 53" 27] by fastforce

text \<open>
  The exceptions of \<open>srt_sqrt\<close>, exhaustively: an operand outside \<open>[2 ^ 52, 2 ^ 54)\<close> fails the
  assertion, whose message prints it; fewer than one output bit makes the padding shift raise.
\<close>

lemma srt_sqrt_raises:
  "srt_sqrt a n = Inl e \<longleftrightarrow>
     (e = AssertionError (''a='' @ fmt_alt_hex a @ '' out of range'') \<and> \<not> (2 ^ 52 \<le> a \<and> a < 2 ^ 54)) \<or>
     (e = ValueError ''negative shift count'' \<and> 2 ^ 52 \<le> a \<and> a < 2 ^ 54 \<and> n < 1)"
  by (auto simp: srt_sqrt_def assertR_def push_bit_eq_mult Let_def split: prod.splits)

end
