(* ===== verification/Py_Float.thy ===== *)
theory Py_Float
  imports Complex_Main "HOL-Library.Log_Nat" Py_Str
begin

text \<open>
  Python floats, as exact rationals. Every finite double is a rational, and an operation on doubles
  is the exact operation followed by rounding to 53 significant bits, ties to even: that rounding is
  \<open>fl\<close>. The exponent range is not modelled (the programs' floats are probabilities, percentages and
  ratios of cycle counts, far from the limits of the format), and negative zero is zero. A literal such as \<open>0.30\<close> is \<open>fl (30 / 100)\<close>.
\<close>

type_synonym pyfloat = rat

definition round_even :: "rat \<Rightarrow> int" where
  "round_even x = (let f = \<lfloor>x\<rfloor>; r = x - of_int f in
     if r < 1 / 2 then f else if r > 1 / 2 then f + 1 else if even f then f else f + 1)"

text \<open>\<open>floor (log2 x)\<close> for positive \<open>x\<close>, from the bit lengths of the numerator and the denominator.\<close>

definition exponent_of :: "rat \<Rightarrow> int" where
  "exponent_of x = (let (n, d) = quotient_of x; e = bitlen n - bitlen d in
     if x < 2 powi e then e - 1 else e)"

definition fl_pos :: "rat \<Rightarrow> rat" where
  "fl_pos x = (let u = 2 powi (exponent_of x - 52) in of_int (round_even (x / u)) * u)"

definition fl :: "rat \<Rightarrow> pyfloat" where
  "fl x = (if x = 0 then 0 else if 0 < x then fl_pos x else - fl_pos (- x))"

lemma round_even_of_int [simp]: "round_even (of_int n) = n"
  by (simp add: round_even_def)

lemma round_even_mono: "x \<le> y \<Longrightarrow> round_even x \<le> round_even y"
proof -
  assume "x \<le> y"
  then have f: "\<lfloor>x\<rfloor> \<le> \<lfloor>y\<rfloor>" by (rule floor_mono)
  show ?thesis
  proof (cases "\<lfloor>x\<rfloor> = \<lfloor>y\<rfloor>")
    case True
    with \<open>x \<le> y\<close> show ?thesis by (auto simp: round_even_def Let_def)
  next
    case False
    with f have "\<lfloor>x\<rfloor> + 1 \<le> \<lfloor>y\<rfloor>" by simp
    moreover have "round_even x \<le> \<lfloor>x\<rfloor> + 1" "\<lfloor>y\<rfloor> \<le> round_even y" by (auto simp: round_even_def Let_def)
    ultimately show ?thesis by linarith
  qed
qed

lemma exponent_of_bounds:
  assumes "0 < x"
  shows "2 powi exponent_of x \<le> x" and "x < 2 powi (exponent_of x + 1)"
proof -
  obtain n d where q: "quotient_of x = (n, d)" by fastforce
  then have d: "0 < d" and x: "x = of_int n / of_int d"
    by (simp_all add: quotient_of_denom_pos quotient_of_div)
  with assms have n: "0 < n" by (simp add: zero_less_divide_iff)
  define e where "e = bitlen n - bitlen d"
  have bl: "1 \<le> bitlen n" "1 \<le> bitlen d" using n d bitlen_nonneg [of n] bitlen_nonneg [of d] bitlen_eq_zero_iff [of n] bitlen_eq_zero_iff [of d]
    by linarith+
  have nb: "(2::rat) powi (bitlen n - 1) \<le> of_int n" "of_int n < (2::rat) powi bitlen n"
    and db: "(2::rat) powi (bitlen d - 1) \<le> of_int d" "of_int d < (2::rat) powi bitlen d"
    using bitlen_bounds [OF n] bitlen_bounds [OF d] bl
    by (simp_all add: power_int_def flip: of_int_power_less_of_int_cancel_iff of_int_power_le_of_int_cancel_iff)
  have "(2::rat) powi (e - 1) * of_int d < 2 powi (e - 1) * 2 powi bitlen d"
    using db by (intro mult_strict_left_mono) simp_all
  also have "\<dots> = 2 powi (bitlen n - 1)" by (simp add: e_def flip: power_int_add)
  also have "\<dots> \<le> of_int n" by (rule nb)
  finally have lo: "2 powi (e - 1) < x" using d by (simp add: x field_simps)
  have "of_int n < (2::rat) powi bitlen n" by (rule nb)
  also have "\<dots> = 2 powi (e + 1) * 2 powi (bitlen d - 1)" by (simp add: e_def flip: power_int_add)
  also have "\<dots> \<le> 2 powi (e + 1) * of_int d" using db by (intro mult_left_mono) simp_all
  finally have hi: "x < 2 powi (e + 1)" using d by (simp add: x field_simps)
  have "exponent_of x = (if x < 2 powi e then e - 1 else e)"
    by (simp add: exponent_of_def q e_def)
  with lo hi show "2 powi exponent_of x \<le> x" "x < 2 powi (exponent_of x + 1)"
    by (auto simp: not_less)
qed

section \<open>Rounding\<close>

lemma powi_less: "(2::rat) powi a < 2 powi b \<Longrightarrow> a < b"
  using power_int_increasing [of b a "2::rat"] by (cases "a < b") auto

lemma fl_pos_bounds:
  assumes "0 < x"
  shows "2 powi exponent_of x \<le> fl_pos x" and "fl_pos x \<le> 2 powi (exponent_of x + 1)"
proof -
  let ?e = "exponent_of x"
  let ?u = "2 powi (?e - 52) :: rat"
  have u: "0 < ?u" by simp
  have split: "2 powi (?e + k) = (of_int (2 ^ nat (52 + k)) :: rat) * ?u" if "- 52 \<le> k" for k
  proof -
    have "(of_int (2 ^ nat (52 + k)) :: rat) = 2 powi (52 + k)" using that by (simp add: power_int_def)
    then have "(of_int (2 ^ nat (52 + k)) :: rat) * ?u = 2 powi (52 + k) * ?u" by simp
    also have "\<dots> = 2 powi (?e + k)" by (simp add: add.commute flip: power_int_add)
    finally show ?thesis by simp
  qed
  have lo: "2 powi ?e = of_int (2 ^ 52) * ?u" using split [of 0] by simp
  have hi: "2 powi (?e + 1) = of_int (2 ^ 53) * ?u" using split [of 1] by simp
  from exponent_of_bounds [OF assms] have "of_int (2 ^ 52) \<le> x / ?u" "x / ?u \<le> of_int (2 ^ 53)"
    unfolding lo hi using u by (simp_all add: pos_le_divide_eq pos_divide_le_eq less_imp_le del: of_int_power)
  from this [THEN round_even_mono] have "2 ^ 52 \<le> round_even (x / ?u)" "round_even (x / ?u) \<le> 2 ^ 53" unfolding round_even_of_int .
  then have "(of_int (2 ^ 52) :: rat) \<le> of_int (round_even (x / ?u))" "(of_int (round_even (x / ?u)) :: rat) \<le> of_int (2 ^ 53)"
    unfolding of_int_le_iff by blast+
  then show "2 powi ?e \<le> fl_pos x" "fl_pos x \<le> 2 powi (?e + 1)"
    unfolding lo hi fl_pos_def Let_def using u by (simp_all del: of_int_power)
qed

lemma fl_pos_mono:
  assumes "0 < x" and "x \<le> y"
  shows "fl_pos x \<le> fl_pos y"
proof -
  from assms have y: "0 < y" by simp
  have "2 powi exponent_of x < (2::rat) powi (exponent_of y + 1)"
    using exponent_of_bounds(1) [OF assms(1)] exponent_of_bounds(2) [OF y] assms(2) by linarith
  then have le: "exponent_of x \<le> exponent_of y" using powi_less by fastforce
  show ?thesis
  proof (cases "exponent_of x = exponent_of y")
    case True
    let ?u = "2 powi (exponent_of y - 52) :: rat"
    have "x / ?u \<le> y / ?u" using assms by (simp add: divide_right_mono)
    from round_even_mono [OF this] show ?thesis using True by (simp add: fl_pos_def Let_def mult_right_mono)
  next
    case False
    with le have "2 powi (exponent_of x + 1) \<le> (2::rat) powi exponent_of y" by (simp add: power_int_increasing)
    with fl_pos_bounds(2) [OF assms(1)] fl_pos_bounds(1) [OF y] show ?thesis by linarith
  qed
qed

text \<open>Rounding is monotone on non-negative numbers, and exact on those with 53 significant bits.\<close>

lemma fl_mono: "0 \<le> x \<Longrightarrow> x \<le> y \<Longrightarrow> fl x \<le> fl y"
proof -
  assume "0 \<le> x" "x \<le> y"
  have "0 \<le> fl_pos y" if "0 < y" using fl_pos_bounds(1) [OF that] by (meson order_trans zero_le_power_int zero_le_numeral)
  then show ?thesis using fl_pos_mono [of x y] \<open>0 \<le> x\<close> \<open>x \<le> y\<close> by (auto simp: fl_def)
qed

lemma fl_exact:
  assumes "x = of_int m * 2 powi k" and "0 \<le> m" and "m < 2 ^ 53"
  shows "fl x = x"
proof (cases "m = 0")
  case False
  with assms have x: "0 < x" by simp
  let ?e = "exponent_of x"
  have "(of_int m :: rat) < 2 ^ 53" using assms(3) by (simp flip: of_int_power_less_of_int_cancel_iff)
  then have "x < 2 ^ 53 * 2 powi k" by (simp add: assms(1))
  also have "\<dots> = 2 powi (53 + k)" by (simp add: power_int_add)
  finally have "2 powi ?e < (2::rat) powi (53 + k)" using exponent_of_bounds(1) [OF x] by linarith
  then have le: "0 \<le> k - (?e - 52)" using powi_less by fastforce
  let ?u = "2 powi (?e - 52) :: rat"
  have "x / ?u = of_int m * (2 powi k / ?u)" by (simp add: assms(1))
  also have "2 powi k / ?u = 2 powi (k - (?e - 52))" by (simp add: power_int_diff)
  also have "\<dots> = of_int (2 ^ nat (k - (?e - 52)))" using le by (simp add: power_int_def)
  also have "of_int m * \<dots> = of_int (m * 2 ^ nat (k - (?e - 52)))" by simp
  finally have "round_even (x / ?u) = m * 2 ^ nat (k - (?e - 52))" and eq: "x / ?u = of_int (m * 2 ^ nat (k - (?e - 52)))"
    by (simp_all only: round_even_of_int)
  then have "of_int (round_even (x / ?u)) = x / ?u" by simp
  then show ?thesis using x by (simp add: fl_def fl_pos_def Let_def)
qed (simp add: assms fl_def)

lemma fl_of_nat: "n < 2 ^ 53 \<Longrightarrow> fl (of_nat n) = of_nat n"
  by (rule fl_exact [of _ "int n" 0]) (simp_all add: power_int_def flip: of_nat_less_iff)

lemma round_even_error: "\<bar>of_int (round_even y) - y\<bar> \<le> 1 / 2"
proof -
  have "of_int \<lfloor>y\<rfloor> \<le> y" "y < of_int \<lfloor>y\<rfloor> + 1" by linarith+
  then show ?thesis by (auto simp: round_even_def Let_def abs_le_iff)
qed

lemma fl_pos_error:
  assumes "0 < x"
  shows "\<bar>fl_pos x - x\<bar> \<le> x / 2 ^ 53"
proof -
  let ?u = "2 powi (exponent_of x - 52) :: rat"
  have "fl_pos x - x = (of_int (round_even (x / ?u)) - x / ?u) * ?u" by (simp add: fl_pos_def Let_def algebra_simps)
  then have "\<bar>fl_pos x - x\<bar> = \<bar>of_int (round_even (x / ?u)) - x / ?u\<bar> * ?u" by (simp add: abs_mult)
  also have "\<dots> \<le> 1 / 2 * ?u" using round_even_error [of "x / ?u"] by (intro mult_right_mono) simp_all
  also have "1 / 2 * ?u = 2 powi exponent_of x / 2 ^ 53" by (simp add: power_int_diff)
  also have "\<dots> \<le> x / 2 ^ 53" using exponent_of_bounds(1) [OF assms] by (simp add: divide_right_mono)
  finally show ?thesis .
qed

lemma fl_minus: "fl (- x) = - fl x"
  by (auto simp: fl_def)

lemma fl_error: "\<bar>fl x - x\<bar> \<le> \<bar>x\<bar> / 2 ^ 53"
proof (cases "0 < x")
  case True
  with fl_pos_error [OF True] show ?thesis by (simp add: fl_def)
next
  case False
  have flip: "\<bar>fl x - x\<bar> = \<bar>fl (- x) - (- x)\<bar>" by (simp add: fl_minus abs_minus_commute)
  show ?thesis
  proof (cases "x = 0")
    case True
    then show ?thesis by (simp add: fl_def)
  next
    case nonzero: False
    with False have "0 < - x" by simp
    with fl_pos_error [OF this] nonzero show ?thesis unfolding flip by (simp add: fl_def)
  qed
qed

text \<open>Numbers that are far enough apart for their size stay apart.\<close>

lemma fl_strict:
  assumes "x < y" and "\<bar>x\<bar> \<le> b" and "\<bar>y\<bar> \<le> b" and "2 * b < (y - x) * 2 ^ 53"
  shows "fl x < fl y"
proof -
  have "fl x \<le> x + b / 2 ^ 53" "y - b / 2 ^ 53 \<le> fl y"
  proof -
    have "\<bar>x\<bar> / 2 ^ 53 \<le> b / 2 ^ 53" "\<bar>y\<bar> / 2 ^ 53 \<le> b / 2 ^ 53" using assms(2,3) by (simp_all add: divide_right_mono)
    with fl_error [of x] fl_error [of y] show "fl x \<le> x + b / 2 ^ 53" "y - b / 2 ^ 53 \<le> fl y" by linarith+
  qed
  moreover have "x + b / 2 ^ 53 < y - b / 2 ^ 53" using assms(4) by (simp add: field_simps)
  ultimately show ?thesis by linarith
qed

lemma fl_mono_all: "x \<le> y \<Longrightarrow> fl x \<le> fl y"
proof (cases "0 \<le> x")
  case False
  assume "x \<le> y"
  have neg: "fl z \<le> 0" if "z \<le> 0" for z using fl_mono [of 0 "- z"] that fl_minus [of z] by (simp add: fl_def [of 0])
  show ?thesis
  proof (cases "0 \<le> y")
    case True
    with neg [of x] False fl_mono [of 0 y] show ?thesis by (simp add: fl_def [of 0])
  next
    case False
    with \<open>x \<le> y\<close> fl_mono [of "- y" "- x"] show ?thesis by (simp add: fl_minus)
  qed
qed (rule fl_mono)

lemma fl_sign: "fl x < 0 \<longleftrightarrow> x < 0" "\<bar>fl x\<bar> = fl \<bar>x\<bar>"
proof -
  have e: "\<bar>fl x - x\<bar> \<le> \<bar>x\<bar> / 2 ^ 53" by (rule fl_error)
  have half: "\<bar>x\<bar> / 2 ^ 53 \<le> \<bar>x\<bar> / 2" by (rule divide_left_mono) simp_all
  show neg: "fl x < 0 \<longleftrightarrow> x < 0"
  proof (cases "x < 0")
    case True
    then have "fl x \<le> x / 2" using e half by (simp add: abs_if split: if_splits)
    with True show ?thesis by simp
  next
    case False
    then have "0 \<le> fl x" using e half by (simp add: abs_if split: if_splits)
    with False show ?thesis by simp
  qed
  show "\<bar>fl x\<bar> = fl \<bar>x\<bar>" using neg fl_minus [of x] by (simp add: abs_if)
qed

lemma fl_thousandths:
  assumes "\<bar>k\<bar> < 2 ^ 40" and "\<bar>m\<bar> < 2 ^ 40"
  shows "fl (of_int k / 1000) \<le> fl (of_int m / 1000) \<longleftrightarrow> k \<le> m"
proof (cases "k \<le> m")
  case True
  then show ?thesis by (simp add: fl_mono_all divide_right_mono)
next
  case False
  have b: "\<bar>of_int i / 1000\<bar> \<le> (2 ^ 40 :: rat)" if "\<bar>i\<bar> < 2 ^ 40" for i :: int
  proof -
    have "\<bar>of_int i :: rat\<bar> \<le> 2 ^ 40" using that by (metis less_imp_le of_int_abs of_int_le_iff of_int_numeral of_int_power)
    then show ?thesis by simp
  qed
  have "(of_int m + 1 :: rat) \<le> of_int k" using False by (metis add1_zle_eq not_le of_int_1 of_int_add of_int_le_iff)
  then have "fl (of_int m / 1000) < fl (of_int k / 1000)"
    using b [OF assms(1)] b [OF assms(2)] by (intro fl_strict [of _ _ "2 ^ 40"]) (simp_all add: field_simps)
  with False show ?thesis by simp
qed

section \<open>Printing\<close>

text \<open>\<open>{x:.kf}\<close> and \<open>{x:+.kf}\<close>: the exact value rounded to \<open>k\<close> decimals, ties to even.\<close>

definition fmt_abs :: "nat \<Rightarrow> pyfloat \<Rightarrow> string" where
  "fmt_abs k x = (let ds = zero_pad (Suc k) (nat_digits 10 (nat (round_even (\<bar>x\<bar> * 10 ^ k))));
      n = length ds - k
    in take n ds @ (if k = 0 then [] else ''.'' @ drop n ds))"

definition fmt_fixed :: "nat \<Rightarrow> pyfloat \<Rightarrow> string" where
  "fmt_fixed k x = (if x < 0 then ''-'' else []) @ fmt_abs k x"

definition fmt_signed :: "nat \<Rightarrow> pyfloat \<Rightarrow> string" where
  "fmt_signed k x = (if x < 0 then ''-'' else ''+'') @ fmt_abs k x"

end
