(* ===== verification/Py_Random.thy ===== *)
theory Py_Random
  imports Py_Float
begin

text \<open>
  Python's \<open>random.Random\<close>, from the 32-bit outputs of its generator upwards. The state of the model
  is the list of outputs still to come (zeros once the list is exhausted), so a seed is the list that
  the Mersenne Twister would produce for it, and a theorem that holds for every list holds for every
  seed. \<open>getrandbits\<close>, the rejection loop of \<open>_randbelow\<close>, \<open>randint\<close>, \<open>choice\<close>, \<open>choices\<close> and
  \<open>random\<close> follow the standard library. The locale states what the callers rely on: a draw below
  \<open>n\<close> is below \<open>n\<close>.
\<close>

type_synonym rng = "32 word list"

definition genrand :: "rng \<Rightarrow> 32 word \<times> rng" where
  "genrand ws = (case ws of [] \<Rightarrow> (0, []) | w # ws' \<Rightarrow> (w, ws'))"

text \<open>\<open>getrandbits(k)\<close>: 32-bit words, least significant first, the last one shifted down.\<close>

function getrandbits :: "nat \<Rightarrow> rng \<Rightarrow> int \<times> rng" where
  "getrandbits k ws =
     (if k = 0 then (0, ws)
      else let (w, ws) = genrand ws in
        if k \<le> 32 then (uint (drop_bit (32 - k) w), ws)
        else let (r, ws) = getrandbits (k - 32) ws in (uint w + 2 ^ 32 * r, ws))"
  by pat_completeness auto
termination
  by (relation "measure fst") auto

declare getrandbits.simps [simp del]

text \<open>\<open>n.bit_length()\<close> for a natural number.\<close>

definition bit_length :: "nat \<Rightarrow> nat" where
  "bit_length n = nat (bitlen (int n))"

lemma genrand_length: "genrand ws = (w, ws') \<Longrightarrow> length ws' \<le> length ws"
  by (auto simp: genrand_def split: list.splits)

lemma genrand_shrinks: "ws \<noteq> [] \<Longrightarrow> genrand ws = (w, ws') \<Longrightarrow> length ws' < length ws"
  by (auto simp: genrand_def split: list.splits)

lemma getrandbits_length: "length (snd (getrandbits k ws)) \<le> length ws"
proof (induction k ws rule: getrandbits.induct)
  case (1 k ws)
  obtain w ws' where g: "genrand ws = (w, ws')" by fastforce
  show ?case
  proof (cases "k = 0 \<or> k \<le> 32")
    case True
    then show ?thesis
      using genrand_length [OF g] by (subst getrandbits.simps) (auto simp: g)
  next
    case False
    with 1 g have "length (snd (getrandbits (k - 32) ws')) \<le> length ws'" by simp
    with genrand_length [OF g] have "length (snd (getrandbits (k - 32) ws')) \<le> length ws" by simp
    with False show ?thesis
      by (subst getrandbits.simps) (auto simp: g split: prod.splits)
  qed
qed

lemma getrandbits_shrinks:
  assumes "ws \<noteq> []" and "0 < k"
  shows "length (snd (getrandbits k ws)) < length ws"
proof -
  obtain w ws' where g: "genrand ws = (w, ws')" by fastforce
  have "length (snd (getrandbits (k - 32) ws')) \<le> length ws'" by (rule getrandbits_length)
  with assms genrand_shrinks [OF assms(1) g] show ?thesis
    by (subst getrandbits.simps) (auto simp: g split: prod.splits)
qed

lemma div_int_less:
  fixes x b c :: int
  assumes "x < c * b" and "0 < b"
  shows "x div b < c"
proof -
  have "x div b * b \<le> x" using div_mult_mod_eq [of x b] pos_mod_sign [OF assms(2), of x] by linarith
  with assms(1) have "x div b * b < c * b" by linarith
  with assms(2) show ?thesis by simp
qed

lemma bit_length_pos: "0 < n \<Longrightarrow> 0 < bit_length n"
  using bitlen_nonneg [of "int n"] bitlen_eq_zero_iff [of "int n"] by (simp add: bit_length_def)

lemma getrandbits_bounds: "0 \<le> fst (getrandbits k ws) \<and> fst (getrandbits k ws) < 2 ^ k"
proof (induction k ws rule: getrandbits.induct)
  case (1 k ws)
  obtain w ws' where g: "genrand ws = (w, ws')" by fastforce
  have w: "uint w < 2 ^ 32" using uint_lt2p [of w] by simp
  consider (zero) "k = 0" | (one) "0 < k" "k \<le> 32" | (more) "32 < k" by linarith
  then show ?case
  proof cases
    case zero
    then show ?thesis by (subst (1 2) getrandbits.simps) simp
  next
    case one
    have "uint w < 2 ^ k * 2 ^ (32 - k)" using w one by (simp flip: power_add)
    then have "drop_bit (32 - k) (uint w) < 2 ^ k"
      unfolding drop_bit_eq_div by (rule div_int_less) simp
    then have "uint (drop_bit (32 - k) w) < 2 ^ k"
      unfolding unsigned_drop_bit_eq using take_bit_int_eq_self [of "uint w" 32] w by simp
    with one show ?thesis by (subst (1 2) getrandbits.simps) (simp add: g)
  next
    case more
    obtain r ws'' where r: "getrandbits (k - 32) ws' = (r, ws'')" by fastforce
    with 1 g more have "0 \<le> r" "r < 2 ^ (k - 32)" by auto
    then have "r + 1 \<le> 2 ^ (k - 32)" by simp
    then have "2 ^ 32 * (r + 1) \<le> 2 ^ 32 * 2 ^ (k - 32)" by (rule mult_left_mono) simp
    also have "(2::int) ^ 32 * 2 ^ (k - 32) = 2 ^ k" 
      using more power_add [of "2::int" 32 "k - 32"] by simp
    finally have "uint w + 2 ^ 32 * r < 2 ^ k" using w by (simp add: algebra_simps)
    with more g r \<open>0 \<le> r\<close> show ?thesis by (subst (1 2) getrandbits.simps) simp
  qed
qed


text \<open>
  \<open>_randbelow(n)\<close> for \<open>n > 0\<close>: draw \<open>n.bit_length()\<close> bits until the draw is below \<open>n\<close>. The test
  \<open>ws = []\<close> ends the recursion for \<open>n = 0\<close>, which no caller passes.
\<close>

function randbelow :: "nat \<Rightarrow> rng \<Rightarrow> nat \<times> rng" where
  "randbelow n ws =
     (let (r, ws') = getrandbits (bit_length n) ws in
      if nat r < n \<or> ws = [] \<or> n = 0 then (nat r, ws') else randbelow n ws')"
  by pat_completeness auto
termination
proof (relation "measure (\<lambda>(n, ws). length ws)")
  show "wf (measure (\<lambda>(n, ws). length ws))" by simp
next
  fix n :: nat and ws :: rng and x :: "int \<times> rng" and r ws'
  assume x: "x = getrandbits (bit_length n) ws" and z: "(r, ws') = x"
    and go: "\<not> (nat r < n \<or> ws = [] \<or> n = 0)"
  from go have "length (snd (getrandbits (bit_length n) ws)) < length ws"
    by (intro getrandbits_shrinks bit_length_pos) simp_all
  then show "((n, ws'), n, ws) \<in> measure (\<lambda>(n, ws). length ws)"
    unfolding x [symmetric] z [symmetric] by simp
qed

declare randbelow.simps [simp del]

lemma getrandbits_Nil [simp]: "getrandbits k [] = (0, [])"
proof (induction k rule: less_induct)
  case (less k)
  then show ?case by (subst getrandbits.simps) (simp add: genrand_def)
qed

lemma randbelow_less: "0 < n \<Longrightarrow> fst (randbelow n ws) < n"
proof (induction n ws rule: randbelow.induct)
  case (1 n ws)
  obtain r ws' where g: "getrandbits (bit_length n) ws = (r, ws')" by fastforce
  show ?case
  proof (cases "nat r < n \<or> ws = [] \<or> n = 0")
    case True
    with 1 g show ?thesis by (subst randbelow.simps) auto
  next
    case False
    with 1 g show ?thesis by (subst randbelow.simps) simp
  qed
qed

text \<open>The operations of the class, in the state-and-exception monad over the outputs.\<close>

definition randint :: "int \<Rightarrow> int \<Rightarrow> (rng, int) sem" where
  "randint lo hi = (\<lambda>ws.
     if hi + 1 - lo > 0 then let (r, ws') = randbelow (nat (hi + 1 - lo)) ws in Inr (lo + int r, ws')
     else Inl (ValueError (''empty range for randrange() ('' @ str_int lo @ '', '' @ str_int (hi + 1) @ '', '' @ str_int (hi + 1 - lo) @ '')'')))"

definition choice :: "'a list \<Rightarrow> (rng, 'a) sem" where
  "choice xs = (\<lambda>ws.
     if xs = [] then Inl (IndexError ''Cannot choose from an empty sequence'')
     else let (i, ws') = randbelow (length xs) ws in Inr (xs ! i, ws'))"

definition getrandbitsM :: "nat \<Rightarrow> (rng, int) sem" where
  "getrandbitsM k = (\<lambda>ws. Inr (getrandbits k ws))"

text \<open>\<open>random()\<close>: 53 random bits over \<open>2 ** 53\<close>.\<close>

definition random_unit :: "(rng, pyfloat) sem" where
  "random_unit = (\<lambda>ws. let (a, ws) = genrand ws; (b, ws) = genrand ws in
     Inr (of_int (uint (drop_bit 5 a) * 67108864 + uint (drop_bit 6 b)) / 2 ^ 53, ws))"

text \<open>
  \<open>choices(population, weights=weights, k=1)[0]\<close>: the cumulative weights are searched, all but the
  last, for the first above \<open>random() * total\<close>. Other lengths and a total of zero raise.
\<close>

fun cumulative :: "nat \<Rightarrow> nat list \<Rightarrow> nat list" where
  "cumulative acc [] = []"
| "cumulative acc (w # ws) = (acc + w) # cumulative (acc + w) ws"

definition bisect_right :: "nat list \<Rightarrow> pyfloat \<Rightarrow> nat" where
  "bisect_right cum x = length (takeWhile (\<lambda>c. of_nat c \<le> x) cum)"

definition choices1 :: "'a list \<Rightarrow> nat list \<Rightarrow> (rng, 'a) sem" where
  "choices1 population weights =
     (if population = [] \<or> length weights \<noteq> length population
      then liftM (Inl (ValueError ''The number of weights does not match the population''))
      else let cum = cumulative 0 weights; tot = last cum in
        if tot = 0 then liftM (Inl (ValueError ''Total of weights must be greater than zero''))
        else bindM random_unit (\<lambda>u.
          retM (population ! bisect_right (butlast cum) (fl (u * of_nat tot)))))"

section \<open>What the callers rely on\<close>

locale random_source =
  fixes below :: "nat \<Rightarrow> 's \<Rightarrow> nat \<times> 's"
  assumes below_less: "0 < n \<Longrightarrow> fst (below n s) < n"
begin

lemma pick_in_set: "xs \<noteq> [] \<Longrightarrow> xs ! fst (below (length xs) s) \<in> set xs"
  by (simp add: below_less)

lemma pick_in_range:
  assumes "lo \<le> (hi::int)"
  shows "lo \<le> lo + int (fst (below (nat (hi + 1 - lo)) s)) \<and> lo + int (fst (below (nat (hi + 1 - lo)) s)) \<le> hi"
  using below_less [of "nat (hi + 1 - lo)" s] assms by linarith

end

interpretation mt: random_source randbelow
  by unfold_locales (rule randbelow_less)

named_theorems wp_draws "preconditions of the draws"

lemma wp_choice [wp_draws]:
  assumes "xs \<noteq> []" and "\<And>x ws'. x \<in> set xs \<Longrightarrow> Q x ws'"
  shows "wp (choice xs) Q ws"
proof -
  obtain i ws' where r: "randbelow (length xs) ws = (i, ws')" by fastforce
  with mt.pick_in_set [OF assms(1), of ws] have "xs ! i \<in> set xs" by simp
  with assms r show ?thesis by (simp add: wp_def choice_def)
qed

lemma wp_randint [wp_draws]:
  assumes "lo \<le> hi" and "\<And>i ws'. lo \<le> i \<Longrightarrow> i \<le> hi \<Longrightarrow> Q i ws'"
  shows "wp (randint lo hi) Q ws"
proof -
  obtain i ws' where r: "randbelow (nat (hi + 1 - lo)) ws = (i, ws')" by fastforce
  with mt.pick_in_range [OF assms(1), of ws] have "lo \<le> lo + int i" "lo + int i \<le> hi" by simp_all
  with assms r show ?thesis by (simp add: wp_def randint_def)
qed

lemma wp_getrandbits [wp_draws]:
  "(\<And>r ws'. 0 \<le> r \<Longrightarrow> r < 2 ^ k \<Longrightarrow> Q r ws') \<Longrightarrow> wp (getrandbitsM k) Q ws"
  using getrandbits_bounds [of k ws] by (cases "getrandbits k ws") (simp add: wp_def getrandbitsM_def)

lemma wp_random_unit [wp_draws]: "(\<And>u ws'. Q u ws') \<Longrightarrow> wp random_unit Q ws"
  by (simp add: wp_def random_unit_def Let_def case_prod_unfold)

lemma cumulative_length [simp]: "length (cumulative acc ws) = length ws"
  by (induction ws arbitrary: acc) auto

lemma wp_choices1 [wp_draws]:
  assumes "xs \<noteq> []" and "length weights = length xs" and "last (cumulative 0 weights) \<noteq> 0"
    and "\<And>x ws'. x \<in> set xs \<Longrightarrow> Q x ws'"
  shows "wp (choices1 xs weights) Q ws"
proof -
  have below: "bisect_right (butlast (cumulative 0 weights)) x < length xs" for x
  proof -
    have "bisect_right (butlast (cumulative 0 weights)) x \<le> length (butlast (cumulative 0 weights))"
      unfolding bisect_right_def by (rule length_takeWhile_le)
    also have "\<dots> < length xs" using assms(1,2) by (simp add: Suc_le_eq)
    finally show ?thesis .
  qed
  have "choices1 xs weights = bindM random_unit
      (\<lambda>u. retM (xs ! bisect_right (butlast (cumulative 0 weights)) (fl (u * of_nat (last (cumulative 0 weights))))))"
    using assms(1-3) by (simp add: choices1_def Let_def)
  then show ?thesis
    by (simp add: wp_simps) (intro wp_random_unit assms(4) nth_mem below)
qed

text \<open>Every result of \<open>randbelow\<close> has an output of the generator that gives it at once.\<close>

lemma randbelow_reaches:
  assumes "i < n" and "n < 2 ^ 32"
  shows "\<exists>w. \<forall>ws. randbelow n (w # ws) = (i, ws)"
proof -
  let ?k = "bit_length n"
  let ?w = "word_of_nat (i * 2 ^ (32 - ?k)) :: 32 word"
  from bitlen_bounds [of "int n"] assms(1) have b: "2 ^ nat (bitlen (int n) - 1) \<le> int n" "int n < 2 ^ nat (bitlen (int n))" by simp_all
  then have k: "n < 2 ^ ?k" unfolding bit_length_def by (simp flip: of_nat_less_iff)
  have k32: "?k \<le> 32" using bitlen_le_iff_power [of "int n" 32] assms(2) by (simp add: bit_length_def nat_le_iff)
  from bit_length_pos [of n] assms(1) have k0: "?k \<noteq> 0" by simp
  have "i < 2 ^ ?k" using assms(1) k by simp
  then have "i * 2 ^ (32 - ?k) < 2 ^ ?k * 2 ^ (32 - ?k)" by simp
  then have small: "i * 2 ^ (32 - ?k) < 2 ^ 32" using k32 by (simp flip: power_add)
  have "uint (drop_bit m (word_of_nat x :: 32 word)) = int (x div 2 ^ m)" if "x < 2 ^ 32" for x m :: nat
  proof -
    from that have "uint (word_of_nat x :: 32 word) = int x" and "int x < 2 ^ 32"
      by (simp_all add: unsigned_of_nat take_bit_nat_eq_self)
    then show ?thesis unfolding unsigned_drop_bit_eq by (simp add: take_bit_int_eq_self drop_bit_eq_div zdiv_int)
  qed
  from this [OF small] have "uint (drop_bit (32 - ?k) ?w) = int i" by simp
  then have "getrandbits ?k (?w # ws) = (int i, ws)" for ws
    using k0 k32 by (subst getrandbits.simps) (simp add: genrand_def)
  then show ?thesis using assms by (intro exI [of _ ?w]) (subst randbelow.simps, simp)
qed

end
