(* ===== verification/Py_World.thy ===== *)
theory Py_World
  imports Py_Str "HOL-Library.Char_ord" "HOL-Library.List_Lexorder"
begin

text \<open>
  What the tools see of the world outside: files, as a map from paths to contents, and the result of a
  finished process. Strings are ordered lexicographically by code point, as Python's \<open>sorted\<close> does.
\<close>

type_synonym files = "string \<rightharpoonup> string"

record completed =
  returncode :: int
  stdout :: string
  stderr :: string

text \<open>\<open>a / b\<close> on paths, where \<open>b\<close> is relative, and \<open>path.unlink(missing_ok=True)\<close>.\<close>

definition path_join :: "string \<Rightarrow> string \<Rightarrow> string" where
  "path_join a b = (if a = ''.'' then b else if a \<noteq> [] \<and> last a = CHR ''/'' then a @ b else a @ ''/'' @ b)"

lemma path_join_slash: "path_join a b = b \<or> CHR ''/'' \<in> set (path_join a b)"
  by (cases a rule: rev_cases) (auto simp: path_join_def)

definition unlink :: "string \<Rightarrow> files \<Rightarrow> files" where
  "unlink p fs = fs(p := None)"

text \<open>\<open>repr(s)\<close> of a string, and of a list of strings.\<close>

definition printable :: "char \<Rightarrow> bool" where
  "printable c \<longleftrightarrow> (let n = of_char c :: nat in 32 \<le> n \<and> n \<noteq> 173 \<and> (n < 127 \<or> 160 < n))"

definition repr_char :: "char \<Rightarrow> char \<Rightarrow> string" where
  "repr_char q c =
     (if c = q \<or> c = CHR 0x5C then [CHR 0x5C, c]
      else if c = CHR 0x0A then [CHR 0x5C, CHR ''n'']
      else if c = CHR 0x0D then [CHR 0x5C, CHR ''r'']
      else if c = CHR 0x09 then [CHR 0x5C, CHR ''t'']
      else if printable c then [c]
      else [CHR 0x5C, CHR ''x''] @ fmt_hex 2 (int (of_char c)))"

definition repr_str :: "string \<Rightarrow> string" where
  "repr_str s =
     (let q = (if CHR 0x27 \<in> set s \<and> CHR 0x22 \<notin> set s then CHR 0x22 else CHR 0x27)
      in [q] @ concat (map (repr_char q) s) @ [q])"

definition repr_list :: "string list \<Rightarrow> string" where
  "repr_list xs = ''['' @ join '', '' (map repr_str xs) @ '']''"

end
