(* ===== verification/Py_Text.thy ===== *)
theory Py_Text
  imports Py_World
begin

text \<open>
  The text operations of Python that the trace and coverage tools use: files as decoded text, line
  splitting in its two forms, splitting at white space, substring tests and upper case.
\<close>

section \<open>Reading files\<close>

text \<open>Text mode translates the three line endings to a newline.\<close>

fun universal_newlines :: "string \<Rightarrow> string" where
  "universal_newlines [] = []"
| "universal_newlines (c # cs) =
     (if c = CHR 0x0D
      then CHR 0x0A # (if cs \<noteq> [] \<and> hd cs = CHR 0x0A then universal_newlines (tl cs) else universal_newlines cs)
      else c # universal_newlines cs)"

definition read_text :: "files \<Rightarrow> string \<Rightarrow> string result" where
  "read_text fs p = (case fs p of
      None \<Rightarrow> Inl (OSError (''[Errno 2] No such file or directory: '' @ repr_str p))
    | Some s \<Rightarrow> Inr (universal_newlines s))"

section \<open>Lines\<close>

definition line_break :: "char \<Rightarrow> bool" where
  "line_break c \<longleftrightarrow> (let n = of_char c :: nat in 10 \<le> n \<and> n \<le> 13 \<or> 28 \<le> n \<and> n \<le> 30 \<or> n = 133)"

text \<open>\<open>s.splitlines()\<close>; the accumulator is the current line, reversed, if it has begun.\<close>

fun splitlines_acc :: "string option \<Rightarrow> string \<Rightarrow> string list" where
  "splitlines_acc None [] = []"
| "splitlines_acc (Some l) [] = [rev l]"
| "splitlines_acc l (c # cs) =
     (let cur = (case l of None \<Rightarrow> [] | Some l' \<Rightarrow> l') in
      if line_break c
      then rev cur # (if c = CHR 0x0D \<and> cs \<noteq> [] \<and> hd cs = CHR 0x0A then splitlines_acc None (tl cs)
                      else splitlines_acc None cs)
      else splitlines_acc (Some (c # cur)) cs)"

definition splitlines :: "string \<Rightarrow> string list" where
  "splitlines s = splitlines_acc None s"

text \<open>\<open>for line in f\<close>: lines end with their newline, except possibly the last.\<close>

fun file_lines_acc :: "string \<Rightarrow> string \<Rightarrow> string list" where
  "file_lines_acc cur [] = (if cur = [] then [] else [rev cur])"
| "file_lines_acc cur (c # cs) =
     (if c = CHR 0x0A then rev (c # cur) # file_lines_acc [] cs else file_lines_acc (c # cur) cs)"

definition file_lines :: "string \<Rightarrow> string list" where
  "file_lines s = file_lines_acc [] s"

definition unlines :: "string list \<Rightarrow> string" where
  "unlines ls = concat (map (\<lambda>l. l @ [CHR 0x0A]) ls)"

lemma splitlines_acc_line:
  "list_all (\<lambda>c. \<not> line_break c) l \<Longrightarrow>
     splitlines_acc a (l @ CHR 0x0A # s) = (case a of None \<Rightarrow> l | Some a' \<Rightarrow> rev a' @ l) # splitlines_acc None s"
proof (induction l arbitrary: a)
  case Nil
  have "line_break CHR 0x0A" by (simp add: line_break_def)
  then show ?case by (cases a) (simp_all add: Let_def)
next
  case (Cons c l)
  then show ?case by (cases a) (simp_all add: Let_def)
qed

text \<open>Lines without line breaks survive being written and split again.\<close>

lemma line_break_space: "line_break c \<Longrightarrow> is_space c"
  by (auto simp: line_break_def is_space_def Let_def)

lemma splitlines_unlines:
  "list_all (list_all (\<lambda>c. \<not> line_break c)) ls \<Longrightarrow> splitlines (unlines ls) = ls"
proof (induction ls)
  case (Cons l ls)
  then have "splitlines (unlines ls) = ls" by simp
  with Cons.prems splitlines_acc_line [of l None "unlines ls"] show ?case
    by (simp add: splitlines_def unlines_def)
qed (simp add: splitlines_def unlines_def)

lemma file_lines_acc_line:
  "CHR 0x0A \<notin> set l \<Longrightarrow> file_lines_acc cur (l @ CHR 0x0A # s) = (rev cur @ l @ [CHR 0x0A]) # file_lines_acc [] s"
  by (induction l arbitrary: cur) auto

lemma file_lines_unlines:
  "\<forall>l \<in> set ls. CHR 0x0A \<notin> set l \<Longrightarrow> file_lines (unlines ls) = map (\<lambda>l. l @ [CHR 0x0A]) ls"
  by (induction ls) (simp_all add: file_lines_def unlines_def file_lines_acc_line)

lemma universal_newlines_id: "CHR 0x0D \<notin> set s \<Longrightarrow> universal_newlines s = s"
  by (induction s) auto

section \<open>Words and substrings\<close>

text \<open>\<open>s.split()\<close>: the maximal runs of characters that are not white space.\<close>

fun words_acc :: "string \<Rightarrow> string \<Rightarrow> string list" where
  "words_acc cur [] = (if cur = [] then [] else [rev cur])"
| "words_acc cur (c # cs) =
     (if is_space c then (if cur = [] then [] else [rev cur]) @ words_acc [] cs
      else words_acc (c # cur) cs)"

definition split_ws :: "string \<Rightarrow> string list" where
  "split_ws s = words_acc [] s"

definition no_space :: "string \<Rightarrow> bool" where
  "no_space w \<longleftrightarrow> list_all (\<lambda>c. \<not> is_space c) w"

lemma no_space_simps [simp]:
  "no_space []" "no_space (c # w) \<longleftrightarrow> \<not> is_space c \<and> no_space w" "no_space (u @ w) \<longleftrightarrow> no_space u \<and> no_space w"
  by (simp_all add: no_space_def)

lemma is_space_blank [simp]: "is_space CHR '' ''"
  by (simp add: is_space_def)

lemma words_acc_word: "no_space w \<Longrightarrow> words_acc cur (w @ s) = words_acc (rev w @ cur) s"
  by (induction w arbitrary: cur) auto

lemma words_acc_end: "s = [] \<or> is_space (hd s) \<Longrightarrow> words_acc cur s = (if cur = [] then [] else [rev cur]) @ split_ws s"
  by (cases s) (auto simp: split_ws_def)

lemma split_ws_Nil [simp]: "split_ws [] = []"
  by (simp add: split_ws_def)

lemma split_ws_space [simp]: "is_space c \<Longrightarrow> split_ws (c # s) = split_ws s"
  by (simp add: split_ws_def)

lemma split_ws_word:
  "no_space w \<Longrightarrow> w \<noteq> [] \<Longrightarrow> s = [] \<or> is_space (hd s) \<Longrightarrow> split_ws (w @ s) = w # split_ws s"
  using words_acc_end [of s "rev w"] by (simp add: split_ws_def words_acc_word)

lemma split_ws_spaces: "list_all is_space u \<Longrightarrow> split_ws (u @ s) = split_ws s"
  by (induction u) auto

lemma words_acc_words:
  "no_space cur \<Longrightarrow> w \<in> set (words_acc cur s) \<Longrightarrow> w \<noteq> [] \<and> no_space w"
proof (induction s arbitrary: cur)
  case Nil
  then show ?case by (cases "cur = []") (auto simp: no_space_def)
next
  case (Cons c s)
  show ?case
  proof (cases "is_space c")
    case True
    then have "words_acc cur (c # s) = words_acc cur [] @ words_acc [] s" by simp
    with Cons.prems consider "w \<in> set (words_acc cur [])" | "w \<in> set (words_acc [] s)" by auto
    then show ?thesis
    proof cases
      case 1
      with Cons.prems(1) show ?thesis by (cases "cur = []") (auto simp: no_space_def)
    qed (rule Cons.IH, simp_all)
  next
    case False
    with Cons.IH [of "c # cur"] Cons.prems show ?thesis by simp
  qed
qed

lemma split_ws_words: "w \<in> set (split_ws s) \<Longrightarrow> w \<noteq> [] \<and> no_space w"
  by (rule words_acc_words [of "[]"]) (simp_all add: split_ws_def)

lemma rstrip_append: "rstrip s \<noteq> [] \<Longrightarrow> rstrip (u @ s) = u @ rstrip s"
proof -
  assume "rstrip s \<noteq> []"
  then obtain c where "c \<in> set (rev s)" "\<not> is_space c" by (auto simp: rstrip_def dropWhile_eq_Nil_conv)
  from dropWhile_append1 [of c "rev s" is_space "rev u", OF this] show ?thesis by (simp add: rstrip_def)
qed

lemma rstrip_word: "no_space w \<Longrightarrow> list_all is_space s \<Longrightarrow> rstrip (w @ s) = w"
proof -
  assume w: "no_space w" and s: "list_all is_space s"
  from s have "dropWhile is_space (rev s @ rev w) = dropWhile is_space (rev w)"
    by (subst dropWhile_append2) (auto simp: list_all_iff)
  also have "... = rev w" using w by (cases "rev w") (auto simp: no_space_def list_all_iff)
  finally show ?thesis by (simp add: rstrip_def)
qed

lemma span_split: "\<exists>u v. s = u @ v \<and> list_all P u \<and> (v = [] \<or> \<not> P (hd v))"
proof -
  have "list_all P (takeWhile P s)" by (auto simp: list_all_iff dest: set_takeWhileD)
  moreover have "dropWhile P s = [] \<or> \<not> P (hd (dropWhile P s))" using hd_dropWhile [of P s] by blast
  moreover have "s = takeWhile P s @ dropWhile P s" by simp
  ultimately show ?thesis by blast
qed

lemma space_split: "\<exists>u v. s = u @ v \<and> list_all is_space u \<and> (v = [] \<or> \<not> is_space (hd v))"
  by (rule span_split)

lemma word_split: "\<exists>u v. s = u @ v \<and> no_space u \<and> (v = [] \<or> is_space (hd v))"
  using span_split [of s "\<lambda>c. \<not> is_space c"] by (simp add: no_space_def)

lemma join_nonempty: "xs \<noteq> [] \<Longrightarrow> list_all (\<lambda>x. x \<noteq> []) xs \<Longrightarrow> join sep xs \<noteq> []"
proof (cases xs)
  case (Cons x ys)
  then show "list_all (\<lambda>x. x \<noteq> []) xs \<Longrightarrow> ?thesis" by (cases "ys = []") (auto simp: join_Cons)
qed simp

text \<open>\<open>s.rsplit(None, 1)\<close>.\<close>

definition rsplit_ws1 :: "string \<Rightarrow> string list" where
  "rsplit_ws1 s =
     (let t = rstrip s;
          w = rev (takeWhile (\<lambda>c. \<not> is_space c) (rev t));
          left = rstrip (take (length t - length w) t)
      in if t = [] then [] else if strip left = [] then [lstrip t] else [left, w])"

definition starts_with :: "string \<Rightarrow> string \<Rightarrow> bool" where
  "starts_with p s \<longleftrightarrow> take (length p) s = p"

definition ends_with :: "string \<Rightarrow> string \<Rightarrow> bool" where
  "ends_with p s \<longleftrightarrow> starts_with (rev p) (rev s)"

text \<open>\<open>t in s\<close> for strings, and the rest of \<open>s\<close> after the first occurrence.\<close>

fun after_first :: "string \<Rightarrow> string \<Rightarrow> string option" where
  "after_first t s = (if starts_with t s then Some (drop (length t) s)
     else case s of [] \<Rightarrow> None | _ # cs \<Rightarrow> after_first t cs)"

declare after_first.simps [simp del]

definition contains :: "string \<Rightarrow> string \<Rightarrow> bool" where
  "contains t s \<longleftrightarrow> after_first t s \<noteq> None"

lemma contains_append: "contains t (u @ t @ v)"
proof (induction u)
  case Nil
  show ?case by (simp add: contains_def after_first.simps [of t "t @ v"] starts_with_def)
next
  case (Cons c u)
  then show ?case by (simp add: contains_def after_first.simps [of t "c # u @ t @ v"])
qed

text \<open>\<open>s.upper()\<close> on ASCII letters.\<close>

definition upper_char :: "char \<Rightarrow> char" where
  "upper_char c = (let n = of_char c :: nat in if 97 \<le> n \<and> n \<le> 122 then char_of (n - 32) else c)"

end
