(* ===== verification/Py_IO.thy ===== *)
theory Py_IO
  imports Py_Text
begin

text \<open>
  Code that prints, reads and writes files and runs child processes, as functions on the state of the
  outside world. A computation returns a value or an exception together with the world after it, so
  that what was done before an exception stays done. Child processes are a parameter: \<open>exec\<close> takes the
  command line, the environment variables the caller sets, the time limit and the files, and returns
  what became of the process and the files after it. Directories are not modelled.
\<close>

record world =
  w_files :: files
  w_out :: string
  w_err :: string

type_synonym 'a io = "world \<Rightarrow> 'a result \<times> world"

datatype outcome = Exited completed | TimedOut string | NotStarted string

type_synonym exec = "string list \<Rightarrow> (string \<times> string) list \<Rightarrow> nat option \<Rightarrow> files \<Rightarrow> outcome \<times> files"

definition retI :: "'a \<Rightarrow> 'a io" where
  "retI x = (\<lambda>w. (Inr x, w))"

definition raiseI :: "pyexc \<Rightarrow> 'a io" where
  "raiseI e = (\<lambda>w. (Inl e, w))"

definition bindI :: "'a io \<Rightarrow> ('a \<Rightarrow> 'b io) \<Rightarrow> 'b io" where
  "bindI m f = (\<lambda>w. case m w of (Inl e, w') \<Rightarrow> (Inl e, w') | (Inr x, w') \<Rightarrow> f x w')"

definition liftI :: "'a result \<Rightarrow> 'a io" where
  "liftI r = (\<lambda>w. (r, w))"

text \<open>\<open>try: m; finally: f\<close>: an exception of the clean-up replaces the outcome of the body.\<close>

definition finallyI :: "'a io \<Rightarrow> ('a result \<Rightarrow> unit io) \<Rightarrow> 'a io" where
  "finallyI m f = (\<lambda>w. case m w of (r, w') \<Rightarrow> (case f r w' of (Inl e, w'') \<Rightarrow> (Inl e, w'') | (Inr _, w'') \<Rightarrow> (r, w'')))"

text \<open>\<open>try: m; except ...: h\<close>, where \<open>h\<close> gives the handler of the exceptions that are caught.\<close>

definition catchI :: "'a io \<Rightarrow> (pyexc \<Rightarrow> 'a io option) \<Rightarrow> 'a io" where
  "catchI m h = (\<lambda>w. case m w of
      (Inl e, w') \<Rightarrow> (case h e of Some k \<Rightarrow> k w' | None \<Rightarrow> (Inl e, w'))
    | (Inr x, w') \<Rightarrow> (Inr x, w'))"

text \<open>\<open>print(s)\<close> of some lines, and \<open>sys.stderr.write(s)\<close>.\<close>

definition printI :: "string list \<Rightarrow> unit io" where
  "printI ls = (\<lambda>w. (Inr (), w\<lparr>w_out := w_out w @ unlines ls\<rparr>))"

definition errI :: "string \<Rightarrow> unit io" where
  "errI s = (\<lambda>w. (Inr (), w\<lparr>w_err := w_err w @ s\<rparr>))"

definition filesI :: "files io" where
  "filesI = (\<lambda>w. (Inr (w_files w), w))"

definition readI :: "string \<Rightarrow> string io" where
  "readI p = (\<lambda>w. (read_text (w_files w) p, w))"

text \<open>A tool that only reads files, with what it prints and its exit code.\<close>

definition completedI :: "(files \<Rightarrow> completed result) \<Rightarrow> int io" where
  "completedI m = (\<lambda>w. case m (w_files w) of
      Inl e \<Rightarrow> (Inl e, w)
    | Inr c \<Rightarrow> (Inr (returncode c), w\<lparr>w_out := w_out w @ stdout c, w_err := w_err w @ stderr c\<rparr>))"

definition writeI :: "string \<Rightarrow> string \<Rightarrow> unit io" where
  "writeI p s = (\<lambda>w. (Inr (), w\<lparr>w_files := (w_files w)(p \<mapsto> s)\<rparr>))"

text \<open>What is written to an open file after what it holds.\<close>

definition appendI :: "string \<Rightarrow> string \<Rightarrow> unit io" where
  "appendI p s = (\<lambda>w. (Inr (), w\<lparr>w_files := (w_files w)(p \<mapsto> (case w_files w p of Some t \<Rightarrow> t | None \<Rightarrow> []) @ s)\<rparr>))"

definition unlinkI :: "string \<Rightarrow> unit io" where
  "unlinkI p = (\<lambda>w. (Inr (), w\<lparr>w_files := unlink p (w_files w)\<rparr>))"

text \<open>\<open>subprocess.run(cmd, env=..., timeout=...)\<close> with the output captured.\<close>

definition runI :: "exec \<Rightarrow> string list \<Rightarrow> (string \<times> string) list \<Rightarrow> nat option \<Rightarrow> completed io" where
  "runI exec cmd env limit = (\<lambda>w. case exec cmd env limit (w_files w) of
      (Exited c, fs) \<Rightarrow> (Inr c, w\<lparr>w_files := fs\<rparr>)
    | (TimedOut err, fs) \<Rightarrow> (Inl (TimeoutExpired err), w\<lparr>w_files := fs\<rparr>)
    | (NotStarted msg, fs) \<Rightarrow> (Inl (OSError msg), w\<lparr>w_files := fs\<rparr>))"

text \<open>The same with the output inherited and, when \<open>check\<close> is set, an exception for a failure.\<close>

definition passthroughI :: "bool \<Rightarrow> exec \<Rightarrow> string list \<Rightarrow> (string \<times> string) list \<Rightarrow> nat option \<Rightarrow> int io" where
  "passthroughI check exec cmd env limit =
     bindI (runI exec cmd env limit) (\<lambda>c w.
       (if check \<and> returncode c \<noteq> 0 then Inl (CalledProcessError (returncode c) []) else Inr (returncode c),
        w\<lparr>w_out := w_out w @ stdout c, w_err := w_err w @ stderr c\<rparr>))"

text \<open>\<open>subprocess.check_output(cmd, text=True)\<close>; the exception carries the captured error output.\<close>

definition check_outputI :: "exec \<Rightarrow> string list \<Rightarrow> string io" where
  "check_outputI exec cmd = bindI (runI exec cmd [] None) (\<lambda>c.
     if returncode c \<noteq> 0 then raiseI (CalledProcessError (returncode c) (stderr c)) else retI (stdout c))"

text \<open>
  \<open>shutil.rmtree(p, ignore_errors=True)\<close>: what the file system lets it delete is the parameter \<open>rm\<close>, and
  what it cannot delete is no error.
\<close>

type_synonym rmtree = "string \<Rightarrow> files \<Rightarrow> files"

definition rmtreeI :: "rmtree \<Rightarrow> string \<Rightarrow> unit io" where
  "rmtreeI rm p = (\<lambda>w. (Inr (), w\<lparr>w_files := rm p (w_files w)\<rparr>))"

fun eachI :: "('a \<Rightarrow> unit io) \<Rightarrow> 'a list \<Rightarrow> unit io" where
  "eachI f [] = retI ()"
| "eachI f (x # xs) = bindI (f x) (\<lambda>_. eachI f xs)"

section \<open>Reasoning\<close>

named_theorems io_simps "one step of a computation on the world"

lemma bindI_done: "m w = (Inr x, w') \<Longrightarrow> bindI m f w = f x w'"
  by (simp add: bindI_def)

lemma bindI_InrD: "bindI m f w = (Inr y, w') \<Longrightarrow> \<exists>x w1. m w = (Inr x, w1) \<and> f x w1 = (Inr y, w')"
  by (auto simp: bindI_def split: prod.splits sum.splits)

lemma bindI_eq_Inr: "bindI m f w = (Inr y, w') \<longleftrightarrow> (\<exists>x w1. m w = (Inr x, w1) \<and> f x w1 = (Inr y, w'))"
  by (auto simp: bindI_def split: prod.splits sum.splits)

lemma bindI_ret [io_simps]: "bindI (retI x) f w = f x w"
  by (simp add: bindI_def retI_def)

lemma bindI_raise [io_simps]: "bindI (raiseI e) f w = (Inl e, w)"
  by (simp add: bindI_def raiseI_def)

lemma bindI_lift [io_simps]: "bindI (liftI (Inr x)) f w = f x w" "bindI (liftI (Inl e)) f w = (Inl e, w)"
  by (simp_all add: bindI_def liftI_def)

lemma bindI_print [io_simps]: "bindI (printI ls) f w = f () (w\<lparr>w_out := w_out w @ unlines ls\<rparr>)"
  by (simp add: bindI_def printI_def)

lemma bindI_err [io_simps]: "bindI (errI s) f w = f () (w\<lparr>w_err := w_err w @ s\<rparr>)"
  by (simp add: bindI_def errI_def)

lemma bindI_files [io_simps]: "bindI filesI f w = f (w_files w) w"
  by (simp add: bindI_def filesI_def)

lemma bindI_write [io_simps]: "bindI (writeI p s) f w = f () (w\<lparr>w_files := (w_files w)(p \<mapsto> s)\<rparr>)"
  by (simp add: bindI_def writeI_def)

lemma bindI_unlink [io_simps]: "bindI (unlinkI p) f w = f () (w\<lparr>w_files := unlink p (w_files w)\<rparr>)"
  by (simp add: bindI_def unlinkI_def)

lemma bindI_rmtree [io_simps]: "bindI (rmtreeI rm p) f w = f () (w\<lparr>w_files := rm p (w_files w)\<rparr>)"
  by (simp add: bindI_def rmtreeI_def)

lemma bindI_read [io_simps]:
  "bindI (readI p) f w = (case read_text (w_files w) p of Inl e \<Rightarrow> (Inl e, w) | Inr s \<Rightarrow> f s w)"
  by (simp add: bindI_def readI_def split: sum.split)

lemma bindI_assoc [io_simps]: "bindI (bindI m f) g = bindI m (\<lambda>x. bindI (f x) g)"
  by (rule ext) (simp add: bindI_def split: prod.split sum.split)

lemma retI_apply [io_simps]: "retI x w = (Inr x, w)"
  by (simp add: retI_def)

lemma raiseI_apply [io_simps]: "raiseI e w = (Inl e, w)"
  by (simp add: raiseI_def)

lemma runI_exited [io_simps]:
  "exec cmd env limit (w_files w) = (Exited c, fs) \<Longrightarrow> bindI (runI exec cmd env limit) f w = f c (w\<lparr>w_files := fs\<rparr>)"
  by (simp add: bindI_def runI_def)

text \<open>When a step returns, as an equation: what it returned and the world after it.\<close>

lemma retI_eq_Inr: "retI x w = (Inr y, w') \<longleftrightarrow> y = x \<and> w' = w"
  by (auto simp: retI_def)

lemma raiseI_eq_Inr: "raiseI e w = (Inr y, w') \<longleftrightarrow> False"
  by (simp add: raiseI_def)

lemma printI_eq_Inr: "printI ls w = (Inr u, w') \<longleftrightarrow> w' = w\<lparr>w_out := w_out w @ unlines ls\<rparr>"
  by (auto simp: printI_def)

lemma errI_eq_Inr: "errI s w = (Inr u, w') \<longleftrightarrow> w' = w\<lparr>w_err := w_err w @ s\<rparr>"
  by (auto simp: errI_def)

lemma writeI_eq_Inr: "writeI p s w = (Inr u, w') \<longleftrightarrow> w' = w\<lparr>w_files := (w_files w)(p \<mapsto> s)\<rparr>"
  by (auto simp: writeI_def)

lemma runI_eq_Inr:
  "runI exec cmd env limit w = (Inr c, w') \<longleftrightarrow> (\<exists>fs. exec cmd env limit (w_files w) = (Exited c, fs) \<and> w' = w\<lparr>w_files := fs\<rparr>)"
  by (auto simp: runI_def split: prod.splits outcome.splits)

lemma passthroughI_eq_Inr:
  "passthroughI True exec cmd env limit w = (Inr x, w') \<longleftrightarrow> (\<exists>c fs. exec cmd env limit (w_files w) = (Exited c, fs)
     \<and> returncode c = 0 \<and> x = 0 \<and> w' = w\<lparr>w_files := fs, w_out := w_out w @ stdout c, w_err := w_err w @ stderr c\<rparr>)"
  unfolding passthroughI_def bindI_eq_Inr runI_eq_Inr by (auto split: if_splits)

lemmas eq_Inr_simps = bindI_eq_Inr retI_eq_Inr raiseI_eq_Inr printI_eq_Inr errI_eq_Inr writeI_eq_Inr runI_eq_Inr passthroughI_eq_Inr

text \<open>A process that starts and finishes in time.\<close>

definition finishes :: "exec \<Rightarrow> bool" where
  "finishes exec \<longleftrightarrow> (\<forall>cmd env limit fs. \<exists>c fs'. exec cmd env limit fs = (Exited c, fs'))"

definition result_of :: "exec \<Rightarrow> string list \<Rightarrow> (string \<times> string) list \<Rightarrow> nat option \<Rightarrow> files \<Rightarrow> completed" where
  "result_of exec cmd env limit fs = (case fst (exec cmd env limit fs) of Exited c \<Rightarrow> c | _ \<Rightarrow> \<lparr>returncode = 0, stdout = [], stderr = []\<rparr>)"

definition files_of :: "exec \<Rightarrow> string list \<Rightarrow> (string \<times> string) list \<Rightarrow> nat option \<Rightarrow> files \<Rightarrow> files" where
  "files_of exec cmd env limit fs = snd (exec cmd env limit fs)"

lemma runI_finishes:
  "finishes exec \<Longrightarrow> bindI (runI exec cmd env limit) f w =
     f (result_of exec cmd env limit (w_files w)) (w\<lparr>w_files := files_of exec cmd env limit (w_files w)\<rparr>)"
  unfolding finishes_def result_of_def files_of_def bindI_def runI_def
  by (drule spec [of _ cmd], drule spec [of _ env], drule spec [of _ limit], drule spec [of _ "w_files w"]) auto

text \<open>What a finished child with inherited output leaves behind.\<close>

definition after_child :: "exec \<Rightarrow> string list \<Rightarrow> (string \<times> string) list \<Rightarrow> nat option \<Rightarrow> world \<Rightarrow> world" where
  "after_child exec cmd env limit w = (let c = result_of exec cmd env limit (w_files w) in
     w\<lparr>w_files := files_of exec cmd env limit (w_files w), w_out := w_out w @ stdout c, w_err := w_err w @ stderr c\<rparr>)"

lemma passthroughI_finishes:
  assumes "finishes exec"
  shows "bindI (passthroughI check exec cmd env limit) f w =
    (let rc = returncode (result_of exec cmd env limit (w_files w)); w' = after_child exec cmd env limit w in
     if check \<and> rc \<noteq> 0 then (Inl (CalledProcessError rc []), w') else f rc w')"
  unfolding passthroughI_def bindI_assoc runI_finishes [OF assms]
  by (simp add: bindI_def after_child_def Let_def)

lemma after_child_files [simp]: "w_files (after_child exec cmd env limit w) = files_of exec cmd env limit (w_files w)"
  by (simp add: after_child_def Let_def)

text \<open>Printing a computed line for every element: with no exception, the lines in order.\<close>

lemma eachI_lines:
  "mapR f xs = Inr ls \<Longrightarrow> eachI (\<lambda>x. bindI (liftI (f x)) (\<lambda>l. printI [l])) xs w = (Inr (), w\<lparr>w_out := w_out w @ unlines ls\<rparr>)"
proof (induction xs arbitrary: ls w)
  case (Cons x xs)
  then obtain l ls' where "f x = Inr l" "mapR f xs = Inr ls'" "ls = l # ls'" by (auto simp: result_iff)
  with Cons.IH [OF this(2)] show ?case by (simp add: io_simps unlines_def)
qed (simp add: retI_def unlines_def)

text \<open>A child that only reads: it exits 0 with an output that depends on the command line.\<close>

definition only_reads :: "exec \<Rightarrow> (string list \<Rightarrow> string) \<Rightarrow> bool" where
  "only_reads exec reply \<longleftrightarrow>
     (\<forall>cmd env limit fs. exec cmd env limit fs = (Exited \<lparr>returncode = 0, stdout = reply cmd, stderr = []\<rparr>, fs))"

lemma check_output_reads:
  "only_reads exec reply \<Longrightarrow> bindI (check_outputI exec cmd) f w = f (reply cmd) w"
  by (simp add: check_outputI_def io_simps runI_exited only_reads_def)

end
