(* ===== verification/Srt_Vectors.thy ===== *)
theory Srt_Vectors
  imports Srt_Divide Srt_Sqrt Py_Random Py_IO
begin

text \<open>
  The generators of the division and square-root test vectors, tb/stage5/ref/gen_fdiv_vectors.py and
  gen_fsqrt_vectors.py. A random generator's seed is the list of its outputs; what a call of
  \<open>directed_vectors\<close> or \<open>random_vectors\<close> writes is the list of its lines. The locale states what a generator relies on, a reference function
  that returns an \<open>n\<close>-bit result on valid operands, and proves once that a run of \<open>emit\<close> calls on
  valid operands writes one line per call with a result of at most 14 hexadecimal digits. Both
  reference functions are instances.
\<close>

section \<open>The contract of a reference function\<close>

text \<open>The number of output bits for a format: 56 for double, 27 for single.\<close>

definition out_bits :: "int \<Rightarrow> int" where
  "out_bits fmt_d = (if fmt_d \<noteq> 0 then 56 else 27)"

lemma out_bits_ge_1 [simp]: "1 \<le> out_bits fmt_d"
  by (simp add: out_bits_def)

locale vector_reference =
  fixes reference :: "'op \<Rightarrow> int \<Rightarrow> (int \<times> bool) result"
    and operand_ok :: "'op \<Rightarrow> bool"
  assumes reference_returns:
    "operand_ok x \<Longrightarrow> 1 \<le> n \<Longrightarrow> \<exists>q s. reference x n = Inr (q, s) \<and> 0 \<le> q \<and> q < 2 ^ nat n"
begin

lemma result_digits:
  assumes "operand_ok x" and "reference x (out_bits fmt_d) = Inr (q, s)"
  shows "length (fmt_hex 14 q) = 14"
proof -
  from reference_returns [OF assms(1), of "out_bits fmt_d"] assms(2)
  have q: "0 \<le> q" "q < 2 ^ nat (out_bits fmt_d)" by (auto simp: out_bits_def split: if_splits)
  have "(2::int) ^ nat (out_bits fmt_d) \<le> 16 ^ 14" by (simp add: out_bits_def)
  with q show ?thesis by (intro fmt_hex_length) simp_all
qed

lemma emit_all:
  assumes "\<forall>(fmt_d, x) \<in> set cases. operand_ok x"
  shows "\<exists>lines. mapR (\<lambda>(fmt_d, x). bindR (reference x (out_bits fmt_d)) (\<lambda>(q, s). Inr (render fmt_d x q s))) cases = Inr lines
    \<and> list_all2 (\<lambda>(fmt_d, x) line. \<exists>q s. reference x (out_bits fmt_d) = Inr (q, s) \<and> line = render fmt_d x q s) cases lines"
  using assms
proof (induction cases)
  case Nil
  then show ?case by simp
next
  case (Cons c cases)
  obtain fmt_d x where c: "c = (fmt_d, x)" by fastforce
  with Cons.prems reference_returns [of x "out_bits fmt_d"] obtain q s
    where "reference x (out_bits fmt_d) = Inr (q, s)" by auto
  with c Cons show ?case by auto
qed

end

section \<open>Division vectors\<close>

text \<open>A significand with its hidden bit; a helper the tool defines and does not call.\<close>

definition make_sig :: "int \<Rightarrow> int \<Rightarrow> int result" where
  "make_sig mant_bits val =
     (if mant_bits < 0 then Inl (ValueError ''negative shift count'')
      else Inr (push_bit 52 1 OR (val AND (push_bit (nat mant_bits) 1 - 1))))"

text \<open>The line \<open>emit\<close> writes for a result, and \<open>emit\<close> itself.\<close>

definition fdiv_line :: "int \<Rightarrow> int \<times> int \<Rightarrow> int \<Rightarrow> bool \<Rightarrow> string" where
  "fdiv_line fmt_d = (\<lambda>(a, b) q sticky.
     fmt_bin 1 fmt_d @ '' '' @ fmt_hex 14 a @ '' '' @ fmt_hex 14 b @ '' '' @ fmt_hex 14 q @ '' ''
     @ fmt_bin 1 (if sticky then 1 else 0) @ [CHR 0x0A])"

definition fdiv_emit :: "int \<Rightarrow> int \<times> int \<Rightarrow> string result" where
  "fdiv_emit fmt_d = (\<lambda>(a, b). bindR (srt_divide a b (out_bits fmt_d))
     (\<lambda>(q, sticky). Inr (fdiv_line fmt_d (a, b) q sticky)))"

text \<open>The \<open>cases\<close> list of \<open>directed_vectors\<close>, in its order.\<close>

definition fdiv_directed_cases :: "(int \<times> int \<times> int) list" where
  "fdiv_directed_cases =
     (let one = push_bit 52 1;
          a_3 = push_bit 52 1 OR push_bit 51 1; b_2 = push_bit 52 1;
          a_val = push_bit 53 1 - 1; b_val = push_bit 52 1 + 1;
          a_min = push_bit 52 1; b_max = push_bit 53 1 - 1;
          a_max = push_bit 53 1 - 1; b_min = push_bit 52 1;
          b6 = push_bit 52 1 OR 0x123456; a6 = b6 + 1;
          b7 = push_bit 52 1 OR 0xABCDEF; a7 = b7 - 1;
          a8 = push_bit 52 1 OR push_bit 29 0x7FFFFF; b8 = push_bit 52 1 OR push_bit 29 0x400000;
          b9 = push_bit 52 1; a9 = b9 + drop_bit 1 b9;
          b10 = push_bit 52 1 OR 0xDEADBEEF; a10 = b10;
          a11 = push_bit 52 1; b11 = push_bit 53 1 - 3;
          a12 = push_bit 53 1 - 1; b12 = push_bit 53 1 - 1
      in [(0, one, one), (1, one, one), (0, a_3, b_2), (1, a_3, b_2), (0, a_val, b_val), (1, a_val, b_val),
          (0, a_min, b_max), (1, a_min, b_max), (0, a_max, b_min), (1, a_max, b_min),
          (0, a6, b6), (1, a6, b6), (0, a7, b7), (1, a7, b7), (0, a8, b8), (1, a9, b9),
          (0, a10, b10), (1, a10, b10), (1, a11, b11), (0, a12, b12)])"

definition fdiv_directed_vectors :: "string list result" where
  "fdiv_directed_vectors = mapR (\<lambda>(fmt_d, ab). fdiv_emit fmt_d ab) fdiv_directed_cases"

text \<open>One pass of the loop of \<open>random_vectors\<close>, then the loop.\<close>

definition fdiv_random_operands :: "(rng, int \<times> int) sem" where
  "fdiv_random_operands =
     bindM (getrandbitsM 52) (\<lambda>ra. bindM (getrandbitsM 52) (\<lambda>rb.
       let a = push_bit 52 1 OR ra; b = push_bit 52 1 OR rb in
       bindM (if a \<ge> 2 * b
              then let a = a mod b + b in
                bindM (liftM (assertR (a AND push_bit 52 1 \<noteq> 0) (''a='' @ fmt_alt_hex a @ '' lost bit 52'')))
                  (\<lambda>_. retM a)
              else retM a)
       (\<lambda>a. bindM (liftM (assertR (a < 2 * b) [])) (\<lambda>_. retM (a, b)))))"

primrec fdiv_random_vectors :: "int \<Rightarrow> nat \<Rightarrow> (rng, string list) sem" where
  "fdiv_random_vectors fmt_d 0 = retM []"
| "fdiv_random_vectors fmt_d (Suc count) =
     bindM fdiv_random_operands (\<lambda>ab. bindM (liftM (fdiv_emit fmt_d ab)) (\<lambda>line.
       bindM (fdiv_random_vectors fmt_d count) (\<lambda>rest. retM (line # rest))))"

text \<open>\<open>main\<close>; \<open>here\<close> is the directory of the script, and the three writers append to the file one after the other.\<close>

definition fdiv_main :: "string \<Rightarrow> (int \<Rightarrow> rng) \<Rightarrow> unit io" where
  "fdiv_main here twister =
     (let out_path = path_join here ''fdiv_vectors.hex'' in
      bindI (writeI out_path []) (\<lambda>_.
      bindI (liftI fdiv_directed_vectors) (\<lambda>ls. bindI (appendI out_path (concat ls)) (\<lambda>_.
      bindI (liftI (fdiv_random_vectors 1 500 (twister 42))) (\<lambda>(ls, _). bindI (appendI out_path (concat ls)) (\<lambda>_.
      bindI (liftI (fdiv_random_vectors 0 500 (twister 137))) (\<lambda>(ls, _). bindI (appendI out_path (concat ls)) (\<lambda>_.
      printI [''Generated '' @ out_path]))))))))"

section \<open>Square-root vectors\<close>

definition fsqrt_line :: "int \<Rightarrow> int \<Rightarrow> int \<Rightarrow> bool \<Rightarrow> string" where
  "fsqrt_line fmt_d a q sticky =
     fmt_bin 1 fmt_d @ '' '' @ fmt_hex 14 a @ '' '' @ fmt_hex 14 q @ '' ''
     @ fmt_bin 1 (if sticky then 1 else 0) @ [CHR 0x0A]"

definition fsqrt_emit :: "int \<Rightarrow> int \<Rightarrow> string result" where
  "fsqrt_emit fmt_d a = bindR (srt_sqrt a (out_bits fmt_d))
     (\<lambda>(q, sticky). Inr (fsqrt_line fmt_d a q sticky))"

definition fsqrt_directed_cases :: "(int \<times> int) list" where
  "fsqrt_directed_cases =
     [(0, push_bit 52 1), (1, push_bit 52 1), (0, push_bit 53 1), (1, push_bit 53 1),
      (0, push_bit 53 1 - 1), (1, push_bit 53 1 - 1), (0, push_bit 54 1 - 1), (1, push_bit 54 1 - 1),
      (1, push_bit 53 1),
      (0, push_bit 52 1 OR push_bit 50 1), (1, push_bit 52 1 OR push_bit 50 1),
      (0, push_bit 52 1 + 1), (1, push_bit 52 1 + 1), (1, push_bit 53 1 - 2),
      (0, push_bit 53 1 + 1), (1, push_bit 53 1 + 1),
      (1, push_bit 52 1 OR 0xAAAAAAAAAAAAA), (1, push_bit 53 1 OR 0x5555555555555),
      (0, push_bit 52 1 OR push_bit 29 0x7FFFFF)]"

definition fsqrt_directed_vectors :: "string list result" where
  "fsqrt_directed_vectors = mapR (\<lambda>(fmt_d, a). fsqrt_emit fmt_d a) fsqrt_directed_cases"

definition fsqrt_random_operand :: "(rng, int) sem" where
  "fsqrt_random_operand =
     bindM (randint 0 1) (\<lambda>coin.
     bindM (if coin = 0
            then bindM (getrandbitsM 52) (\<lambda>r. retM (push_bit 52 1 OR r))
            else bindM (getrandbitsM 53) (\<lambda>r. retM (push_bit 53 1 OR r)))
     (\<lambda>a. bindM (liftM (assertR (push_bit 52 1 \<le> a \<and> a < push_bit 54 1) (''a='' @ fmt_alt_hex a @ '' out of range'')))
       (\<lambda>_. retM a)))"

primrec fsqrt_random_vectors :: "int \<Rightarrow> nat \<Rightarrow> (rng, string list) sem" where
  "fsqrt_random_vectors fmt_d 0 = retM []"
| "fsqrt_random_vectors fmt_d (Suc count) =
     bindM fsqrt_random_operand (\<lambda>a. bindM (liftM (fsqrt_emit fmt_d a)) (\<lambda>line.
       bindM (fsqrt_random_vectors fmt_d count) (\<lambda>rest. retM (line # rest))))"

definition fsqrt_main :: "string \<Rightarrow> (int \<Rightarrow> rng) \<Rightarrow> unit io" where
  "fsqrt_main here twister =
     (let out_path = path_join here ''fsqrt_vectors.hex'' in
      bindI (writeI out_path []) (\<lambda>_.
      bindI (liftI fsqrt_directed_vectors) (\<lambda>ls. bindI (appendI out_path (concat ls)) (\<lambda>_.
      bindI (liftI (fsqrt_random_vectors 1 500 (twister 42))) (\<lambda>(ls, _). bindI (appendI out_path (concat ls)) (\<lambda>_.
      bindI (liftI (fsqrt_random_vectors 0 500 (twister 137))) (\<lambda>(ls, _). bindI (appendI out_path (concat ls)) (\<lambda>_.
      printI [''Generated '' @ out_path]))))))))"


section \<open>Correctness\<close>

text \<open>Operands of a division vector: two normalised 53-bit significands.\<close>

definition fdiv_operands_ok :: "int \<times> int \<Rightarrow> bool" where
  "fdiv_operands_ok = (\<lambda>(a, b). 2 ^ 52 \<le> a \<and> a < 2 ^ 53 \<and> 2 ^ 52 \<le> b \<and> b < 2 ^ 53)"

definition fsqrt_operand_ok :: "int \<Rightarrow> bool" where
  "fsqrt_operand_ok a \<longleftrightarrow> 2 ^ 52 \<le> a \<and> a < 2 ^ 54"

lemma fdiv_operands_pre: "fdiv_operands_ok (a, b) \<Longrightarrow> srt_divide_pre a b"
  by (simp add: fdiv_operands_ok_def srt_divide_pre_def)

lemma srt_divide_returns:
  "fdiv_operands_ok x \<Longrightarrow> 1 \<le> n \<Longrightarrow>
     \<exists>q s. (case x of (a, b) \<Rightarrow> \<lambda>n. srt_divide a b n) n = Inr (q, s) \<and> 0 \<le> q \<and> q < 2 ^ nat n"
  using srt_divide_quotient_bounds [of "fst x" "snd x" n]
  by (cases x) (simp add: srt_divide_result [OF fdiv_operands_pre] fdiv_operands_ok_def)

interpretation fdiv: vector_reference "\<lambda>(a, b) n. srt_divide a b n" fdiv_operands_ok
  by unfold_locales (rule srt_divide_returns)

lemma srt_sqrt_returns:
  assumes "fsqrt_operand_ok a" and "1 \<le> n"
  shows "\<exists>Q s. srt_sqrt a n = Inr (Q, s) \<and> 0 \<le> Q \<and> Q < 2 ^ nat n"
proof -
  from assms(1) have a: "2 ^ 52 \<le> a" "a < 2 ^ 54" by (simp_all add: fsqrt_operand_ok_def)
  from srt_sqrt_eval [OF a assms(2)] obtain q r
    where eval: "srt_sqrt a n = Inr (q div 2 ^ 26, q mod 2 ^ 26 \<noteq> 0 \<or> r \<noteq> 0)"
      and qr: "a * 4 ^ nat (n - 1) = q * q + r" "0 \<le> q" "0 \<le> r" "r \<le> 2 * q" .
  note strip = root_strip_26 [OF qr]
  have "Suc (nat (n - 1)) = nat n" using assms(2) by simp
  with root_bounds [OF a strip(3,1,2)] eval strip(3) show ?thesis by simp
qed

interpretation fsqrt: vector_reference srt_sqrt fsqrt_operand_ok
  by unfold_locales (rule srt_sqrt_returns)

lemma low_bits_or: "0 \<le> r \<Longrightarrow> r < 2 ^ k \<Longrightarrow> push_bit k 1 OR r = 2 ^ k + (r::int)"
  using shift_or_small [of r k 1] by simp

lemma fdiv_directed_ok: "\<forall>(fmt_d, ab) \<in> set fdiv_directed_cases. fdiv_operands_ok ab"
  by (simp add: fdiv_directed_cases_def fdiv_operands_ok_def Let_def)

lemma fsqrt_directed_ok: "\<forall>(fmt_d, a) \<in> set fsqrt_directed_cases. fsqrt_operand_ok a"
  by (simp add: fsqrt_directed_cases_def fsqrt_operand_ok_def)

lemma fdiv_random_operands_ok: "wp fdiv_random_operands (\<lambda>ab _. fdiv_operands_ok ab) ws"
  unfolding fdiv_random_operands_def Let_def wp_simps
  by (intro wp_draws) (simp only: low_bits_or, simp add: wp_simps assertR_def fdiv_operands_ok_def)

lemma fsqrt_random_operand_ok: "wp fsqrt_random_operand (\<lambda>a _. fsqrt_operand_ok a) ws"
  unfolding fsqrt_random_operand_def wp_simps
  by (intro wp_draws, simp, split if_split)
    (intro conjI impI; simp only: wp_simps, intro wp_draws, simp only: low_bits_or,
      simp add: wp_simps assertR_def fsqrt_operand_ok_def)


text \<open>
  A correct division line: its fields, read back at their columns, are two normalised significands
  and the floor of their scaled quotient in the width of the format, with the sticky flag last.
\<close>

definition fdiv_line_correct :: "string \<Rightarrow> bool" where
  "fdiv_line_correct line \<longleftrightarrow>
     (let fmt_d = (if line ! 0 = CHR ''1'' then 1 else 0);
          a = int (hex_value (take 14 (drop 2 line)));
          b = int (hex_value (take 14 (drop 17 line)));
          q = int (hex_value (take 14 (drop 32 line)));
          x = a * 2 ^ nat (out_bits fmt_d - 1)
      in length line = 49 \<and> fdiv_operands_ok (a, b)
       \<and> q * b \<le> x \<and> x < (q + 1) * b \<and> q < 2 ^ nat (out_bits fmt_d)
       \<and> line ! 47 = (if q * b = x then CHR ''0'' else CHR ''1''))"

definition fsqrt_line_correct :: "string \<Rightarrow> bool" where
  "fsqrt_line_correct line \<longleftrightarrow>
     (let fmt_d = (if line ! 0 = CHR ''1'' then 1 else 0);
          a = int (hex_value (take 14 (drop 2 line)));
          q = int (hex_value (take 14 (drop 17 line)));
          x = a * 4 ^ nat (out_bits fmt_d - 1)
      in length line = 34 \<and> fsqrt_operand_ok a
       \<and> q * q * 2 ^ 52 \<le> x \<and> x < (q + 1) * (q + 1) * 2 ^ 52
       \<and> 2 ^ nat (out_bits fmt_d - 1) \<le> q \<and> q < 2 ^ nat (out_bits fmt_d)
       \<and> line ! 32 = (if q * q * 2 ^ 52 = x then CHR ''0'' else CHR ''1''))"

lemma fmt_bin_bit: "fmt_bin (Suc 0) 0 = ''0''" "fmt_bin (Suc 0) 1 = ''1''"
  by (simp_all add: fmt_bin_def zero_pad_def nat_digits.simps digit_char_def)

lemma fmt_hex_14: "0 \<le> v \<Longrightarrow> v < 2 ^ 56 \<Longrightarrow> length (fmt_hex 14 v) = 14"
  by (rule fmt_hex_length) simp_all

text \<open>The columns of a line with fields of 14 characters.\<close>

lemma columns_3:
  assumes "length xs = 14" and "length ys = 14" and "length zs = 14"
    and line: "line = [f] @ [sp] @ xs @ [sp] @ ys @ [sp] @ zs @ [sp] @ [t] @ [nl]"
  shows "line ! 0 = f" and "take 14 (drop 2 line) = xs" and "take 14 (drop 17 line) = ys"
    and "take 14 (drop 32 line) = zs" and "line ! 47 = t" and "length line = 49"
  using assms(1-3) unfolding line by (simp_all add: nth_append)

lemma columns_2:
  assumes "length xs = 14" and "length ys = 14"
    and line: "line = [f] @ [sp] @ xs @ [sp] @ ys @ [sp] @ [t] @ [nl]"
  shows "line ! 0 = f" and "take 14 (drop 2 line) = xs" and "take 14 (drop 17 line) = ys"
    and "line ! 32 = t" and "length line = 34"
  using assms(1,2) unfolding line by (simp_all add: nth_append)

lemma fdiv_emit_correct:
  assumes ok: "fdiv_operands_ok (a, b)" and fmt: "fmt_d = 0 \<or> fmt_d = 1"
  shows "\<exists>line. fdiv_emit fmt_d (a, b) = Inr line \<and> fdiv_line_correct line"
proof -
  from srt_divide_returns [OF ok out_bits_ge_1, of fmt_d] obtain q s
    where r: "srt_divide a b (out_bits fmt_d) = Inr (q, s)" "0 \<le> q" "q < 2 ^ nat (out_bits fmt_d)" by auto
  define x where "x = a * 2 ^ nat (out_bits fmt_d - 1)"
  from srt_divide_result [OF fdiv_operands_pre [OF ok], of "out_bits fmt_d"] r
  have q: "q = x div b" and s: "s \<longleftrightarrow> x mod b \<noteq> 0" by (simp_all add: x_def)
  from ok have b: "0 < b" by (simp add: fdiv_operands_ok_def)
  note fl = euclid_floor [OF b, of x, folded q s]
  have la: "length (fmt_hex 14 a) = 14" "length (fmt_hex 14 b) = 14" and ab: "0 \<le> a" "0 \<le> b"
    using ok by (auto simp: fdiv_operands_ok_def intro!: fmt_hex_14)
  have lq: "length (fmt_hex 14 q) = 14" using fdiv.result_digits [of "(a, b)"] ok r by simp
  have line: "fdiv_line fmt_d (a, b) q s =
      [if fmt_d = 0 then CHR ''0'' else CHR ''1''] @ [CHR '' ''] @ fmt_hex 14 a @ [CHR '' ''] @ fmt_hex 14 b
      @ [CHR '' ''] @ fmt_hex 14 q @ [CHR '' ''] @ [if s then CHR ''1'' else CHR ''0''] @ [CHR 0x0A]"
    using fmt by (auto simp: fdiv_line_def fmt_bin_bit)
  have "fdiv_line_correct (fdiv_line fmt_d (a, b) q s)"
    unfolding fdiv_line_correct_def Let_def line columns_3 [OF la lq refl]
      hex_value_fmt_hex [OF ab(1)] hex_value_fmt_hex [OF ab(2)] hex_value_fmt_hex [OF r(2)]
    using fmt ok r(3) fl by (auto simp: x_def)
  then show ?thesis by (simp add: fdiv_emit_def r)
qed

lemma fsqrt_emit_correct:
  assumes ok: "fsqrt_operand_ok a" and fmt: "fmt_d = 0 \<or> fmt_d = 1"
  shows "\<exists>line. fsqrt_emit fmt_d a = Inr line \<and> fsqrt_line_correct line"
proof -
  let ?n = "out_bits fmt_d"
  from ok have a: "2 ^ 52 \<le> a" "a < 2 ^ 54" by (simp_all add: fsqrt_operand_ok_def)
  from srt_sqrt_eval [OF a out_bits_ge_1, of fmt_d] obtain q0 r0
    where eval: "srt_sqrt a ?n = Inr (q0 div 2 ^ 26, q0 mod 2 ^ 26 \<noteq> 0 \<or> r0 \<noteq> 0)"
      and qr: "a * 4 ^ nat (?n - 1) = q0 * q0 + r0" "0 \<le> q0" "0 \<le> r0" "r0 \<le> 2 * q0" .
  define Q where "Q = q0 div 2 ^ 26"
  note strip = root_strip_26 [OF qr, folded Q_def]
  have "Suc (nat (?n - 1)) = nat ?n" by (simp add: out_bits_def)
  with root_bounds [OF a strip(3,1,2)] have Q: "2 ^ nat (?n - 1) \<le> Q" "Q < 2 ^ nat ?n" by simp_all
  have la: "length (fmt_hex 14 a) = 14" using a by (intro fmt_hex_14) simp_all
  have lq: "length (fmt_hex 14 Q) = 14" using fsqrt.result_digits [OF ok eval] by (simp add: Q_def)
  define s where "s \<longleftrightarrow> q0 mod 2 ^ 26 \<noteq> 0 \<or> r0 \<noteq> 0"
  have line: "fsqrt_line fmt_d a Q s =
      [if fmt_d = 0 then CHR ''0'' else CHR ''1''] @ [CHR '' ''] @ fmt_hex 14 a @ [CHR '' '']
      @ fmt_hex 14 Q @ [CHR '' ''] @ [if s then CHR ''1'' else CHR ''0''] @ [CHR 0x0A]"
    using fmt by (auto simp: fsqrt_line_def fmt_bin_bit)
  have a0: "0 \<le> a" using a by simp
  have "fsqrt_line_correct (fsqrt_line fmt_d a Q s)"
    unfolding fsqrt_line_correct_def Let_def line columns_2 [OF la lq refl]
      hex_value_fmt_hex [OF a0] hex_value_fmt_hex [OF strip(3)]
    using fmt ok strip(1,2,4) Q by (auto simp: s_def)
  then show ?thesis by (simp add: fsqrt_emit_def eval Q_def s_def)
qed

text \<open>A loop that emits one correct line per iteration writes that many correct lines.\<close>

lemma mapR_emit:
  assumes "\<And>c. c \<in> set cases \<Longrightarrow> \<exists>line. f c = Inr line \<and> good line"
  shows "\<exists>lines. mapR f cases = Inr lines \<and> length lines = length cases \<and> list_all good lines"
  using assms by (induction cases) fastforce+

lemma fdiv_random_vectors_correct:
  assumes fmt: "fmt_d = 0 \<or> fmt_d = 1"
  shows "wp (fdiv_random_vectors fmt_d k) (\<lambda>lines _. length lines = k \<and> list_all fdiv_line_correct lines) ws"
proof (induction k arbitrary: ws)
  case 0
  show ?case by (simp add: wp_simps)
next
  case (Suc k)
  show ?case unfolding fdiv_random_vectors.simps wp_simps
  proof (rule wp_mono [OF fdiv_random_operands_ok])
    fix ab ws' assume "fdiv_operands_ok ab"
    with fdiv_emit_correct [OF _ fmt] obtain line
      where "fdiv_emit fmt_d ab = Inr line" "fdiv_line_correct line" by (cases ab) blast
    then show "case fdiv_emit fmt_d ab of Inl e \<Rightarrow> False | Inr line \<Rightarrow>
        wp (fdiv_random_vectors fmt_d k)
          (\<lambda>rest. (\<lambda>lines _. length lines = Suc k \<and> list_all fdiv_line_correct lines) (line # rest)) ws'"
      by (auto intro: wp_mono [OF Suc.IH])
  qed
qed

lemma fsqrt_random_vectors_correct:
  assumes fmt: "fmt_d = 0 \<or> fmt_d = 1"
  shows "wp (fsqrt_random_vectors fmt_d k) (\<lambda>lines _. length lines = k \<and> list_all fsqrt_line_correct lines) ws"
proof (induction k arbitrary: ws)
  case 0
  show ?case by (simp add: wp_simps)
next
  case (Suc k)
  show ?case unfolding fsqrt_random_vectors.simps wp_simps
  proof (rule wp_mono [OF fsqrt_random_operand_ok])
    fix a ws' assume "fsqrt_operand_ok a"
    with fsqrt_emit_correct [OF _ fmt] obtain line
      where "fsqrt_emit fmt_d a = Inr line" "fsqrt_line_correct line" by blast
    then show "case fsqrt_emit fmt_d a of Inl e \<Rightarrow> False | Inr line \<Rightarrow>
        wp (fsqrt_random_vectors fmt_d k)
          (\<lambda>rest. (\<lambda>lines _. length lines = Suc k \<and> list_all fsqrt_line_correct lines) (line # rest)) ws'"
      by (auto intro: wp_mono [OF Suc.IH])
  qed
qed

lemma fdiv_directed_correct:
  "\<exists>lines. fdiv_directed_vectors = Inr lines \<and> length lines = 20 \<and> list_all fdiv_line_correct lines"
proof -
  have "\<exists>lines. fdiv_directed_vectors = Inr lines \<and> length lines = length fdiv_directed_cases
      \<and> list_all fdiv_line_correct lines"
    unfolding fdiv_directed_vectors_def
  proof (rule mapR_emit)
    fix c assume c: "c \<in> set fdiv_directed_cases"
    obtain fmt_d a b where eq: "c = (fmt_d, a, b)" by (cases c)
    from c fdiv_directed_ok have "fdiv_operands_ok (a, b)" unfolding eq by fastforce
    moreover from c have "fmt_d = 0 \<or> fmt_d = 1" unfolding eq fdiv_directed_cases_def Let_def by auto
    ultimately show "\<exists>line. (case c of (fmt_d, ab) \<Rightarrow> fdiv_emit fmt_d ab) = Inr line \<and> fdiv_line_correct line"
      unfolding eq split by (rule fdiv_emit_correct)
  qed
  moreover have "length fdiv_directed_cases = 20" by (simp add: fdiv_directed_cases_def Let_def)
  ultimately show ?thesis by simp
qed

lemma fsqrt_directed_correct:
  "\<exists>lines. fsqrt_directed_vectors = Inr lines \<and> length lines = 19 \<and> list_all fsqrt_line_correct lines"
proof -
  have "\<exists>lines. fsqrt_directed_vectors = Inr lines \<and> length lines = length fsqrt_directed_cases
      \<and> list_all fsqrt_line_correct lines"
    unfolding fsqrt_directed_vectors_def
  proof (rule mapR_emit)
    fix c assume c: "c \<in> set fsqrt_directed_cases"
    obtain fmt_d a where eq: "c = (fmt_d, a)" by (cases c)
    from c fsqrt_directed_ok have "fsqrt_operand_ok a" unfolding eq by fastforce
    moreover from c have "fmt_d = 0 \<or> fmt_d = 1" unfolding eq fsqrt_directed_cases_def by auto
    ultimately show "\<exists>line. (case c of (fmt_d, a) \<Rightarrow> fsqrt_emit fmt_d a) = Inr line \<and> fsqrt_line_correct line"
      unfolding eq split by (rule fsqrt_emit_correct)
  qed
  moreover have "length fsqrt_directed_cases = 19" by (simp add: fsqrt_directed_cases_def)
  ultimately show ?thesis by simp
qed

section \<open>Properties\<close>

text \<open>
  C3. Whatever the random generator produces, \<open>gen_fdiv_vectors\<close> never raises: it replaces its vector file by 1020 lines
  (20 directed, 500 double, 500 single), and each line, read back at its fixed columns, is a correct
  division vector: normalised operands, the floor of the scaled quotient in the format's width, and the
  sticky flag. In particular the clamping branch of \<open>random_vectors\<close> and its assertions never fail.
\<close>

theorem fdiv_main_correct:
  "\<exists>ls. fdiv_main here twister w = (Inr (), w\<lparr>w_files := (w_files w)(path_join here ''fdiv_vectors.hex'' \<mapsto> concat ls),
        w_out := w_out w @ unlines [''Generated '' @ path_join here ''fdiv_vectors.hex'']\<rparr>)
    \<and> length ls = 1020 \<and> list_all fdiv_line_correct ls"
proof -
  from fdiv_directed_correct obtain d
    where d: "fdiv_directed_vectors = Inr d" "length d = 20" "list_all fdiv_line_correct d" by blast
  obtain dbl ws where dbl: "fdiv_random_vectors 1 500 (twister 42) = Inr (dbl, ws)"
    "length dbl = 500" "list_all fdiv_line_correct dbl"
    by (rule wpD [OF fdiv_random_vectors_correct [of 1 500 "twister 42"]]) auto
  obtain sgl ws' where sgl: "fdiv_random_vectors 0 500 (twister 137) = Inr (sgl, ws')"
    "length sgl = 500" "list_all fdiv_line_correct sgl"
    by (rule wpD [OF fdiv_random_vectors_correct [of 0 500 "twister 137"]]) auto
  show ?thesis unfolding fdiv_main_def Let_def d(1) dbl(1) sgl(1)
    by (rule exI [of _ "d @ dbl @ sgl"]) (simp add: bindI_def writeI_def appendI_def liftI_def printI_def d dbl sgl)
qed

text \<open>
  C4. The same for the square-root vectors: \<open>gen_fsqrt_vectors\<close> never raises and writes 1019 correct
  lines (the directed list has 19 entries, one fewer than its docstring says).
\<close>

theorem fsqrt_main_correct:
  "\<exists>ls. fsqrt_main here twister w = (Inr (), w\<lparr>w_files := (w_files w)(path_join here ''fsqrt_vectors.hex'' \<mapsto> concat ls),
        w_out := w_out w @ unlines [''Generated '' @ path_join here ''fsqrt_vectors.hex'']\<rparr>)
    \<and> length ls = 1019 \<and> list_all fsqrt_line_correct ls"
proof -
  from fsqrt_directed_correct obtain d
    where d: "fsqrt_directed_vectors = Inr d" "length d = 19" "list_all fsqrt_line_correct d" by blast
  obtain dbl ws where dbl: "fsqrt_random_vectors 1 500 (twister 42) = Inr (dbl, ws)"
    "length dbl = 500" "list_all fsqrt_line_correct dbl"
    by (rule wpD [OF fsqrt_random_vectors_correct [of 1 500 "twister 42"]]) auto
  obtain sgl ws' where sgl: "fsqrt_random_vectors 0 500 (twister 137) = Inr (sgl, ws')"
    "length sgl = 500" "list_all fsqrt_line_correct sgl"
    by (rule wpD [OF fsqrt_random_vectors_correct [of 0 500 "twister 137"]]) auto
  show ?thesis unfolding fsqrt_main_def Let_def d(1) dbl(1) sgl(1)
    by (rule exI [of _ "d @ dbl @ sgl"]) (simp add: bindI_def writeI_def appendI_def liftI_def printI_def d dbl sgl)
qed

end
