(* ===== verification/Py_Regex.thy ===== *)
theory Py_Regex
  imports Py_Text
begin

text \<open>
  Python's \<open>re\<close> module for the pattern operators the tools use. A pattern is a term of \<open>rx\<close>; matching
  returns every way to match, in the order a backtracking matcher tries them, so the first one is the
  match Python reports. A state is the text to the left (reversed), the text to the right and the
  groups set so far. Quantifiers are greedy.
\<close>

section \<open>Patterns and their matches\<close>

datatype rx =
    Empty
  | Cls "char \<Rightarrow> bool"
  | Seq rx rx
  | Alt rx rx
  | Star rx
  | Grp nat rx
  | Bol
  | BolM
  | Eol
  | WordB
  | NotAhead rx

type_synonym mstate = "string \<times> string \<times> (nat \<times> string) list"

text \<open>Greedy repetition: longer matches first; an iteration must consume something.\<close>

primrec repeat_run :: "(mstate \<Rightarrow> mstate list) \<Rightarrow> nat \<Rightarrow> mstate \<Rightarrow> mstate list" where
  "repeat_run f 0 st = [st]"
| "repeat_run f (Suc k) st =
     concat (map (\<lambda>st'. if length (fst (snd st')) < length (fst (snd st)) then repeat_run f k st' else []) (f st)) @ [st]"

definition is_word_at :: "string \<Rightarrow> bool" where
  "is_word_at s \<longleftrightarrow> s \<noteq> [] \<and> is_word_char (hd s)"

primrec run :: "rx \<Rightarrow> mstate \<Rightarrow> mstate list" where
  "run Empty st = [st]"
| "run (Cls p) st = (case st of (b, a, g) \<Rightarrow> (case a of [] \<Rightarrow> [] | c # cs \<Rightarrow> if p c then [(c # b, cs, g)] else []))"
| "run (Seq r1 r2) st = concat (map (run r2) (run r1 st))"
| "run (Alt r1 r2) st = run r1 st @ run r2 st"
| "run (Star r) st = repeat_run (run r) (length (fst (snd st))) st"
| "run (Grp n r) st =
     map (\<lambda>(b', a', g'). (b', a', (n, take (length (fst (snd st)) - length a') (fst (snd st))) # g')) (run r st)"
| "run Bol st = (if fst st = [] then [st] else [])"
| "run BolM st = (if fst st = [] \<or> hd (fst st) = CHR 0x0A then [st] else [])"
| "run Eol st = (if fst (snd st) = [] \<or> fst (snd st) = [CHR 0x0A] then [st] else [])"
| "run WordB st = (if is_word_at (fst st) \<noteq> is_word_at (fst (snd st)) then [st] else [])"
| "run (NotAhead r) st = (if run r st = [] then [st] else [])"

text \<open>Derived operators: a literal, \<open>r+\<close>, \<open>r?\<close>, \<open>r{n}\<close>, \<open>r{0,n}\<close>.\<close>

definition chr :: "char \<Rightarrow> rx" where
  "chr c = Cls (\<lambda>x. x = c)"

primrec lit :: "string \<Rightarrow> rx" where
  "lit [] = Empty"
| "lit (c # cs) = Seq (chr c) (lit cs)"

definition plus_rx :: "rx \<Rightarrow> rx" where
  "plus_rx r = Seq r (Star r)"

definition opt :: "rx \<Rightarrow> rx" where
  "opt r = Alt r Empty"

primrec rep :: "nat \<Rightarrow> rx \<Rightarrow> rx" where
  "rep 0 r = Empty"
| "rep (Suc n) r = Seq r (rep n r)"

primrec upto_rx :: "nat \<Rightarrow> rx \<Rightarrow> rx" where
  "upto_rx 0 r = Empty"
| "upto_rx (Suc n) r = Alt (Seq r (upto_rx n r)) Empty"

primrec seqs :: "rx list \<Rightarrow> rx" where
  "seqs [] = Empty"
| "seqs (r # rs) = Seq r (seqs rs)"

primrec alts :: "rx list \<Rightarrow> rx" where
  "alts [] = Cls (\<lambda>_. False)"
| "alts (r # rs) = Alt r (alts rs)"

definition spaces :: rx where "spaces = Star (Cls is_space)"
definition spaces1 :: rx where "spaces1 = plus_rx (Cls is_space)"
definition digits :: rx where "digits = plus_rx (Cls is_digit)"
definition hexes :: rx where "hexes = plus_rx (Cls is_hex)"

section \<open>Matching, searching, replacing\<close>

record rmatch =
  m_text :: string
  m_groups :: "(nat \<times> string) list"
  m_rest :: string

definition group :: "rmatch \<Rightarrow> nat \<Rightarrow> string" where
  "group m n = (case map_of (m_groups m) n of Some s \<Rightarrow> s | None \<Rightarrow> [])"

definition match_at :: "rx \<Rightarrow> string \<Rightarrow> string \<Rightarrow> rmatch option" where
  "match_at r b a = (case run r (b, a, []) of
      [] \<Rightarrow> None
    | (b', a', g) # _ \<Rightarrow> Some \<lparr>m_text = take (length a - length a') a, m_groups = g, m_rest = a'\<rparr>)"

definition re_match :: "rx \<Rightarrow> string \<Rightarrow> rmatch option" where
  "re_match r s = match_at r [] s"

fun search_from :: "rx \<Rightarrow> string \<Rightarrow> string \<Rightarrow> rmatch option" where
  "search_from r b a = (case match_at r b a of
      Some m \<Rightarrow> Some m
    | None \<Rightarrow> (case a of [] \<Rightarrow> None | c # cs \<Rightarrow> search_from r (c # b) cs))"

declare search_from.simps [simp del]

definition re_search :: "rx \<Rightarrow> string \<Rightarrow> rmatch option" where
  "re_search r s = search_from r [] s"

text \<open>
  \<open>finditer\<close> and \<open>sub\<close>: a scan that counts the characters of the last match still to be skipped. The
  patterns of the tools never match the empty string in these two calls.
\<close>

fun all_from :: "rx \<Rightarrow> nat \<Rightarrow> string \<Rightarrow> string \<Rightarrow> rmatch list" where
  "all_from r skip b [] = []"
| "all_from r (Suc skip) b (c # cs) = all_from r skip (c # b) cs"
| "all_from r 0 b (c # cs) = (case match_at r b (c # cs) of
      Some m \<Rightarrow> m # all_from r (length (m_text m) - 1) (c # b) cs
    | None \<Rightarrow> all_from r 0 (c # b) cs)"

definition re_finditer :: "rx \<Rightarrow> string \<Rightarrow> rmatch list" where
  "re_finditer r s = all_from r 0 [] s"

fun sub_from :: "rx \<Rightarrow> (rmatch \<Rightarrow> string) \<Rightarrow> nat \<Rightarrow> string \<Rightarrow> string \<Rightarrow> string" where
  "sub_from r f skip b [] = []"
| "sub_from r f (Suc skip) b (c # cs) = sub_from r f skip (c # b) cs"
| "sub_from r f 0 b (c # cs) = (case match_at r b (c # cs) of
      Some m \<Rightarrow> if m_text m = [] then f m @ c # sub_from r f 0 (c # b) cs
                else f m @ sub_from r f (length (m_text m) - 1) (c # b) cs
    | None \<Rightarrow> c # sub_from r f 0 (c # b) cs)"

definition re_sub :: "rx \<Rightarrow> (rmatch \<Rightarrow> string) \<Rightarrow> string \<Rightarrow> string" where
  "re_sub r f s = sub_from r f 0 [] s"

text \<open>\<open>subn(..., count=1)\<close>: the text and whether a replacement was made.\<close>

fun sub1_from :: "rx \<Rightarrow> (rmatch \<Rightarrow> string) \<Rightarrow> string \<Rightarrow> string \<Rightarrow> string option" where
  "sub1_from r f b a = (case match_at r b a of
      Some m \<Rightarrow> Some (f m @ m_rest m)
    | None \<Rightarrow> (case a of [] \<Rightarrow> None | c # cs \<Rightarrow> map_option (\<lambda>t. c # t) (sub1_from r f (c # b) cs)))"

declare sub1_from.simps [simp del]

definition re_subn1 :: "rx \<Rightarrow> (rmatch \<Rightarrow> string) \<Rightarrow> string \<Rightarrow> string option" where
  "re_subn1 r f s = sub1_from r f [] s"

section \<open>The first match\<close>

definition first :: "rx \<Rightarrow> mstate \<Rightarrow> mstate option" where
  "first r st = (case run r st of [] \<Rightarrow> None | x # _ \<Rightarrow> Some x)"

named_theorems first_rules "when a pattern's first match is a given state"

lemma first_None: "first r st = None \<longleftrightarrow> run r st = []"
  by (simp add: first_def split: list.split)

lemma first_Empty [first_rules]: "first Empty st = Some st"
  by (simp add: first_def)

lemma first_Cls [first_rules]: "p c \<Longrightarrow> first (Cls p) (b, c # a, g) = Some (c # b, a, g)"
  by (simp add: first_def)

lemma first_chr [first_rules]: "first (chr c) (b, c # a, g) = Some (c # b, a, g)"
  by (simp add: first_def chr_def)

lemma first_Seq [first_rules]:
  "first r1 st = Some st1 \<Longrightarrow> first r2 st1 = Some st2 \<Longrightarrow> first (Seq r1 r2) st = Some st2"
  by (auto simp: first_def split: list.splits)

lemma first_Seq_None: "first r1 st = None \<Longrightarrow> first (Seq r1 r2) st = None"
  by (simp add: first_def split: list.splits)

lemma first_Alt1: "first r1 st = Some st1 \<Longrightarrow> first (Alt r1 r2) st = Some st1"
  by (auto simp: first_def split: list.splits)

lemma first_Alt2: "first r1 st = None \<Longrightarrow> first (Alt r1 r2) st = first r2 st"
  by (simp add: first_def split: list.splits)

lemma first_Grp [first_rules]:
  "first r (b, w @ a, g) = Some (b', a, g') \<Longrightarrow> first (Grp n r) (b, w @ a, g) = Some (b', a, (n, w) # g')"
  by (auto simp: first_def split: list.splits)

lemma first_lit [first_rules]: "first (lit s) (b, s @ a, g) = Some (rev s @ b, a, g)"
proof (induction s arbitrary: b)
  case (Cons c s)
  then show ?case by (auto intro: first_Seq [OF first_chr])
qed (simp add: first_Empty)

lemma first_Bol [first_rules]: "first Bol ([], a, g) = Some ([], a, g)"
  by (simp add: first_def)

lemma first_Eol [first_rules]: "first Eol (b, [], g) = Some (b, [], g)"
  by (simp add: first_def)

lemma first_seqs: "first (seqs []) st = Some st"
  "first r st = Some st1 \<Longrightarrow> first (seqs rs) st1 = Some st2 \<Longrightarrow> first (seqs (r # rs)) st = Some st2"
  by (simp_all add: first_Empty first_Seq)

text \<open>A repeated class takes the whole run of its characters.\<close>

lemma repeat_run_hd: "\<exists>rs. repeat_run f k st = rs @ [st]"
  by (cases k) auto

lemma first_repeat:
  assumes "list_all p ds" and "a = [] \<or> \<not> p (hd a)" and "length ds \<le> k"
  shows "\<exists>rs. repeat_run (run (Cls p)) k (b, ds @ a, g) = (rev ds @ b, a, g) # rs"
  using assms
proof (induction ds arbitrary: b k)
  case Nil
  then show ?case by (cases k; cases a) auto
next
  case (Cons d ds)
  then obtain k' where k: "k = Suc k'" by (cases k) auto
  with Cons.prems Cons.IH [of k' "d # b"] show ?case by auto
qed

lemma first_Star_Cls [first_rules]:
  assumes "list_all p ds" and "a = [] \<or> \<not> p (hd a)"
  shows "first (Star (Cls p)) (b, ds @ a, g) = Some (rev ds @ b, a, g)"
  using first_repeat [OF assms, of "length (ds @ a)" b g] by (auto simp: first_def)

lemma first_plus_Cls [first_rules]:
  assumes "list_all p ds" and "ds \<noteq> []" and "a = [] \<or> \<not> p (hd a)"
  shows "first (plus_rx (Cls p)) (b, ds @ a, g) = Some (rev ds @ b, a, g)"
proof (cases ds)
  case (Cons d ds')
  with assms first_Star_Cls [of p ds' a "d # b" g] show ?thesis
    by (auto simp: plus_rx_def intro!: first_Seq [OF first_Cls])
qed (use assms in simp)

lemma first_rep_Cls [first_rules]:
  assumes "list_all p ds" and "length ds = n"
  shows "first (rep n (Cls p)) (b, ds @ a, g) = Some (rev ds @ b, a, g)"
  using assms
proof (induction ds arbitrary: n b)
  case Nil
  then show ?case by (simp add: first_Empty)
next
  case (Cons d ds)
  then show ?case by (cases n) (auto intro!: first_Seq [OF first_Cls])
qed

lemma first_upto_Cls:
  assumes "list_all p ds" and "length ds = n"
  shows "first (upto_rx n (Cls p)) (b, ds @ a, g) = Some (rev ds @ b, a, g)"
  using assms
proof (induction ds arbitrary: n b)
  case Nil
  then show ?case by (simp add: first_Empty)
next
  case (Cons d ds)
  then obtain k where "n = Suc k" by (cases n) auto
  with Cons show ?case by (auto intro!: first_Alt1 first_Seq [OF first_Cls])
qed

lemma first_WordB: "is_word_at b \<noteq> is_word_at a \<Longrightarrow> first WordB (b, a, g) = Some (b, a, g)"
  by (simp add: first_def)

text \<open>A literal or class that does not match here.\<close>

lemma first_chr_None: "a = [] \<or> hd a \<noteq> c \<Longrightarrow> first (chr c) (b, a, g) = None"
  by (cases a) (auto simp: first_def chr_def)

lemma first_lit_None: "a = [] \<or> hd a \<noteq> c \<Longrightarrow> first (lit (c # cs)) (b, a, g) = None"
  by (simp add: first_Seq_None first_chr_None)

lemma match_at_first:
  "match_at r b a = (case first r (b, a, []) of None \<Rightarrow> None
     | Some (b', a', g) \<Rightarrow> Some \<lparr>m_text = take (length a - length a') a, m_groups = g, m_rest = a'\<rparr>)"
  by (simp add: match_at_def first_def split: list.split prod.split)

lemma first_run: "first r st = Some st' \<Longrightarrow> run r st \<noteq> []"
  by (auto simp: first_def)

lemma match_at_word:
  assumes "first r (b, w @ a, []) = Some (b', a, g)"
  shows "match_at r b (w @ a) = Some \<lparr>m_text = w, m_groups = g, m_rest = a\<rparr>"
  using assms by (simp add: match_at_first)

lemma match_at_run: "match_at r b a = Some m \<Longrightarrow> \<exists>b'. (b', m_rest m, m_groups m) \<in> set (run r (b, a, []))"
  by (cases "run r (b, a, [])") (auto simp: match_at_def)

section \<open>The words of a pattern\<close>

text \<open>
  The language of a pattern with its anchors and lookaheads ignored. Whatever a match consumes is a word
  of the pattern, so a text that has no such word at some position has no match there.
\<close>

inductive rx_word :: "rx \<Rightarrow> string \<Rightarrow> bool" where
  word_Empty: "rx_word Empty []"
| word_Cls: "p c \<Longrightarrow> rx_word (Cls p) [c]"
| word_Seq: "rx_word r1 u \<Longrightarrow> rx_word r2 v \<Longrightarrow> rx_word (Seq r1 r2) (u @ v)"
| word_Alt1: "rx_word r1 u \<Longrightarrow> rx_word (Alt r1 r2) u"
| word_Alt2: "rx_word r2 u \<Longrightarrow> rx_word (Alt r1 r2) u"
| word_Star0: "rx_word (Star r) []"
| word_Star: "rx_word r u \<Longrightarrow> rx_word (Star r) v \<Longrightarrow> rx_word (Star r) (u @ v)"
| word_Grp: "rx_word r u \<Longrightarrow> rx_word (Grp n r) u"
| word_Bol: "rx_word Bol []"
| word_BolM: "rx_word BolM []"
| word_Eol: "rx_word Eol []"
| word_WordB: "rx_word WordB []"
| word_NotAhead: "rx_word (NotAhead r) []"

inductive_simps rx_word_simps [simp]:
  "rx_word Empty w" "rx_word (Cls p) w" "rx_word (Seq r1 r2) w" "rx_word (Alt r1 r2) w"
  "rx_word (Grp n r) w" "rx_word Bol w" "rx_word BolM w" "rx_word Eol w" "rx_word WordB w"
  "rx_word (NotAhead r) w"

inductive_cases rx_word_StarE: "rx_word (Star r) w"

lemma repeat_run_word:
  assumes "\<And>b a g b' a' g'. (b', a', g') \<in> set (f (b, a, g)) \<Longrightarrow> \<exists>w. a = w @ a' \<and> b' = rev w @ b \<and> rx_word r w"
  shows "(b', a', g') \<in> set (repeat_run f k (b, a, g)) \<Longrightarrow> \<exists>w. a = w @ a' \<and> b' = rev w @ b \<and> rx_word (Star r) w"
proof (induction k arbitrary: b a g)
  case 0
  then show ?case by (auto intro: word_Star0)
next
  case (Suc k)
  from Suc.prems consider "(b', a', g') = (b, a, g)"
    | b1 a1 g1 where "(b1, a1, g1) \<in> set (f (b, a, g))" "(b', a', g') \<in> set (repeat_run f k (b1, a1, g1))"
    by (auto split: if_splits)
  then show ?case
  proof cases
    case 1
    then show ?thesis by (auto intro: word_Star0)
  next
    case 2
    from assms [OF 2(1)] obtain u where u: "a = u @ a1" "b1 = rev u @ b" "rx_word r u" by blast
    from Suc.IH [OF 2(2)] obtain v where v: "a1 = v @ a'" "b' = rev v @ b1" "rx_word (Star r) v" by blast
    from word_Star [OF u(3) v(3)] u v show ?thesis by (intro exI [of _ "u @ v"]) simp
  qed
qed

lemma run_word:
  "(b', a', g') \<in> set (run r (b, a, g)) \<Longrightarrow> \<exists>w. a = w @ a' \<and> b' = rev w @ b \<and> rx_word r w"
proof (induction r arbitrary: b a g b' a' g')
  case (Cls p)
  then show ?case by (cases a) (auto split: if_splits)
next
  case (Seq r1 r2)
  from Seq.prems obtain b1 a1 g1 where st: "(b1, a1, g1) \<in> set (run r1 (b, a, g))" "(b', a', g') \<in> set (run r2 (b1, a1, g1))"
    by auto
  from Seq.IH(1) [OF st(1)] obtain u where u: "a = u @ a1" "b1 = rev u @ b" "rx_word r1 u" by blast
  from Seq.IH(2) [OF st(2)] obtain v where v: "a1 = v @ a'" "b' = rev v @ b1" "rx_word r2 v" by blast
  from u v show ?case by (intro exI [of _ "u @ v"]) auto
next
  case (Alt r1 r2)
  then show ?case by (auto, blast+)
next
  case (Star r)
  from Star.prems have "(b', a', g') \<in> set (repeat_run (run r) (length a) (b, a, g))" by simp
  moreover have "\<exists>w. a1 = w @ a2 \<and> b2 = rev w @ b1 \<and> rx_word r w"
    if "(b2, a2, g2) \<in> set (run r (b1, a1, g1))" for b1 a1 g1 b2 a2 g2
    using Star.IH [OF that] .
  ultimately show ?case using repeat_run_word [of "run r" r b' a' g' "length a" b a g] by simp
next
  case (Grp n r)
  from Grp.prems obtain g1 where "(b', a', g1) \<in> set (run r (b, a, g))" by auto
  from Grp.IH [OF this] show ?case by simp
qed (auto split: if_splits)

lemma rx_word_lit [simp]: "rx_word (lit s) w \<longleftrightarrow> w = s"
  by (induction s arbitrary: w) (auto simp: chr_def)

lemma rx_word_chr [simp]: "rx_word (chr c) w \<longleftrightarrow> w = [c]"
  by (auto simp: chr_def)

lemma rx_word_Star_Cls [simp]: "rx_word (Star (Cls p)) w \<longleftrightarrow> list_all p w"
proof
  show "rx_word (Star (Cls p)) w \<Longrightarrow> list_all p w"
    by (induction "Star (Cls p)" w rule: rx_word.induct) auto
next
  show "list_all p w \<Longrightarrow> rx_word (Star (Cls p)) w"
  proof (induction w)
    case (Cons c w)
    then show ?case using word_Star [OF word_Cls [of p c], of w] by simp
  qed (simp add: word_Star0)
qed

lemma rx_word_plus_Cls [simp]: "rx_word (plus_rx (Cls p)) w \<longleftrightarrow> w \<noteq> [] \<and> list_all p w"
proof (cases w)
  case (Cons c u)
  then show ?thesis by (auto simp: plus_rx_def Cons_eq_append_conv intro: exI [of _ "[c]"])
qed (simp add: plus_rx_def)

lemma rx_word_seqs [simp]:
  "rx_word (seqs []) w \<longleftrightarrow> w = []"
  "rx_word (seqs (r # rs)) w \<longleftrightarrow> (\<exists>u v. w = u @ v \<and> rx_word r u \<and> rx_word (seqs rs) v)"
  by auto

lemma rx_word_alts [simp]:
  "\<not> rx_word (alts []) w"
  "rx_word (alts (r # rs)) w \<longleftrightarrow> rx_word r w \<or> rx_word (alts rs) w"
  by auto

text \<open>No word of \<open>r\<close> begins inside \<open>u\<close> when \<open>v\<close> follows.\<close>

definition quiet :: "rx \<Rightarrow> string \<Rightarrow> string \<Rightarrow> bool" where
  "quiet r u v \<longleftrightarrow> (\<forall>u1 c u2 w z. u = u1 @ c # u2 \<longrightarrow> c # u2 @ v = w @ z \<longrightarrow> \<not> rx_word r w)"

lemma quiet_Cons: "quiet r (c # u) v \<longleftrightarrow> (\<forall>w z. c # u @ v = w @ z \<longrightarrow> \<not> rx_word r w) \<and> quiet r u v"
  unfolding quiet_def by (simp add: Cons_eq_append_conv [of c u]) blast

lemma quiet_Nil [simp]: "quiet r [] v"
  by (simp add: quiet_def)

lemma quiet_append: "quiet r (u1 @ u2) v \<longleftrightarrow> quiet r u1 (u2 @ v) \<and> quiet r u2 v"
  by (induction u1) (auto simp: quiet_Cons)

lemma quiet_hd:
  assumes "\<And>w. rx_word r w \<Longrightarrow> w \<noteq> [] \<and> P (hd w)" and "list_all (\<lambda>c. \<not> P c) u"
  shows "quiet r u v"
  using assms(2)
proof (induction u)
  case (Cons c u)
  have "\<not> rx_word r w" if "c # u @ v = w @ z" for w z
  proof
    assume "rx_word r w"
    from assms(1) [OF this] that Cons.prems show False by (cases w) auto
  qed
  with Cons show ?case by (simp add: quiet_Cons)
qed simp

lemma no_word_no_match:
  assumes "\<And>w z. a = w @ z \<Longrightarrow> \<not> rx_word r w"
  shows "match_at r b a = None"
proof -
  have "run r (b, a, []) = []"
  proof (rule ccontr)
    assume "run r (b, a, []) \<noteq> []"
    then obtain b' a' g' where "(b', a', g') \<in> set (run r (b, a, []))" by (cases "run r (b, a, [])") auto
    from run_word [OF this] assms show False by blast
  qed
  then show ?thesis by (simp add: match_at_def)
qed

section \<open>Searching and replacing in parts of a text\<close>

lemma sub_quiet: "quiet r u v \<Longrightarrow> sub_from r f 0 b (u @ v) = u @ sub_from r f 0 (rev u @ b) v"
  by (induction u arbitrary: b) (auto simp: quiet_Cons no_word_no_match)

lemma sub_skip: "sub_from r f (length u) b (u @ v) = sub_from r f 0 (rev u @ b) v"
  by (induction u arbitrary: b) auto

lemma sub_match:
  assumes "first r (b, w @ v, []) = Some (b', v, g)" and "w \<noteq> []"
  shows "sub_from r f 0 b (w @ v) = f \<lparr>m_text = w, m_groups = g, m_rest = v\<rparr> @ sub_from r f 0 (rev w @ b) v"
proof -
  from assms(2) obtain c u where w: "w = c # u" by (cases w) auto
  from assms(1) have "match_at r b (c # u @ v) = Some \<lparr>m_text = w, m_groups = g, m_rest = v\<rparr>"
    by (simp add: match_at_first w)
  then show ?thesis using sub_skip [of r f u "c # b" v] by (simp add: w)
qed

lemma search_quiet:
  assumes "quiet r u []" and "\<not> rx_word r []"
  shows "search_from r b u = None"
  using assms(1)
proof (induction u arbitrary: b)
  case Nil
  have "match_at r b [] = None" using assms(2) by (intro no_word_no_match) auto
  then show ?case by (simp add: search_from.simps)
next
  case (Cons c u)
  from Cons.prems have "\<forall>w z. c # u = w @ z \<longrightarrow> \<not> rx_word r w" by (simp add: quiet_Cons)
  then have "match_at r b (c # u) = None" by (intro no_word_no_match) blast
  with Cons show ?case by (simp add: search_from.simps [of r b "c # u"] quiet_Cons)
qed

lemma search_found:
  "first r (rev u @ b, v, []) \<noteq> None \<Longrightarrow> search_from r b (u @ v) \<noteq> None"
proof (induction u arbitrary: b)
  case Nil
  then have "match_at r b v \<noteq> None" by (auto simp: match_at_first split: prod.split)
  then show ?case by (auto simp: search_from.simps)
next
  case (Cons c u)
  then show ?case by (auto simp: search_from.simps [of r b "c # u @ v"] split: option.split)
qed

text \<open>Collapsing the white space of a text and stripping it: its words, joined by single blanks.\<close>

lemma spaces1_quiet: "no_space w \<Longrightarrow> quiet spaces1 w v"
  by (rule quiet_hd [where P = is_space])
     (auto simp: spaces1_def no_space_def list_all_iff neq_Nil_conv)

lemma sub_spaces1:
  assumes "list_all is_space u" and "u \<noteq> []" and "v = [] \<or> \<not> is_space (hd v)"
  shows "sub_from spaces1 (\<lambda>_. '' '') 0 b (u @ v) = CHR '' '' # sub_from spaces1 (\<lambda>_. '' '') 0 (rev u @ b) v"
  using sub_match [of spaces1 b u v "rev u @ b" "[]" "\<lambda>_. '' ''"] assms first_plus_Cls [of is_space u v b "[]"]
  by (simp add: spaces1_def)

lemma rstrip_sub_spaces1:
  "s = [] \<or> \<not> is_space (hd s) \<Longrightarrow> rstrip (sub_from spaces1 (\<lambda>_. '' '') 0 b s) = join '' '' (split_ws s)"
proof (induction "length s" arbitrary: s b rule: less_induct)
  case less
  let ?sub = "\<lambda>b. sub_from spaces1 (\<lambda>_. '' '') 0 b"
  obtain w t where s: "s = w @ t" and w: "no_space w" and t: "t = [] \<or> is_space (hd t)"
    using word_split [of s] by blast
  obtain u v where u: "t = u @ v" "list_all is_space u" and v: "v = [] \<or> \<not> is_space (hd v)"
    using space_split [of t] by blast
  have sub: "?sub b s = w @ ?sub (rev w @ b) t" using sub_quiet [OF spaces1_quiet [OF w]] s by simp
  show ?case
  proof (cases "t = []")
    case True
    then show ?thesis using sub w s rstrip_word [OF w, of "[]"] split_ws_word [OF w, of "[]"] by (cases "w = []") auto
  next
    case False
    with t u v have "u \<noteq> []" by (cases u) auto
    have "w \<noteq> []" using less.prems s t False by auto
    have ws: "split_ws s = w # split_ws v"
      using split_ws_word [OF w \<open>w \<noteq> []\<close> t] s u split_ws_spaces [of u v] by simp
    have sub: "?sub b s = w @ CHR '' '' # ?sub (rev u @ rev w @ b) v"
      using sub sub_spaces1 [OF u(2) \<open>u \<noteq> []\<close> v] u by simp
    have "length v < length s" using s u \<open>u \<noteq> []\<close> by simp
    note IH = less.hyps [OF this v, of "rev u @ rev w @ b"]
    show ?thesis
    proof (cases "split_ws v = []")
      case True
      have "v = []"
      proof (rule ccontr)
        assume "v \<noteq> []"
        obtain w' t' where "v = w' @ t'" "no_space w'" "t' = [] \<or> is_space (hd t')" using word_split [of v] by blast
        moreover from this v \<open>v \<noteq> []\<close> have "w' \<noteq> []" by auto
        ultimately show False using True split_ws_word [of w' t'] by simp
      qed
      then show ?thesis using sub ws rstrip_word [OF w, of "'' ''"] by simp
    next
      case False
      then have "join '' '' (split_ws v) \<noteq> []" using split_ws_words by (intro join_nonempty) (auto simp: list_all_iff)
      with IH have "rstrip (?sub (rev u @ rev w @ b) v) \<noteq> []" by simp
      from rstrip_append [OF this, of "w @ '' ''"] sub ws False show ?thesis by (simp add: IH join_Cons)
    qed
  qed
qed

lemma collapse_spaces: "strip (re_sub spaces1 (\<lambda>_. '' '') s) = join '' '' (split_ws s)"
proof -
  let ?sub = "\<lambda>b. sub_from spaces1 (\<lambda>_. '' '') 0 b"
  obtain u v where u: "s = u @ v" "list_all is_space u" and v: "v = [] \<or> \<not> is_space (hd v)"
    using space_split [of s] by blast
  have keep: "lstrip (?sub b v) = ?sub b v" for b
  proof (cases v)
    case (Cons c cs)
    with v have "quiet spaces1 [c] cs" by (intro spaces1_quiet) simp
    from sub_quiet [OF this] v Cons show ?thesis by (simp add: lstrip_def)
  qed (simp add: lstrip_def)
  have "lstrip (re_sub spaces1 (\<lambda>_. '' '') s) = ?sub (rev u) v"
    using keep [of "rev u"] sub_spaces1 [OF u(2) _ v, of "[]"] u(1)
    by (cases "u = []") (auto simp: re_sub_def lstrip_def)
  then show ?thesis using rstrip_sub_spaces1 [OF v] split_ws_spaces [OF u(2)] u(1) by (simp add: strip_def)
qed

text \<open>\<open>subn(..., count=1)\<close> in general: nothing matches anywhere, or the leftmost match is replaced.\<close>

lemma sub1_None: "sub1_from r f b a = None \<longleftrightarrow> (\<forall>u a'. a = u @ a' \<longrightarrow> match_at r (rev u @ b) a' = None)"
proof (induction a arbitrary: b)
  case Nil
  show ?case by (subst sub1_from.simps) (simp split: option.split)
next
  case (Cons c a)
  have "(\<forall>u a'. c # a = u @ a' \<longrightarrow> match_at r (rev u @ b) a' = None) \<longleftrightarrow>
      match_at r b (c # a) = None \<and> (\<forall>u a'. a = u @ a' \<longrightarrow> match_at r (rev u @ c # b) a' = None)"
    (is "?L \<longleftrightarrow> ?R")
  proof
    assume L: ?L
    show ?R using L [rule_format, of "[]" "c # a"] L [rule_format, of "c # u" a' for u a'] by auto
  qed (auto simp: Cons_eq_append_conv)
  then show ?case by (subst sub1_from.simps) (simp add: Cons.IH split: option.split)
qed

lemma sub1_Some:
  "sub1_from r f b a = Some t \<Longrightarrow>
     \<exists>u a' m. a = u @ a' \<and> match_at r (rev u @ b) a' = Some m \<and> t = u @ f m @ m_rest m
       \<and> (\<forall>u' a''. a = u' @ a'' \<longrightarrow> match_at r (rev u' @ b) a'' \<noteq> None \<longrightarrow> length u \<le> length u')"
proof (induction a arbitrary: b t)
  case Nil
  then show ?case by (subst (asm) sub1_from.simps) (auto split: option.splits)
next
  case (Cons c a)
  show ?case
  proof (cases "match_at r b (c # a)")
    case None
    with Cons.prems obtain t' where t: "sub1_from r f (c # b) a = Some t'" "t = c # t'"
      by (subst (asm) sub1_from.simps) auto
    from Cons.IH [OF t(1)] obtain u a' m where s: "a = u @ a'" "match_at r (rev u @ c # b) a' = Some m" "t' = u @ f m @ m_rest m"
      and least: "\<forall>u' a''. a = u' @ a'' \<longrightarrow> match_at r (rev u' @ c # b) a'' \<noteq> None \<longrightarrow> length u \<le> length u'" by blast
    show ?thesis
      by (rule exI [of _ "c # u"], rule exI [of _ a'], rule exI [of _ m])
         (use s t(2) least None in \<open>auto simp: Cons_eq_append_conv\<close>)
  next
    case (Some m)
    with Cons.prems have "t = f m @ m_rest m" by (subst (asm) sub1_from.simps) simp
    with Some show ?thesis by (intro exI [of _ "[]"] exI [of _ "c # a"] exI [of _ m]) simp
  qed
qed

section \<open>Groups\<close>

primrec no_grp :: "rx \<Rightarrow> bool" where
  "no_grp Empty = True"
| "no_grp (Cls p) = True"
| "no_grp (Seq r1 r2) = (no_grp r1 \<and> no_grp r2)"
| "no_grp (Alt r1 r2) = (no_grp r1 \<and> no_grp r2)"
| "no_grp (Star r) = no_grp r"
| "no_grp (Grp n r) = False"
| "no_grp Bol = True"
| "no_grp BolM = True"
| "no_grp Eol = True"
| "no_grp WordB = True"
| "no_grp (NotAhead r) = True"

lemma repeat_run_no_grp:
  assumes "\<And>b a g b' a' g'. (b', a', g') \<in> set (f (b, a, g)) \<Longrightarrow> g' = g"
  shows "(b', a', g') \<in> set (repeat_run f k (b, a, g)) \<Longrightarrow> g' = g"
proof (induction k arbitrary: b a g)
  case (Suc k)
  then show ?case using assms by (force split: if_splits)
qed simp

lemma run_no_grp: "no_grp r \<Longrightarrow> (b', a', g') \<in> set (run r (b, a, g)) \<Longrightarrow> g' = g"
proof (induction r arbitrary: b a g b' a' g')
  case (Cls p)
  then show ?case by (cases a) (auto split: if_splits)
next
  case (Seq r1 r2)
  then show ?case by (auto, blast)
next
  case (Star r)
  have "(b', a', g') \<in> set (repeat_run (run r) (length a) (b, a, g))" using Star.prems by simp
  moreover have "g2 = g1" if "(b2, a2, g2) \<in> set (run r (b1, a1, g1))" for b1 a1 g1 b2 a2 g2
    using that Star.prems(1) by (auto intro: Star.IH)
  ultimately show ?case by (rule repeat_run_no_grp [rotated])
qed (auto split: if_splits)

lemma run_Grp:
  assumes "no_grp r" and "(b', a', g') \<in> set (run (Grp n r) (b, a, g))"
  shows "\<exists>w. rx_word r w \<and> g' = (n, w) # g"
proof -
  from assms(2) obtain g1 where r: "(b', a', g1) \<in> set (run r (b, a, g))" "g' = (n, take (length a - length a') a) # g1" by auto
  from run_word [OF r(1)] obtain w where w: "a = w @ a'" "rx_word r w" by blast
  with r run_no_grp [OF assms(1) r(1)] show ?thesis by simp
qed

text \<open>The groups of a sequence of group-free parts and of groups around group-free parts.\<close>

fun seq_groups :: "rx list \<Rightarrow> (nat \<times> string) list \<Rightarrow> (nat \<times> string) list \<Rightarrow> bool" where
  "seq_groups [] g g' \<longleftrightarrow> g' = g"
| "seq_groups (Grp n r # rs) g g' \<longleftrightarrow> (\<exists>w. rx_word r w \<and> seq_groups rs ((n, w) # g) g')"
| "seq_groups (r # rs) g g' \<longleftrightarrow> seq_groups rs g g'"

fun flat_rx :: "rx \<Rightarrow> bool" where
  "flat_rx (Grp n r) = no_grp r"
| "flat_rx r = no_grp r"

lemma run_seq_groups: "list_all flat_rx rs \<Longrightarrow> (b', a', g') \<in> set (run (seqs rs) (b, a, g)) \<Longrightarrow> seq_groups rs g g'"
proof (induction rs arbitrary: b a g)
  case (Cons r rs)
  from Cons.prems(2) obtain b1 a1 g1 where s: "(b1, a1, g1) \<in> set (run r (b, a, g))" "(b', a', g') \<in> set (run (seqs rs) (b1, a1, g1))"
    by auto
  from Cons.IH [OF _ s(2)] Cons.prems(1) have rest: "seq_groups rs g1 g'" by simp
  show ?case
  proof (cases "\<exists>n r'. r = Grp n r'")
    case True
    then obtain n r' where r: "r = Grp n r'" by blast
    with Cons.prems(1) run_Grp [of r' b1 a1 g1 n b a g] s(1) rest show ?thesis by auto
  next
    case False
    with Cons.prems(1) run_no_grp [of r b1 a1 g1 b a g] s(1) rest show ?thesis by (cases r) auto
  qed
qed simp

lemma no_grp_lit [simp]: "no_grp (lit s)"
  by (induction s) (auto simp: chr_def)

lemma finditer_match: "m \<in> set (re_finditer r s) \<Longrightarrow> \<exists>b a. match_at r b a = Some m"
proof -
  have "m \<in> set (all_from r k b s) \<Longrightarrow> \<exists>b a. match_at r b a = Some m" for k b
    by (induction r k b s rule: all_from.induct) (auto split: option.splits)
  then show "m \<in> set (re_finditer r s) \<Longrightarrow> ?thesis" by (auto simp: re_finditer_def)
qed

end
