(* ===== verification/Trace_Line.thy ===== *)
theory Trace_Line
  imports Py_Regex
begin

text \<open>
  The lines of a normalized retire trace, as data: a program counter, an instruction and the effects
  of its execution, in the format
  \<open>pc:instr [x<n>=...] [f<n>=...] [mem[...]=...] [csr[...]=...]\<close> that \<open>tools/sail_trace_normalize.py\<close>
  writes and \<open>tools/trace_diff.py\<close> reads. The lemmas say which characters the parts of a line are
  made of; they are what a pattern's search over a line needs.
\<close>

datatype effect = XWrite nat nat | FWrite nat nat | MemWrite nat nat | CsrWrite nat nat

record commit =
  c_pc :: nat
  c_instr :: nat
  c_effects :: "effect list"

fun effect_text :: "effect \<Rightarrow> string" where
  "effect_text (XWrite n v) = ''x'' @ str_int (int n) @ ''='' @ fmt_hex 16 (int v)"
| "effect_text (FWrite n v) = ''f'' @ str_int (int n) @ ''='' @ fmt_hex 16 (int v)"
| "effect_text (MemWrite a v) = ''mem['' @ fmt_hex 16 (int a) @ '']='' @ fmt_hex 16 (int v)"
| "effect_text (CsrWrite a v) = ''csr['' @ fmt_hex 3 (int a) @ '']='' @ fmt_hex 16 (int v)"

definition head_text :: "nat \<Rightarrow> nat \<Rightarrow> string" where
  "head_text pc i = fmt_hex 16 (int pc) @ '':'' @ fmt_hex 8 (int i)"

definition line_text :: "commit \<Rightarrow> string" where
  "line_text c = join '' '' (head_text (c_pc c) (c_instr c) # map effect_text (c_effects c))"

fun is_mem :: "effect \<Rightarrow> bool" where
  "is_mem (MemWrite a v) = True"
| "is_mem e = False"

fun is_csr :: "effect \<Rightarrow> bool" where
  "is_csr (CsrWrite a v) = True"
| "is_csr e = False"

text \<open>The widths of the machine.\<close>

fun effect_ok :: "effect \<Rightarrow> bool" where
  "effect_ok (XWrite n v) \<longleftrightarrow> v < 2 ^ 64"
| "effect_ok (FWrite n v) \<longleftrightarrow> v < 2 ^ 64"
| "effect_ok (MemWrite a v) \<longleftrightarrow> a < 2 ^ 64 \<and> v < 2 ^ 64"
| "effect_ok (CsrWrite a v) \<longleftrightarrow> a < 2 ^ 12 \<and> v < 2 ^ 64"

definition commit_ok :: "commit \<Rightarrow> bool" where
  "commit_ok c \<longleftrightarrow> c_pc c < 2 ^ 64 \<and> c_instr c < 2 ^ 32 \<and> list_all effect_ok (c_effects c)"

section \<open>Characters\<close>

lemma fmt_hex_hex [simp]: "list_all is_hex (fmt_hex w (int n))"
  by (simp add: fmt_hex_all_hex)

lemma hex_word [simp]: "list_all is_word_char (fmt_hex w (int n))"
  using fmt_hex_hex [of w n] hex_is_word by (auto simp only: list_all_iff)

lemma hex_no_space [simp]: "list_all is_hex w \<Longrightarrow> no_space w"
  using hex_not_space by (auto simp: list_all_iff no_space_def)

lemma fmt_hex_nonempty [simp]: "0 < w \<Longrightarrow> fmt_hex w (int n) \<noteq> []"
  by (simp add: fmt_hex_def zero_pad_def)

lemma str_int_digits [simp]: "list_all is_digit (str_int (int n))"
  using nat_digits_dec [of n] by (simp add: str_int_def)

lemma str_int_nonempty [simp]: "str_int (int n) \<noteq> []"
  by (simp add: str_int_def)

lemma digits_hex: "list_all is_digit w \<Longrightarrow> list_all is_hex w"
  using digit_is_hex by (auto simp: list_all_iff)

lemma str_int_hex [simp]: "list_all is_hex (str_int (int n))"
  by (rule digits_hex) simp

lemma fmt_hex_16 [simp]: "n < 2 ^ 64 \<Longrightarrow> length (fmt_hex 16 (int n)) = 16"
  by (intro fmt_hex_length) simp_all

lemma fmt_hex_8 [simp]: "n < 2 ^ 32 \<Longrightarrow> length (fmt_hex 8 (int n)) = 8"
  by (intro fmt_hex_length) simp_all

lemma fmt_hex_3 [simp]: "n < 2 ^ 12 \<Longrightarrow> length (fmt_hex 3 (int n)) = 3"
  by (intro fmt_hex_length) simp_all

lemma hex_value_fmt [simp]: "hex_value (fmt_hex w (int n)) = n"
  using hex_value_fmt_hex [of "int n" w] by linarith

text \<open>The characters of the format that are not hexadecimal digits.\<close>

lemma not_hex [simp]:
  "\<not> is_hex CHR ''m''" "\<not> is_hex CHR ''s''" "\<not> is_hex CHR ''x''" "\<not> is_hex CHR '' ''" "\<not> is_hex CHR '':''"
  "\<not> is_hex CHR ''=''" "\<not> is_hex CHR '']''" "\<not> is_hex CHR ''[''" "\<not> is_hex CHR '')''"
  by (simp_all add: is_hex_code)

lemma not_digit [simp]: "\<not> is_digit CHR ''=''" "\<not> is_digit CHR '']''" "\<not> is_digit CHR '' ''"
  by (simp_all add: is_digit_def)

lemma not_space [simp]:
  "\<not> is_space CHR ''m''" "\<not> is_space CHR ''e''" "\<not> is_space CHR ''x''" "\<not> is_space CHR ''f''" "\<not> is_space CHR ''c''"
  "\<not> is_space CHR ''s''" "\<not> is_space CHR ''r''" "\<not> is_space CHR '':''" "\<not> is_space CHR ''=''" "\<not> is_space CHR '']''"
  "\<not> is_space CHR ''[''"
  by (simp_all add: is_space_def)

lemma hex_not: "list_all is_hex w \<Longrightarrow> \<not> is_hex c \<Longrightarrow> c \<notin> set w"
  by (auto simp: list_all_iff)

lemma hex_not_mem [simp]:
  "\<not> is_hex c \<Longrightarrow> c \<notin> set (fmt_hex w (int n))" "\<not> is_hex c \<Longrightarrow> c \<notin> set (str_int (int n))"
  by (simp_all add: hex_not)

lemma effect_text_no_space [simp]: "no_space (effect_text e)"
  by (cases e) simp_all

lemma effect_text_nonempty [simp]: "effect_text e \<noteq> []"
  by (cases e) simp_all

lemma head_text_no_space [simp]: "no_space (head_text pc i)"
  by (simp add: head_text_def)

lemma head_text_nonempty [simp]: "head_text pc i \<noteq> []"
  by (simp add: head_text_def)

section \<open>Effects behind blanks\<close>

text \<open>A line after its head: every effect's text behind one blank; an erased effect leaves its blank.\<close>

definition tail_text :: "(effect \<Rightarrow> string) \<Rightarrow> effect list \<Rightarrow> string" where
  "tail_text f es = concat (map (\<lambda>e. CHR '' '' # f e) es)"

lemma tail_text_simps [simp]:
  "tail_text f [] = []" "tail_text f (e # es) = CHR '' '' # f e @ tail_text f es"
  by (simp_all add: tail_text_def)

lemma tail_text_hd: "tail_text f es = [] \<or> hd (tail_text f es) = CHR '' ''"
  by (cases es) simp_all

lemma tail_text_blank: "tail_text f es = [] \<or> is_space (hd (tail_text f es))"
  by (cases es) simp_all

lemma join_tail: "join '' '' (h # map effect_text es) = h @ tail_text effect_text es"
  by (induction es arbitrary: h) simp_all

lemma line_text_tail: "line_text c = head_text (c_pc c) (c_instr c) @ tail_text effect_text (c_effects c)"
  by (simp add: line_text_def join_tail)

lemma split_ws_tail:
  assumes "\<And>e. e \<in> set es \<Longrightarrow> no_space (f e)"
  shows "split_ws (tail_text f es) = filter (\<lambda>w. w \<noteq> []) (map f es)"
  using assms
proof (induction es)
  case (Cons e es)
  then show ?case using split_ws_word [of "f e" "tail_text f es"] tail_text_blank [of f es] by (cases "f e = []") auto
qed simp

end
