(* ===== verification/Trace_Diff.thy ===== *)
theory Trace_Diff
  imports Trace_Line "HOL-Library.Sublist"
begin

text \<open>
  \<open>tools/trace_diff.py\<close>: the comparison of the core's retire trace with the reference model's. A
  trace file is loaded line by line up to the halt sentinel; each line loses the effects the two sides
  do not report alike (\<open>strip_ignored\<close>); the two lists of lines are then aligned at the first line
  of the core's trace and compared without the instruction encodings.
\<close>

section \<open>Addresses and patterns\<close>

definition HALT_ADDR :: nat where "HALT_ADDR = 0x40000000"
definition SIG_LO :: nat where "SIG_LO = 0x0000000080002000"
definition SIG_HI :: nat where "SIG_HI = 0x0000000080004000"

definition hexn :: "nat \<Rightarrow> rx" where
  "hexn n = rep n (Cls is_hex)"

definition MEM_RE :: rx where
  "MEM_RE = seqs [lit ''mem['', Grp 1 (hexn 16), lit '']='', hexn 16]"

definition CSR_RE :: rx where
  "CSR_RE = seqs [spaces, lit ''csr['', hexn 3, lit '']='', hexn 16]"

definition INSTR_RE :: rx where
  "INSTR_RE = seqs [Bol, hexn 16, chr CHR '':'', Grp 1 (Seq (Cls is_hex) (upto_rx 7 (Cls is_hex))), WordB]"

definition EFFECT_RE :: rx where
  "EFFECT_RE = alts [seqs [chr CHR ''x'', digits, chr CHR ''=''], seqs [chr CHR ''f'', digits, chr CHR ''=''],
     lit ''mem['']"

definition PC_RE :: rx where
  "PC_RE = seqs [Bol, Grp 1 (hexn 16), chr CHR '':'', hexn 8, Grp 2 (Star (Cls (\<lambda>c. c \<noteq> CHR 0x0A)))]"

definition HALT_SENTINEL :: string where
  "HALT_SENTINEL = ''mem['' @ fmt_hex 16 (int HALT_ADDR) @ '']=''"

section \<open>One line\<close>

text \<open>The instruction is a Zicsr operation that writes its CSR.\<close>

definition csr_write :: "nat \<Rightarrow> bool" where
  "csr_write i =
     (if i AND 0x3 \<noteq> 0x3 then False
      else if i AND 0x7F \<noteq> 0x73 then False
      else (let funct3 = drop_bit 12 i AND 0x7 in
        if funct3 = 0 \<or> funct3 = 4 then False
        else if funct3 AND 0x3 = 0x1 then True
        else (let rs1 = drop_bit 15 i AND 0x1F in rs1 \<noteq> 0)))"

definition csr_write_visible :: "string \<Rightarrow> bool" where
  "csr_write_visible line = (case re_match INSTR_RE line of
      None \<Rightarrow> False
    | Some m \<Rightarrow> csr_write (hex_value (group m 1)))"

definition mem_repl :: "rmatch \<Rightarrow> string" where
  "mem_repl m = (let addr = hex_value (group m 1) in
     if addr = HALT_ADDR \<or> SIG_LO \<le> addr \<and> addr < SIG_HI then [] else m_text m)"

definition has_effect :: "string \<Rightarrow> bool" where
  "has_effect line \<longleftrightarrow> re_search EFFECT_RE line \<noteq> None"

definition strip_ignored :: "string \<Rightarrow> bool \<Rightarrow> string" where
  "strip_ignored line strip_noeffect =
     (let had_mem = (re_search MEM_RE line \<noteq> None);
          cleaned = re_sub MEM_RE mem_repl line;
          cleaned = (if csr_write_visible cleaned then cleaned else re_sub CSR_RE (\<lambda>_. []) cleaned);
          cleaned = strip (re_sub spaces1 (\<lambda>_. '' '') cleaned)
      in if had_mem \<and> \<not> has_effect cleaned then []
         else if strip_noeffect \<and> \<not> has_effect cleaned then []
         else cleaned)"

section \<open>One trace\<close>

fun load_lines :: "bool \<Rightarrow> string list \<Rightarrow> string list" where
  "load_lines sn [] = []"
| "load_lines sn (raw # rest) =
     (if strip raw = [] then load_lines sn rest
      else if contains HALT_SENTINEL (strip raw) then []
      else (let s = strip_ignored (strip raw) sn in
            if s \<noteq> [] then s # load_lines sn rest else load_lines sn rest))"

definition load_trace :: "files \<Rightarrow> string \<Rightarrow> bool \<Rightarrow> string list result" where
  "load_trace fs path sn = bindR (read_text fs path) (\<lambda>s. Inr (load_lines sn (splitlines s)))"

section \<open>Comparison\<close>

definition pc_instr :: "string \<Rightarrow> string" where
  "pc_instr line = hd (split_once CHR '' '' line)"

definition pc_of :: "string \<Rightarrow> string" where
  "pc_of line = hd (split_once CHR '':'' line)"

definition for_compare :: "string \<Rightarrow> string" where
  "for_compare line = (case re_match PC_RE line of
      Some m \<Rightarrow> strip (group m 1 @ group m 2)
    | None \<Rightarrow> line)"

text \<open>\<open>next((i for i, l in enumerate(ls) if P(l)), None)\<close>.\<close>

fun find_index :: "('a \<Rightarrow> bool) \<Rightarrow> 'a list \<Rightarrow> nat option" where
  "find_index P [] = None"
| "find_index P (l # ls) = (if P l then Some 0 else map_option Suc (find_index P ls))"

definition sail_start :: "string \<Rightarrow> string list \<Rightarrow> nat option" where
  "sail_start a0 b = (case find_index (\<lambda>l. pc_instr l = pc_instr a0) b of
      Some i \<Rightarrow> Some i
    | None \<Rightarrow> find_index (\<lambda>l. pc_of l = pc_of a0) b)"

text \<open>The first position, counted from \<open>i\<close>, at which the two lists differ.\<close>

fun first_diff :: "nat \<Rightarrow> string list \<Rightarrow> string list \<Rightarrow> (nat \<times> string \<times> string) option" where
  "first_diff i (x # xs) (y # ys) =
     (if for_compare x \<noteq> for_compare y then Some (i, x, y) else first_diff (Suc i) xs ys)"
| "first_diff i _ _ = None"

definition compare_traces :: "string list \<Rightarrow> string list \<Rightarrow> completed" where
  "compare_traces a b =
     (if a = [] then \<lparr>returncode = 1, stdout = [], stderr = unlines [''MISMATCH: Kronos trace is empty'']\<rparr>
      else case sail_start (hd a) b of
        None \<Rightarrow> \<lparr>returncode = 1, stdout = unlines [''SYNC FAIL: Kronos first instruction '' @ [CHR 0x27]
                  @ pc_instr (hd a) @ [CHR 0x27] @ '' not found in Sail trace''], stderr = []\<rparr>
      | Some s \<Rightarrow> (let b = drop s b in case first_diff 0 a b of
          Some (i, x, y) \<Rightarrow> \<lparr>returncode = 1,
            stdout = unlines [''MISMATCH at line '' @ str_int (int i + 1), ''  kronos: '' @ x, ''  sail  : '' @ y],
            stderr = []\<rparr>
        | None \<Rightarrow> if length a \<noteq> length b
            then \<lparr>returncode = 1,
              stdout = unlines [''MISMATCH length: kronos='' @ str_int (int (length a)) @ '' sail='' @ str_int (int (length b))
                @ '' (first divergence after line '' @ str_int (int (min (length a) (length b))) @ '')''],
              stderr = []\<rparr>
            else \<lparr>returncode = 0, stdout = [], stderr = []\<rparr>))"

definition trace_diff_main :: "string list \<Rightarrow> files \<Rightarrow> completed result" where
  "trace_diff_main argv fs =
     (let args = filter (\<lambda>a. a \<noteq> ''--strip-noeffect'') (tl argv);
          sn = (''--strip-noeffect'' \<in> set (tl argv))
      in case args of
           [ka, sb] \<Rightarrow> bindR (load_trace fs ka sn) (\<lambda>a. bindR (load_trace fs sb sn) (\<lambda>b. Inr (compare_traces a b)))
         | _ \<Rightarrow> Inr \<lparr>returncode = 2, stdout = [],
             stderr = unlines [''Usage: '' @ hd argv @ '' [--strip-noeffect] <kronos_trace> <sail_trace>'']\<rparr>)"

section \<open>Lemmas\<close>

lemma find_index_Some:
  "find_index P ls = Some i \<longleftrightarrow> i < length ls \<and> P (ls ! i) \<and> (\<forall>j < i. \<not> P (ls ! j))"
proof (induction ls arbitrary: i)
  case (Cons l ls)
  show ?case
  proof (cases i)
    case (Suc k)
    have all_Suc: "(\<forall>j < Suc k. \<not> P ((l # ls) ! j)) \<longleftrightarrow> \<not> P l \<and> (\<forall>j < k. \<not> P (ls ! j))"
      by (simp add: All_less_Suc2)
    then show ?thesis using Suc Cons.IH [of k] by simp
  qed simp
qed simp

lemma find_index_None: "find_index P ls = None \<longleftrightarrow> (\<forall>l \<in> set ls. \<not> P l)"
  by (induction ls) auto

lemma first_diff_None:
  "first_diff i xs ys = None \<longleftrightarrow>
     take (length ys) (map for_compare xs) = take (length xs) (map for_compare ys)"
  by (induction i xs ys rule: first_diff.induct) auto

text \<open>
  What the comparison accepts, without the scans: the core's lines are not empty and agree with a final
  segment of the reference trace. The segment begins at the first line with the same counter and
  encoding as the core's first line, or, when there is none, at the first with the same counter.
\<close>

definition first_at :: "(string \<Rightarrow> bool) \<Rightarrow> string list \<Rightarrow> nat \<Rightarrow> bool" where
  "first_at P b s \<longleftrightarrow> s < length b \<and> P (b ! s) \<and> (\<forall>j < s. \<not> P (b ! j))"

definition aligned :: "string \<Rightarrow> string list \<Rightarrow> nat \<Rightarrow> bool" where
  "aligned a0 b s \<longleftrightarrow>
     (if \<exists>l \<in> set b. pc_instr l = pc_instr a0 then first_at (\<lambda>l. pc_instr l = pc_instr a0) b s
      else first_at (\<lambda>l. pc_of l = pc_of a0) b s)"

definition agrees :: "string list \<Rightarrow> string list \<Rightarrow> bool" where
  "agrees a b \<longleftrightarrow> a \<noteq> [] \<and> (\<exists>s. aligned (hd a) b s \<and> map for_compare a = map for_compare (drop s b))"

lemma sail_start_aligned: "sail_start a0 b = Some s \<longleftrightarrow> aligned a0 b s"
proof (cases "find_index (\<lambda>l. pc_instr l = pc_instr a0) b")
  case None
  moreover from this have "\<not> (\<exists>l \<in> set b. pc_instr l = pc_instr a0)" by (simp add: find_index_None)
  ultimately show ?thesis by (simp add: sail_start_def aligned_def find_index_Some first_at_def)
next
  case (Some i)
  then have i: "i < length b" "pc_instr (b ! i) = pc_instr a0" by (simp_all add: find_index_Some)
  then have ex: "\<exists>l \<in> set b. pc_instr l = pc_instr a0" using nth_mem by blast
  have "sail_start a0 b = Some s \<longleftrightarrow> find_index (\<lambda>l. pc_instr l = pc_instr a0) b = Some s"
    using Some by (simp add: sail_start_def)
  with ex show ?thesis by (simp add: aligned_def find_index_Some first_at_def)
qed

lemma compare_traces_iff: "returncode (compare_traces a b) = 0 \<longleftrightarrow> agrees a b"
proof (cases "a = [] \<or> sail_start (hd a) b = None")
  case True
  then show ?thesis by (auto simp: compare_traces_def agrees_def sail_start_aligned [symmetric])
next
  case False
  then obtain s where s: "sail_start (hd a) b = Some s" by auto
  have eq: "map for_compare a = map for_compare c \<longleftrightarrow> first_diff 0 a c = None \<and> length a = length c" for c
    by (cases "length a = length c") (auto simp: first_diff_None dest: map_eq_imp_length_eq)
  show ?thesis using False s eq [of "drop s b"]
    by (auto simp: compare_traces_def agrees_def sail_start_aligned [symmetric] Let_def split: option.splits)
qed

lemma compare_traces_silent:
  "returncode (compare_traces a b) = 0 \<Longrightarrow> compare_traces a b = \<lparr>returncode = 0, stdout = [], stderr = []\<rparr>"
  by (auto simp: compare_traces_def Let_def split: option.splits if_splits)

lemma halt_sentinel [code]: "HALT_SENTINEL = ''mem[0000000040000000]=''"
  by (simp add: HALT_SENTINEL_def HALT_ADDR_def fmt_hex_def zero_pad_def nat_digits.simps digit_char_def)

lemma halt_no_space: "no_space HALT_SENTINEL"
  unfolding HALT_SENTINEL_def by simp

lemma strip_halt: "strip HALT_SENTINEL = HALT_SENTINEL"
  using halt_no_space strip_no_space by (simp add: no_space_def)

lemma halt_no_break: "list_all (\<lambda>c. \<not> line_break c) HALT_SENTINEL"
  using halt_no_space unfolding no_space_def list_all_iff line_break_def is_space_def Let_def by fastforce

lemma load_lines_halt:
  "contains HALT_SENTINEL (strip h) \<Longrightarrow> load_lines sn (xs @ h # ys) = load_lines sn xs"
  by (induction xs) (auto simp: Let_def contains_def after_first.simps [of _ "[]"] starts_with_def HALT_SENTINEL_def)

section \<open>What a line keeps\<close>

text \<open>
  The lemmas follow \<open>strip_ignored\<close> over a line of the format: where each pattern matches, where it
  cannot, and what is left. \<open>kept\<close> says which effects survive, \<open>observable\<close> which ones the search for an
  effect sees.
\<close>
lemma first_MEM:
  assumes "list_all is_hex p" "length p = 16" "list_all is_hex q" "length q = 16"
  shows "\<exists>b'. first MEM_RE (b, ''mem['' @ p @ '']='' @ q @ v, g) = Some (b', v, (1, p) # g)"
  unfolding MEM_RE_def hexn_def
  by (rule exI, rule first_seqs(2) [OF first_lit], rule first_seqs(2) [OF first_Grp [OF first_rep_Cls [OF assms(1,2)]]],
     rule first_seqs(2) [OF first_lit], rule first_seqs(2) [OF first_rep_Cls [OF assms(3,4)]], rule first_seqs(1))

lemma first_CSR:
  assumes "list_all is_space u" "list_all is_hex p" "length p = 3" "list_all is_hex q" "length q = 16"
  shows "\<exists>b'. first CSR_RE (b, u @ ''csr['' @ p @ '']='' @ q @ v, g) = Some (b', v, g)"
  unfolding CSR_RE_def hexn_def spaces_def
  by (rule exI, rule first_seqs(2) [OF first_Star_Cls [OF assms(1)]], simp, rule first_seqs(2) [OF first_lit],
     rule first_seqs(2) [OF first_rep_Cls [OF assms(2,3)]],
     rule first_seqs(2) [OF first_lit], rule first_seqs(2) [OF first_rep_Cls [OF assms(4,5)]], rule first_seqs(1))

lemma first_INSTR:
  assumes "list_all is_hex p" "length p = 16" "list_all is_hex q" "length q = 8" and v: "v = [] \<or> is_space (hd v)"
  shows "\<exists>b'. first INSTR_RE ([], p @ '':'' @ q @ v, []) = Some (b', v, [(1, q)])"
proof -
  have "is_space c \<Longrightarrow> \<not> is_word_char c" for c
    unfolding is_space_def is_word_char_def Let_def by (elim disjE conjE) simp_all
  with v have nv: "\<not> is_word_at v" by (auto simp: is_word_at_def)
  obtain d ds where q: "q = d # ds" using assms(4) by (cases q) auto
  have "is_hex (last q)" using assms(3) by (simp add: q list_all_iff)
  then have "is_word_char (last q)" by (rule hex_is_word)
  then have "is_word_at (rev q @ b)" for b
    by (simp add: is_word_at_def hd_append hd_rev q split: if_splits)
  with nv have wb: "first WordB (rev q @ b, v, g) = Some (rev q @ b, v, g)" for b g by (intro first_WordB) simp
  have "first (Seq (Cls is_hex) (upto_rx 7 (Cls is_hex))) (b, q @ v, g) = Some (rev q @ b, v, g)" for b g
    using assms(3,4) by (auto simp: q intro!: first_Seq [OF first_Cls] first_upto_Cls)
  note q1 = first_Grp [OF this, of 1]
  show ?thesis
    unfolding INSTR_RE_def hexn_def
    apply (rule exI)
    apply (rule first_seqs(2) [OF first_Bol])
    apply (rule first_seqs(2) [OF first_rep_Cls [OF assms(1,2)]])
    apply (simp only: append.simps)
    apply (rule first_seqs(2) [OF first_chr])
    apply (rule first_seqs(2) [OF q1])
    apply (rule first_seqs(2) [OF wb])
    apply (rule first_seqs(1))
    done
qed

definition ignored_addr :: "nat \<Rightarrow> bool" where
  "ignored_addr a \<longleftrightarrow> a = HALT_ADDR \<or> SIG_LO \<le> a \<and> a < SIG_HI"

fun mem_kept :: "effect \<Rightarrow> string" where
  "mem_kept (MemWrite a v) = (if ignored_addr a then [] else effect_text (MemWrite a v))"
| "mem_kept e = effect_text e"

lemma mem_quiet: "CHR ''m'' \<notin> set u \<Longrightarrow> quiet MEM_RE u v"
  by (rule quiet_hd [where P = "\<lambda>c. c = CHR ''m''"]) (auto simp: MEM_RE_def list_all_iff)

lemma no_m: "CHR ''m'' \<notin> set (head_text pc i)" "\<not> is_mem e \<Longrightarrow> CHR ''m'' \<notin> set (effect_text e)"
  by (simp add: head_text_def, cases e) simp_all

lemma sub_mem_effect:
  assumes "a < 2 ^ 64" and "v < 2 ^ 64"
  shows "\<exists>b'. sub_from MEM_RE mem_repl 0 b (effect_text (MemWrite a v) @ t) = mem_kept (MemWrite a v) @ sub_from MEM_RE mem_repl 0 b' t"
proof -
  let ?w = "effect_text (MemWrite a v)"
  have "\<exists>b'. first MEM_RE (b, ?w @ t, []) = Some (b', t, [(1, fmt_hex 16 (int a))])"
    using first_MEM [of "fmt_hex 16 (int a)" "fmt_hex 16 (int v)" b t "[]"] assms
    by (simp only: effect_text.simps append_assoc fmt_hex_hex fmt_hex_16)
  then obtain b' where "first MEM_RE (b, ?w @ t, []) = Some (b', t, [(1, fmt_hex 16 (int a))])" ..
  from sub_match [OF this effect_text_nonempty, of mem_repl]
  show ?thesis by (auto simp: mem_repl_def Let_def group_def ignored_addr_def simp del: effect_text.simps)
qed

lemma sub_mem_tail:
  "list_all effect_ok es \<Longrightarrow> sub_from MEM_RE mem_repl 0 b (tail_text effect_text es) = tail_text mem_kept es"
proof (induction es arbitrary: b)
  case (Cons e es)
  show ?case
  proof (cases "is_mem e")
    case True
    then obtain a v where e: "e = MemWrite a v" by (cases e) auto
    with Cons.prems sub_mem_effect [of a v "CHR '' '' # b" "tail_text effect_text es"] obtain b'
      where "sub_from MEM_RE mem_repl 0 (CHR '' '' # b) (effect_text e @ tail_text effect_text es) = mem_kept e @ tail_text mem_kept es"
      using Cons by auto
    with sub_quiet [OF mem_quiet [of "'' ''"], of mem_repl b "effect_text e @ tail_text effect_text es"] show ?thesis by simp
  next
    case False
    then have "mem_kept e = effect_text e" by (cases e) simp_all
    with False sub_quiet [OF mem_quiet, of "CHR '' '' # effect_text e" mem_repl b "tail_text effect_text es"] no_m(2) [of e] Cons
    show ?thesis by simp
  qed
qed simp

lemma sub_mem_line:
  assumes "list_all effect_ok es"
  shows "re_sub MEM_RE mem_repl (head_text pc i @ tail_text effect_text es) = head_text pc i @ tail_text mem_kept es"
  using sub_quiet [OF mem_quiet [OF no_m(1)]] sub_mem_tail [OF assms] by (simp add: re_sub_def)

text \<open>\<open>csr[...]\<close>\<close>

lemma csr_quiet:
  assumes "CHR ''s'' \<notin> set u" and "no_space u" and "v = [] \<or> hd v \<noteq> CHR ''s''"
  shows "quiet CSR_RE u v"
  using assms
proof (induction u)
  case (Cons c u)
  have "\<not> rx_word CSR_RE w" if "c # u @ v = w @ z" for w z
  proof
    assume "rx_word CSR_RE w"
    then obtain sp w' where w: "w = sp @ ''csr['' @ w'" and sp: "list_all is_space sp"
      by (auto simp: CSR_RE_def spaces_def)
    with that Cons.prems have "sp = []" by (cases sp) auto
    with that w have "u @ v = ''sr['' @ w' @ z" by simp
    with Cons.prems show False by (cases u) auto
  qed
  with Cons show ?case by (auto simp: quiet_Cons)
qed simp

lemma csr_quiet_spaces:
  assumes "list_all is_space u" and "v = [] \<or> \<not> is_space (hd v) \<and> hd v \<noteq> CHR ''c''"
  shows "quiet CSR_RE u v"
  using assms
proof (induction u)
  case (Cons c u)
  have "\<not> rx_word CSR_RE w" if eq: "c # u @ v = w @ z" for w z
  proof
    assume "rx_word CSR_RE w"
    then obtain sp w' where w: "w = sp @ ''csr['' @ w'" and sp: "list_all is_space sp"
      by (auto simp: CSR_RE_def spaces_def)
    let ?f = "dropWhile is_space"
    have "?f (sp @ ''csr['' @ w' @ z) = ''csr['' @ w' @ z" using sp by (subst dropWhile_append2) (auto simp: list_all_iff)
    moreover have "?f ((c # u) @ v) = v" using Cons.prems by (subst dropWhile_append2) (auto simp: list_all_iff dropWhile_eq_self_iff)
    ultimately show False using eq w Cons.prems(2) by auto
  qed
  with Cons show ?case by (auto simp: quiet_Cons)
qed simp

lemma mem_kept_cases: "mem_kept e = [] \<or> mem_kept e = effect_text e"
  by (cases e) simp_all

lemma sub_csr_tail:
  assumes "list_all effect_ok es" and "list_all is_space u"
  shows "(let r = sub_from CSR_RE (\<lambda>_. []) 0 b (u @ tail_text mem_kept es) in
    (r = [] \<or> is_space (hd r)) \<and> split_ws r = map effect_text (filter (\<lambda>e. \<not> is_csr e \<and> mem_kept e \<noteq> []) es))"
  using assms
proof (induction es arbitrary: b u)
  case Nil
  then show ?case using sub_quiet [OF csr_quiet_spaces, of u "[]" "\<lambda>_. []" b] split_ws_spaces [of u "[]"]
    by (cases u) auto
next
  case (Cons e es)
  let ?u = "u @ '' ''" and ?t = "tail_text mem_kept es" and ?sub = "\<lambda>b. sub_from CSR_RE (\<lambda>_. []) 0 b"
  have u: "list_all is_space ?u" "?u \<noteq> []" using Cons.prems by simp_all
  have all: "u @ tail_text mem_kept (e # es) = ?u @ mem_kept e @ ?t" by simp
  consider "mem_kept e = []" | "is_csr e" | "mem_kept e = effect_text e" "\<not> is_csr e"
    using mem_kept_cases by blast
  then show ?case
  proof cases
    case 1
    with Cons.IH [OF _ u(1), of b] Cons.prems(1) show ?thesis by (simp add: all del: tail_text_simps)
  next
    case 2
    then obtain a v where e: "e = CsrWrite a v" by (cases e) auto
    let ?w = "?u @ effect_text e"
    have "\<exists>b'. first CSR_RE (b, ?w @ ?t, []) = Some (b', ?t, [])"
      using first_CSR [OF u(1), of "fmt_hex 3 (int a)" "fmt_hex 16 (int v)" b ?t "[]"] Cons.prems(1)
      by (simp only: e effect_text.simps append_assoc fmt_hex_hex fmt_hex_16 fmt_hex_3 list.pred_inject effect_ok.simps)
    then obtain b' where "first CSR_RE (b, ?w @ ?t, []) = Some (b', ?t, [])" ..
    from sub_match [OF this, of "\<lambda>_. []"] have "?sub b (?w @ ?t) = ?sub (rev ?w @ b) ?t" by simp
    moreover have "u @ tail_text mem_kept (e # es) = ?w @ ?t" by (simp add: e)
    ultimately have "?sub b (u @ tail_text mem_kept (e # es)) = ?sub (rev ?w @ b) ?t" by simp
    with Cons.IH [of "[]" "rev ?w @ b"] Cons.prems(1) 2 show ?thesis by (simp add: Let_def)
  next
    case 3
    have hd: "effect_text e = hd (effect_text e) # tl (effect_text e)" "\<not> is_space (hd (effect_text e))" "hd (effect_text e) \<noteq> CHR ''c''"
      "CHR ''s'' \<notin> set (effect_text e)"
      using 3 by (cases e; simp)+
    have "?sub b (?u @ effect_text e @ ?t) = ?u @ ?sub (rev ?u @ b) (effect_text e @ ?t)"
      by (rule sub_quiet, rule csr_quiet_spaces [OF u(1)]) (use hd in auto)
    also have "?sub (rev ?u @ b) (effect_text e @ ?t) = effect_text e @ ?sub (rev (effect_text e) @ rev ?u @ b) ?t"
      by (rule sub_quiet, rule csr_quiet [OF hd(4)]) (use tail_text_hd [of mem_kept es] in auto)
    finally have sub: "?sub b (?u @ effect_text e @ ?t) = ?u @ effect_text e @ ?sub (rev (effect_text e) @ rev ?u @ b) ?t" .
    note IH = Cons.IH [of "[]" "rev (effect_text e) @ rev ?u @ b", simplified Let_def]
    have "split_ws (?u @ effect_text e @ ?sub (rev (effect_text e) @ rev ?u @ b) ?t)
      = effect_text e # split_ws (?sub (rev (effect_text e) @ rev ?u @ b) ?t)"
      unfolding split_ws_spaces [OF u(1)] by (rule split_ws_word) (use IH Cons.prems(1) in auto)
    then show ?thesis unfolding all 3(1) sub using IH Cons.prems(1) u by (cases u) (auto simp: Let_def 3)
  qed
qed

lemma csr_visible:
  assumes "pc < 2 ^ 64" and "i < 2 ^ 32" and "t = [] \<or> is_space (hd t)"
  shows "csr_write_visible (head_text pc i @ t) = csr_write i"
proof -
  from first_INSTR [of "fmt_hex 16 (int pc)" "fmt_hex 8 (int i)" t] assms obtain b'
    where "first INSTR_RE ([], head_text pc i @ t, []) = Some (b', t, [(1, fmt_hex 8 (int i))])"
    by (auto simp: head_text_def)
  then show ?thesis by (simp add: csr_write_visible_def re_match_def match_at_first group_def)
qed

fun kept :: "nat \<Rightarrow> effect \<Rightarrow> bool" where
  "kept i (MemWrite a v) \<longleftrightarrow> \<not> ignored_addr a"
| "kept i (CsrWrite a v) \<longleftrightarrow> csr_write i"
| "kept i e \<longleftrightarrow> True"

definition observable :: "effect \<Rightarrow> bool" where
  "observable e \<longleftrightarrow> \<not> is_csr e"

lemma mem_kept_filter: "filter (\<lambda>w. w \<noteq> []) (map mem_kept es) = map effect_text (filter (\<lambda>e. mem_kept e \<noteq> []) es)"
proof (induction es)
  case (Cons e es)
  then show ?case by (cases e) auto
qed simp

lemma mem_kept_no_space: "no_space (mem_kept e)"
  by (cases e) (simp_all del: effect_text.simps)

text \<open>What is left of a line, before the tests for effects.\<close>

lemma cleaned_line:
  assumes "commit_ok c"
  shows "(let cleaned = re_sub MEM_RE mem_repl (line_text c);
              cleaned = (if csr_write_visible cleaned then cleaned else re_sub CSR_RE (\<lambda>_. []) cleaned)
          in strip (re_sub spaces1 (\<lambda>_. '' '') cleaned))
    = line_text (c\<lparr>c_effects := filter (kept (c_instr c)) (c_effects c)\<rparr>)"
proof -
  let ?h = "head_text (c_pc c) (c_instr c)" and ?es = "c_effects c"
  from assms have ok: "list_all effect_ok ?es" "c_pc c < 2 ^ 64" "c_instr c < 2 ^ 32" by (simp_all add: commit_ok_def)
  have mem: "re_sub MEM_RE mem_repl (line_text c) = ?h @ tail_text mem_kept ?es"
    by (simp add: line_text_tail sub_mem_line [OF ok(1)])
  have kept: "filter (kept (c_instr c)) ?es = filter (\<lambda>e. (csr_write (c_instr c) \<or> \<not> is_csr e) \<and> mem_kept e \<noteq> []) ?es"
  proof (rule filter_cong [OF refl])
    show "kept (c_instr c) e = ((csr_write (c_instr c) \<or> \<not> is_csr e) \<and> mem_kept e \<noteq> [])" for e
      by (cases e) auto
  qed
  have words: "split_ws (?h @ r) = ?h # split_ws r" if "r = [] \<or> is_space (hd r)" for r
    using that by (intro split_ws_word) auto
  have vis: "csr_write_visible (?h @ tail_text mem_kept ?es) = csr_write (c_instr c)"
    by (rule csr_visible [OF ok(2,3) tail_text_blank])
  have quiet: "quiet CSR_RE ?h (tail_text mem_kept ?es)"
    by (rule csr_quiet) (use tail_text_hd [of mem_kept ?es] in \<open>auto simp: head_text_def\<close>)
  have rhs: "line_text (c\<lparr>c_effects := filter (kept (c_instr c)) ?es\<rparr>)
      = join '' '' (?h # map effect_text (filter (kept (c_instr c)) ?es))" by (simp add: line_text_def)
  show ?thesis
  proof (cases "csr_write (c_instr c)")
    case True
    have "split_ws (?h @ tail_text mem_kept ?es) = ?h # map effect_text (filter (kept (c_instr c)) ?es)"
      using words [OF tail_text_blank] split_ws_tail [OF mem_kept_no_space] mem_kept_filter kept True by simp
    then show ?thesis using True by (simp add: mem vis collapse_spaces rhs Let_def)
  next
    case False
    let ?r = "sub_from CSR_RE (\<lambda>_. []) 0 (rev ?h) (tail_text mem_kept ?es)"
    from sub_csr_tail [OF ok(1), of "[]" "rev ?h"] have r: "?r = [] \<or> is_space (hd ?r)"
      "split_ws ?r = map effect_text (filter (\<lambda>e. \<not> is_csr e \<and> mem_kept e \<noteq> []) ?es)"
      by (simp_all add: Let_def)
    have "re_sub CSR_RE (\<lambda>_. []) (?h @ tail_text mem_kept ?es) = ?h @ ?r"
      using sub_quiet [OF quiet] by (simp add: re_sub_def)
    moreover have "split_ws (?h @ ?r) = ?h # map effect_text (filter (kept (c_instr c)) ?es)"
      using words [OF r(1)] r(2) kept False by simp
    ultimately show ?thesis using False by (simp add: mem vis collapse_spaces rhs Let_def)
  qed
qed

section \<open>Which lines have an effect\<close>

lemma line_text_no_m: "\<not> list_ex is_mem (c_effects c) \<Longrightarrow> CHR ''m'' \<notin> set (line_text c)"
proof -
  have "\<not> list_ex is_mem es \<Longrightarrow> CHR ''m'' \<notin> set (tail_text effect_text es)" for es
    by (induction es) (use no_m(2) in auto)
  then show "\<not> list_ex is_mem (c_effects c) \<Longrightarrow> ?thesis" using no_m(1) by (simp add: line_text_tail)
qed

text \<open>A line around one of its effects.\<close>

lemma line_text_split:
  assumes "e \<in> set (c_effects c)"
  obtains u v where "line_text c = u @ effect_text e @ v"
proof -
  from assms obtain es1 es2 where "c_effects c = es1 @ e # es2" by (auto dest: split_list)
  then have "line_text c = (head_text (c_pc c) (c_instr c) @ tail_text effect_text es1 @ '' '') @ effect_text e @ tail_text effect_text es2"
    by (simp add: line_text_tail tail_text_def)
  then show ?thesis by (rule that)
qed

lemma search_MEM:
  assumes "commit_ok c"
  shows "re_search MEM_RE (line_text c) \<noteq> None \<longleftrightarrow> list_ex is_mem (c_effects c)"
proof (cases "list_ex is_mem (c_effects c)")
  case False
  have "search_from MEM_RE [] (line_text c) = None"
    by (rule search_quiet [OF mem_quiet [OF line_text_no_m [OF False]]]) (simp add: MEM_RE_def)
  with False show ?thesis by (simp add: re_search_def)
next
  case True
  then obtain e where e: "e \<in> set (c_effects c)" "is_mem e" by (auto simp: list_ex_iff)
  from e(2) obtain a v where mw: "e = MemWrite a v" by (cases e) auto
  with e assms have ok: "a < 2 ^ 64" "v < 2 ^ 64" by (auto simp: commit_ok_def list_all_iff)
  obtain u w where line: "line_text c = u @ effect_text e @ w" by (rule line_text_split [OF e(1)])
  from first_MEM [of "fmt_hex 16 (int a)" "fmt_hex 16 (int v)" "rev u" w "[]"] ok
  have "first MEM_RE (rev u, effect_text e @ w, []) \<noteq> None" by (auto simp: mw)
  with search_found [of MEM_RE u "[]" "effect_text e @ w"] True show ?thesis by (simp add: re_search_def line)
qed

lemma EFFECT_word: "rx_word EFFECT_RE w \<longleftrightarrow>
    (\<exists>ds. ds \<noteq> [] \<and> list_all is_digit ds \<and> (w = CHR ''x'' # ds @ ''='' \<or> w = CHR ''f'' # ds @ ''='')) \<or> w = ''mem[''"
  by (auto simp: EFFECT_RE_def digits_def)

lemma effect_quiet_other:
  "list_all (\<lambda>c. c \<noteq> CHR ''x'' \<and> c \<noteq> CHR ''f'' \<and> c \<noteq> CHR ''m'') u \<Longrightarrow> quiet EFFECT_RE u v"
  by (rule quiet_hd [where P = "\<lambda>c. c = CHR ''x'' \<or> c = CHR ''f'' \<or> c = CHR ''m''"]) (auto simp: EFFECT_word)

lemma effect_quiet_hex:
  assumes "list_all is_hex u" and "v = [] \<or> \<not> is_hex (hd v) \<and> hd v \<noteq> CHR ''=''"
  shows "quiet EFFECT_RE u v"
  using assms
proof (induction u)
  case (Cons c u)
  have skip: "dropWhile is_hex (p @ q) = dropWhile is_hex q" if "list_all is_hex p" for p q
    using that by (subst dropWhile_append2) (auto simp: list_all_iff)
  have "\<not> rx_word EFFECT_RE w" if eq: "(c # u) @ v = w @ z" for w z
  proof
    assume "rx_word EFFECT_RE w"
    then consider ds where "list_all is_digit ds" "w = CHR ''x'' # ds @ ''=''"
      | ds where "list_all is_digit ds" "w = CHR ''f'' # ds @ ''=''" | "w = ''mem[''"
      by (auto simp: EFFECT_word)
    then show False
    proof cases
      case (2 ds)
      have f: "is_hex CHR ''f''" by (simp add: is_hex_code)
      with 2 have "list_all is_hex (CHR ''f'' # ds)" using digits_hex by simp
      from skip [OF this, of "''='' @ z"] skip [OF Cons.prems(1), of v] eq 2 f have "dropWhile is_hex v = CHR ''='' # z" by simp
      with Cons.prems(2) show False by (cases v) auto
    qed (use eq Cons.prems(1) in auto)
  qed
  with Cons show ?case by (simp add: quiet_Cons)
qed simp

lemma effect_quiet_csr:
  assumes "v = [] \<or> hd v = CHR '' ''"
  shows "quiet EFFECT_RE (CHR '' '' # effect_text (CsrWrite a x)) v"
proof -
  have "quiet EFFECT_RE '' csr['' w" for w by (rule effect_quiet_other) simp
  moreover have "quiet EFFECT_RE (fmt_hex 3 (int a)) ('']='' @ w)" for w by (rule effect_quiet_hex) simp_all
  moreover have "quiet EFFECT_RE '']='' w" for w by (rule effect_quiet_other) simp
  moreover have "quiet EFFECT_RE (fmt_hex 16 (int x)) v" by (rule effect_quiet_hex) (use assms in auto)
  ultimately have "quiet EFFECT_RE ('' csr['' @ fmt_hex 3 (int a) @ '']='' @ fmt_hex 16 (int x)) v"
    by (simp only: quiet_append append_assoc)
  then show ?thesis by simp
qed

lemma effect_quiet_line:
  assumes "list_all is_csr (c_effects c)"
  shows "quiet EFFECT_RE (line_text c) []"
proof -
  have tail: "list_all is_csr es \<Longrightarrow> quiet EFFECT_RE (tail_text effect_text es) []" for es
  proof (induction es)
    case (Cons e es)
    then obtain a x where e: "e = CsrWrite a x" by (cases e) auto
    have "quiet EFFECT_RE (CHR '' '' # effect_text e) (tail_text effect_text es)"
      unfolding e by (rule effect_quiet_csr [OF tail_text_hd])
    with Cons quiet_append [of EFFECT_RE "CHR '' '' # effect_text e"] show ?case by simp
  qed simp
  let ?t = "tail_text effect_text (c_effects c)"
  have "quiet EFFECT_RE (fmt_hex 8 (int (c_instr c))) ?t"
    by (rule effect_quiet_hex) (use tail_text_hd [of effect_text "c_effects c"] in auto)
  moreover have "quiet EFFECT_RE '':'' w" for w by (rule effect_quiet_other) simp
  moreover have "quiet EFFECT_RE (fmt_hex 16 (int (c_pc c))) ('':'' @ w)" for w by (rule effect_quiet_hex) simp_all
  ultimately show ?thesis
    unfolding line_text_tail head_text_def append_assoc quiet_append using tail [OF assms] by simp
qed

lemma has_effect_line:
  assumes "commit_ok c"
  shows "has_effect (line_text c) \<longleftrightarrow> list_ex observable (c_effects c)"
proof (cases "list_ex observable (c_effects c)")
  case False
  then have "list_all is_csr (c_effects c)" by (auto simp: list_ex_iff list_all_iff observable_def)
  from search_quiet [OF effect_quiet_line [OF this], of "[]"] False show ?thesis
    by (simp add: has_effect_def re_search_def EFFECT_word)
next
  case True
  then obtain e where e: "e \<in> set (c_effects c)" "observable e" by (auto simp: list_ex_iff)
  obtain u w where line: "line_text c = u @ effect_text e @ w" by (rule line_text_split [OF e(1)])
  have hit: "first (seqs [chr k, digits, chr CHR ''='']) (b, k # str_int (int n) @ CHR ''='' # t, g) \<noteq> None" for k b n t g
  proof -
    have "\<exists>st. first (seqs [chr k, digits, chr CHR ''='']) (b, k # str_int (int n) @ CHR ''='' # t, g) = Some st"
      unfolding digits_def
      by (rule exI, rule first_seqs(2) [OF first_chr], rule first_seqs(2) [OF first_plus_Cls], simp, simp, simp,
         rule first_seqs(2) [OF first_chr], rule first_seqs(1))
    then show ?thesis by auto
  qed
  have alt1: "first r1 st \<noteq> None \<Longrightarrow> first (Alt r1 r2) st \<noteq> None"
    and alt2: "first r2 st \<noteq> None \<Longrightarrow> first (Alt r1 r2) st \<noteq> None" for r1 r2 st
    by (auto simp: first_None)
  have "first EFFECT_RE (rev u, effect_text e @ w, []) \<noteq> None"
  proof (cases e)
    case (XWrite n v)
    show ?thesis unfolding EFFECT_RE_def alts.simps by (rule alt1) (use XWrite hit [of "CHR ''x''"] in simp)
  next
    case (FWrite n v)
    show ?thesis unfolding EFFECT_RE_def alts.simps by (rule alt2, rule alt1) (use FWrite hit [of "CHR ''f''"] in simp)
  next
    case (MemWrite a v)
    show ?thesis unfolding EFFECT_RE_def alts.simps
      by (rule alt2, rule alt2, rule alt1) (use MemWrite first_lit [of "''mem[''"] in simp)
  qed (use e(2) in \<open>simp add: observable_def\<close>)
  with search_found [of EFFECT_RE u "[]" "effect_text e @ w"] True show ?thesis
    by (simp add: has_effect_def re_search_def line)
qed

lemma kept_ok: "commit_ok c \<Longrightarrow> commit_ok (c\<lparr>c_effects := filter P (c_effects c)\<rparr>)"
  by (auto simp: commit_ok_def list_all_iff)

lemma strip_ignored_commit:
  assumes "commit_ok c"
  shows "strip_ignored (line_text c) sn =
    (let ks = filter (kept (c_instr c)) (c_effects c) in
     if (sn \<or> list_ex is_mem (c_effects c)) \<and> \<not> list_ex observable ks then [] else line_text (c\<lparr>c_effects := ks\<rparr>))"
  using cleaned_line [OF assms] has_effect_line [OF kept_ok [OF assms], of "kept (c_instr c)"] search_MEM [OF assms]
  by (simp add: strip_ignored_def Let_def)

section \<open>Properties\<close>

definition diff_argv :: "string \<Rightarrow> bool \<Rightarrow> string \<Rightarrow> string \<Rightarrow> string list" where
  "diff_argv prog sn ka sb = prog # (if sn then [''--strip-noeffect''] else []) @ [ka, sb]"

lemma trace_diff_main_files:
  assumes "ka \<noteq> ''--strip-noeffect''" and "sb \<noteq> ''--strip-noeffect''"
  shows "trace_diff_main (diff_argv prog sn ka sb) fs =
    bindR (load_trace fs ka sn) (\<lambda>a. bindR (load_trace fs sb sn) (\<lambda>b. Inr (compare_traces a b)))"
  using assms by (cases sn) (simp_all add: trace_diff_main_def diff_argv_def)

lemma agrees_refl: "a \<noteq> [] \<Longrightarrow> agrees a a"
  by (cases a) (auto simp: agrees_def aligned_def first_at_def intro!: exI [of _ 0])

text \<open>
  C19. The comparison's verdict is exact: it exits 0, silently, if and only if the core's trace is not
  empty and its lines, without the encodings, are a final segment of the reference trace, the one that
  begins where the core's first line is found.
\<close>

theorem trace_diff_verdict:
  assumes "ka \<noteq> ''--strip-noeffect''" and "sb \<noteq> ''--strip-noeffect''"
    and "load_trace fs ka sn = Inr a" and "load_trace fs sb sn = Inr b"
  shows "\<exists>out. trace_diff_main (diff_argv prog sn ka sb) fs = Inr out
    \<and> (returncode out = 0) = agrees a b \<and> (agrees a b \<longrightarrow> stdout out = [] \<and> stderr out = [])"
  using compare_traces_iff [of a b] compare_traces_silent [of a b]
  by (auto simp: trace_diff_main_files [OF assms(1,2)] assms(3,4))

theorem trace_diff_verdict_witness:
  "\<exists>out. trace_diff_main (diff_argv ''trace_diff.py'' False ''k'' ''s'')
      [''k'' \<mapsto> ''1:13'', ''s'' \<mapsto> ''1:13''] = Inr out
    \<and> (returncode out = 0) = agrees [''1:13''] [''1:13'']
    \<and> (agrees [''1:13''] [''1:13''] \<longrightarrow> stdout out = [] \<and> stderr out = [])"
proof -
  let ?fs = "[''k'' \<mapsto> ''1:13'', ''s'' \<mapsto> ''1:13'']"
  have load: "load_lines False (splitlines (universal_newlines ''1:13'')) = [''1:13'']" by code_simp
  have "load_trace ?fs ''k'' False = Inr [''1:13'']" "load_trace ?fs ''s'' False = Inr [''1:13'']"
    using load by (simp_all add: load_trace_def read_text_def)
  from trace_diff_verdict [OF _ _ this, of "''trace_diff.py''"] show ?thesis by simp
qed

text \<open>
  Nothing after the halt sentinel matters: two traces with the same lines up to a line that writes
  the halt address compare equal whatever follows it in either, and the comparison is silent.
\<close>

lemma trace_diff_halt:
  assumes "ka \<noteq> ''--strip-noeffect''" and "sb \<noteq> ''--strip-noeffect''"
    and "fs ka = Some (unlines (xs @ h # ys))" and "fs sb = Some (unlines (xs @ h # zs))"
    and "\<forall>l \<in> set (xs @ h # ys @ zs). list_all (\<lambda>c. \<not> line_break c) l"
    and "contains HALT_SENTINEL (strip h)" and "load_lines sn xs \<noteq> []"
  shows "trace_diff_main (diff_argv prog sn ka sb) fs = Inr \<lparr>returncode = 0, stdout = [], stderr = []\<rparr>"
proof -
  have load: "load_trace fs p sn = Inr (load_lines sn xs)"
    if "fs p = Some (unlines (xs @ h # ts))" "\<forall>l \<in> set ts. list_all (\<lambda>c. \<not> line_break c) l" for p ts
  proof -
    have cr: "line_break CHR 0x0D" by (simp add: line_break_def)
    from that(2) assms(5) have lines: "list_all (list_all (\<lambda>c. \<not> line_break c)) (xs @ h # ts)"
      by (auto simp: list_all_iff)
    then have "CHR 0x0D \<notin> set (unlines (xs @ h # ts))"
      using cr by (auto simp: unlines_def list_all_iff)
    then have "read_text fs p = Inr (unlines (xs @ h # ts))"
      using universal_newlines_id by (simp add: read_text_def that(1))
    with splitlines_unlines [OF lines] load_lines_halt [OF assms(6)] show ?thesis by (simp add: load_trace_def)
  qed
  from assms(5) have "load_trace fs ka sn = Inr (load_lines sn xs)" "load_trace fs sb sn = Inr (load_lines sn xs)"
    by (auto intro!: load [OF assms(3)] load [OF assms(4)])
  with compare_traces_silent compare_traces_iff agrees_refl [OF assms(7)] show ?thesis
    by (simp add: trace_diff_main_files [OF assms(1,2)])
qed

text \<open>
  C20. What a line of the trace format becomes: memory writes to the halt word and the signature region
  go, CSR writes go unless the instruction is a Zicsr operation that writes, everything else stays in
  order; and the whole line goes when it has lost its memory effects, or effect-free lines are dropped,
  and no register or memory effect is left (a CSR write does not count as one).
\<close>

theorem strip_ignored_line:
  assumes "commit_ok c"
  shows "strip_ignored (line_text c) sn =
    (let ks = filter (kept (c_instr c)) (c_effects c) in
     if (sn \<or> list_ex is_mem (c_effects c)) \<and> \<not> list_ex observable ks then [] else line_text (c\<lparr>c_effects := ks\<rparr>))"
  using assms by (rule strip_ignored_commit)

theorem strip_ignored_line_witness:
  "strip_ignored (line_text \<lparr>c_pc = 0x80000010, c_instr = 0x300090F3, c_effects = [CsrWrite 0x300 8]\<rparr>) True =
    (let ks = filter (kept 0x300090F3) [CsrWrite 0x300 8] in
     if (True \<or> list_ex is_mem [CsrWrite 0x300 8]) \<and> \<not> list_ex observable ks then []
     else line_text \<lparr>c_pc = 0x80000010, c_instr = 0x300090F3, c_effects = ks\<rparr>)"
  using strip_ignored_line [of "\<lparr>c_pc = 0x80000010, c_instr = 0x300090F3, c_effects = [CsrWrite 0x300 8]\<rparr>" True]
  by (simp add: commit_ok_def Let_def)

lemma trace_diff_halt_witness:
  "trace_diff_main (diff_argv ''trace_diff.py'' False ''k'' ''s'')
      [''k'' \<mapsto> unlines ([''1:13''] @ HALT_SENTINEL # [''2:13'']),
       ''s'' \<mapsto> unlines ([''1:13''] @ HALT_SENTINEL # [])]
    = Inr \<lparr>returncode = 0, stdout = [], stderr = []\<rparr>"
proof (rule trace_diff_halt)
  show "load_lines False [''1:13''] \<noteq> []" by code_simp
  show "contains HALT_SENTINEL (strip HALT_SENTINEL)"
    using strip_halt contains_append [of HALT_SENTINEL "[]" "[]"] by simp
  show "\<forall>l \<in> set ([''1:13''] @ HALT_SENTINEL # [''2:13''] @ []). list_all (\<lambda>c. \<not> line_break c) l"
    using halt_no_break by (simp add: line_break_def)
qed simp_all

end
