(* ===== verification/Sail_Normalize.thy ===== *)
theory Sail_Normalize
  imports Trace_Line
begin

text \<open>
  \<open>tools/sail_trace_normalize.py\<close>: the rewriting of the reference model's trace into the core's
  format. The model prints a commit line per instruction, followed by a line per effect; the tool keeps
  the pending instruction and its lines and writes one line of the trace format when the next commit,
  or the end of the input, arrives.
\<close>

section \<open>Patterns\<close>

definition SAIL_COMMIT_RE :: rx where
  "SAIL_COMMIT_RE = seqs [Bol, lit ''['', Grp 1 digits, lit ''] ['', Cls (\<lambda>c. c \<in> set ''MSU''), lit '']: 0x'',
     Grp 2 hexes, lit '' (0x'', Grp 3 hexes, lit '')'']"

definition REG_WRITE_RE :: rx where
  "REG_WRITE_RE = seqs [Bol, lit ''x'', Grp 1 digits, lit '' <- 0x'', Grp 2 hexes]"

definition FP_WRITE_RE :: rx where
  "FP_WRITE_RE = seqs [Bol, lit ''f'', Grp 1 digits, lit '' <- 0x'', Grp 2 hexes]"

definition MEM_WRITE_RE :: rx where
  "MEM_WRITE_RE = seqs [Bol, lit ''mem[W,0x'', Grp 1 hexes, lit ''] <- 0x'', Grp 2 hexes]"

definition CSR_WRITE_RE :: rx where
  "CSR_WRITE_RE = seqs [Bol, lit ''CSR '', plus_rx (Cls (\<lambda>c. \<not> is_space c)), lit '' (0x'', Grp 1 hexes,
     lit '') <- 0x'', Grp 2 hexes]"

section \<open>The tool\<close>

text \<open>One round of \<open>_flush\<close>'s loop: what an effect line adds to the parts.\<close>

definition effect_part :: "string \<Rightarrow> string list" where
  "effect_part l =
     (case re_match REG_WRITE_RE l of
        Some m \<Rightarrow> (let n = dec_value (group m 1); v = hex_value (group m 2) in
          if n \<noteq> 0 then [''x'' @ str_int (int n) @ ''='' @ fmt_hex 16 (int v)] else [])
      | None \<Rightarrow>
      (case re_match FP_WRITE_RE l of
        Some m \<Rightarrow> (let n = dec_value (group m 1); v = hex_value (group m 2) in
          [''f'' @ str_int (int n) @ ''='' @ fmt_hex 16 (int v)])
      | None \<Rightarrow>
      (case re_match MEM_WRITE_RE l of
        Some m \<Rightarrow> (let a = hex_value (group m 1); v = hex_value (group m 2) in
          [''mem['' @ fmt_hex 16 (int a) @ '']='' @ fmt_hex 16 (int v)])
      | None \<Rightarrow>
      (case re_match CSR_WRITE_RE l of
        Some m \<Rightarrow> (let a = hex_value (group m 1); v = hex_value (group m 2) in
          [''csr['' @ fmt_hex 3 (int a) @ '']='' @ fmt_hex 16 (int v)])
      | None \<Rightarrow> []))))"

definition flush :: "nat \<times> nat \<times> string list \<Rightarrow> string" where
  "flush p = (case p of (pc, instr, effects) \<Rightarrow>
     join '' '' ((fmt_hex 16 (int pc) @ '':'' @ fmt_hex 8 (int instr)) # concat (map effect_part effects)))"

text \<open>\<open>main\<close>'s loop: the pending instruction and the lines printed so far.\<close>

type_synonym pending = "(nat \<times> nat \<times> string list) option"

definition flush_pending :: "pending \<Rightarrow> string list" where
  "flush_pending p = (case p of None \<Rightarrow> [] | Some q \<Rightarrow> [flush q])"

definition norm_step :: "string \<Rightarrow> pending \<Rightarrow> string list \<times> pending" where
  "norm_step line p =
     (case re_match SAIL_COMMIT_RE line of
        Some m \<Rightarrow> (flush_pending p, Some (hex_value (group m 2), hex_value (group m 3), []))
      | None \<Rightarrow> ([], case p of None \<Rightarrow> None | Some (pc, instr, effects) \<Rightarrow> Some (pc, instr, effects @ [line])))"

fun norm_loop :: "string list \<Rightarrow> pending \<Rightarrow> string list" where
  "norm_loop [] p = flush_pending p"
| "norm_loop (raw # rest) p =
     (let line = rev (dropWhile (\<lambda>c. c = CHR 0x0A) (rev raw)) in
      case norm_step line p of (out, p') \<Rightarrow> out @ norm_loop rest p')"

definition sail_normalize_main :: "string \<Rightarrow> completed" where
  "sail_normalize_main stdin =
     \<lparr>returncode = 0, stdout = unlines (norm_loop (file_lines (universal_newlines stdin)) None), stderr = []\<rparr>"

section \<open>The model's trace as data\<close>

text \<open>
  A commit as the reference model prints it: step number, privilege mode, disassembly, and the lines
  that follow, which are effects (a CSR's with its name) or anything no pattern recognises.
\<close>

datatype sail_line = Effect effect string | Other string

record sail_commit =
  s_step :: nat
  s_mode :: char
  s_pc :: nat
  s_instr :: nat
  s_disasm :: string
  s_lines :: "sail_line list"

fun sail_line_text :: "sail_line \<Rightarrow> string" where
  "sail_line_text (Effect (XWrite n v) name) = ''x'' @ nat_digits 10 n @ '' <- 0x'' @ fmt_hex 16 (int v)"
| "sail_line_text (Effect (FWrite n v) name) = ''f'' @ nat_digits 10 n @ '' <- 0x'' @ fmt_hex 16 (int v)"
| "sail_line_text (Effect (MemWrite a v) name) = ''mem[W,0x'' @ fmt_hex 16 (int a) @ ''] <- 0x'' @ fmt_hex 16 (int v)"
| "sail_line_text (Effect (CsrWrite a v) name) =
     ''CSR '' @ name @ '' (0x'' @ fmt_hex 3 (int a) @ '') <- 0x'' @ fmt_hex 16 (int v)"
| "sail_line_text (Other l) = l"

definition sail_lines :: "sail_commit \<Rightarrow> string list" where
  "sail_lines s = (''['' @ nat_digits 10 (s_step s) @ ''] ['' @ s_mode s # '']: 0x'' @ fmt_hex 16 (int (s_pc s))
     @ '' (0x'' @ fmt_hex 8 (int (s_instr s)) @ '')'' @ s_disasm s) # map sail_line_text (s_lines s)"

definition one_line :: "string \<Rightarrow> bool" where
  "one_line l \<longleftrightarrow> CHR 0x0A \<notin> set l \<and> CHR 0x0D \<notin> set l"

fun sail_line_ok :: "sail_line \<Rightarrow> bool" where
  "sail_line_ok (Effect e name) \<longleftrightarrow> name \<noteq> [] \<and> no_space name"
| "sail_line_ok (Other l) \<longleftrightarrow> one_line l \<and> re_match SAIL_COMMIT_RE l = None \<and> effect_part l = []"

definition sail_ok :: "sail_commit \<Rightarrow> bool" where
  "sail_ok s \<longleftrightarrow> s_mode s \<in> set ''MSU'' \<and> one_line (s_disasm s) \<and> list_all sail_line_ok (s_lines s)"

text \<open>The commit it stands for: writes to register 0 are no effect.\<close>

fun line_effects :: "sail_line \<Rightarrow> effect list" where
  "line_effects (Effect (XWrite n v) name) = (if n = 0 then [] else [XWrite n v])"
| "line_effects (Effect e name) = [e]"
| "line_effects (Other l) = []"

definition commit_of :: "sail_commit \<Rightarrow> commit" where
  "commit_of s = \<lparr>c_pc = s_pc s, c_instr = s_instr s, c_effects = concat (map line_effects (s_lines s))\<rparr>"

section \<open>Matching the lines\<close>

lemma match_first:
  "first r ([], l, []) = Some (b, v, g) \<Longrightarrow> \<exists>m. re_match r l = Some m \<and> m_groups m = g"
  by (simp add: re_match_def match_at_first)


lemma no_match_hd:
  "l = [] \<or> hd l \<noteq> c \<Longrightarrow> re_match (seqs (Bol # lit (c # cs) # rs)) l = None"
  unfolding re_match_def by (rule no_word_no_match) auto

lemma match_number_hex:
  assumes "list_all P n" "n \<noteq> []" "\<not> P (hd mid)" "mid \<noteq> []" "list_all is_hex v" "v \<noteq> []"
  shows "\<exists>m. re_match (seqs [Bol, lit p, Grp 1 (plus_rx (Cls P)), lit mid, Grp 2 hexes]) (p @ n @ mid @ v) = Some m
    \<and> group m 1 = n \<and> group m 2 = v"
proof -
  have "\<exists>b. first (seqs [Bol, lit p, Grp 1 (plus_rx (Cls P)), lit mid, Grp 2 hexes]) ([], p @ n @ mid @ v @ [], [])
      = Some (b, [], [(2, v), (1, n)])"
    unfolding hexes_def
    by (rule exI, rule first_seqs(2) [OF first_Bol], rule first_seqs(2) [OF first_lit],
        rule first_seqs(2) [OF first_Grp [OF first_plus_Cls]], use assms in simp, use assms in simp, use assms in simp,
        rule first_seqs(2) [OF first_lit],
        rule first_seqs(2) [OF first_Grp [OF first_plus_Cls]], use assms in simp, use assms in simp, use assms in simp,
        rule first_seqs(1))
  with match_first show ?thesis by (fastforce simp: group_def)
qed

lemma match_csr:
  assumes "name \<noteq> []" "no_space name" "list_all is_hex a" "a \<noteq> []" "list_all is_hex v" "v \<noteq> []"
  shows "\<exists>m. re_match CSR_WRITE_RE (''CSR '' @ name @ '' (0x'' @ a @ '') <- 0x'' @ v) = Some m
    \<and> group m 1 = a \<and> group m 2 = v"
proof -
  have "\<exists>b. first CSR_WRITE_RE ([], ''CSR '' @ name @ '' (0x'' @ a @ '') <- 0x'' @ v @ [], []) = Some (b, [], [(2, v), (1, a)])"
    unfolding hexes_def CSR_WRITE_RE_def
    by (rule exI, rule first_seqs(2) [OF first_Bol], rule first_seqs(2) [OF first_lit],
        rule first_seqs(2) [OF first_plus_Cls], use assms in \<open>simp add: no_space_def\<close>, use assms in simp, use assms in simp,
        rule first_seqs(2) [OF first_lit],
        rule first_seqs(2) [OF first_Grp [OF first_plus_Cls]], use assms in simp, use assms in simp, use assms in simp,
        rule first_seqs(2) [OF first_lit],
        rule first_seqs(2) [OF first_Grp [OF first_plus_Cls]], use assms in simp, use assms in simp, use assms in simp,
        rule first_seqs(1))
  with match_first show ?thesis by (fastforce simp: group_def)
qed

lemma match_commit:
  assumes "list_all is_digit n" "n \<noteq> []" "mode \<in> set ''MSU''" "list_all is_hex p" "p \<noteq> []" "list_all is_hex i" "i \<noteq> []"
  shows "\<exists>m. re_match SAIL_COMMIT_RE (''['' @ n @ ''] ['' @ mode # '']: 0x'' @ p @ '' (0x'' @ i @ '')'' @ d) = Some m
    \<and> group m 2 = p \<and> group m 3 = i"
proof -
  have "\<exists>b. first SAIL_COMMIT_RE ([], ''['' @ n @ ''] ['' @ mode # '']: 0x'' @ p @ '' (0x'' @ i @ '')'' @ d, [])
      = Some (b, d, [(3, i), (2, p), (1, n)])"
    unfolding SAIL_COMMIT_RE_def hexes_def digits_def
    by (rule exI, rule first_seqs(2) [OF first_Bol], rule first_seqs(2) [OF first_lit],
        rule first_seqs(2) [OF first_Grp [OF first_plus_Cls]], use assms in simp, use assms in simp, use assms in simp,
        rule first_seqs(2) [OF first_lit], rule first_seqs(2) [OF first_Cls], use assms in simp,
        rule first_seqs(2) [OF first_lit],
        rule first_seqs(2) [OF first_Grp [OF first_plus_Cls]], use assms in simp, use assms in simp, use assms in simp,
        rule first_seqs(2) [OF first_lit],
        rule first_seqs(2) [OF first_Grp [OF first_plus_Cls]], use assms in simp, use assms in simp, use assms in simp,
        rule first_seqs(2) [OF first_lit], rule first_seqs(1))
  with match_first show ?thesis by (fastforce simp: group_def)
qed

lemma nat_digits_digit [simp]: "list_all is_digit (nat_digits 10 n)"
  by (rule nat_digits_dec)

lemma str_int_nat: "str_int (int n) = nat_digits 10 n"
  by (simp add: str_int_def)

lemma no_x: "l = [] \<or> hd l \<noteq> CHR ''x'' \<Longrightarrow> re_match REG_WRITE_RE l = None"
  and no_f: "l = [] \<or> hd l \<noteq> CHR ''f'' \<Longrightarrow> re_match FP_WRITE_RE l = None"
  and no_mem: "l = [] \<or> hd l \<noteq> CHR ''m'' \<Longrightarrow> re_match MEM_WRITE_RE l = None"
  and no_commit: "l = [] \<or> hd l \<noteq> CHR ''['' \<Longrightarrow> re_match SAIL_COMMIT_RE l = None"
  unfolding REG_WRITE_RE_def FP_WRITE_RE_def MEM_WRITE_RE_def SAIL_COMMIT_RE_def by (rule no_match_hd, simp)+

lemma effect_part_line:
  assumes "sail_line_ok s"
  shows "effect_part (sail_line_text s) = map effect_text (line_effects s)"
proof (cases s)
  case (Effect e name)
  show ?thesis
  proof (cases e)
    case (XWrite n v)
    have "\<exists>m. re_match REG_WRITE_RE (sail_line_text s) = Some m \<and> group m 1 = nat_digits 10 n \<and> group m 2 = fmt_hex 16 (int v)"
      using match_number_hex [of is_digit "nat_digits 10 n" "'' <- 0x''" "fmt_hex 16 (int v)" "''x''"]
      by (simp add: REG_WRITE_RE_def digits_def Effect XWrite)
    then show ?thesis by (auto simp: effect_part_def Effect XWrite str_int_nat Let_def)
  next
    case (FWrite n v)
    have "\<exists>m. re_match FP_WRITE_RE (sail_line_text s) = Some m \<and> group m 1 = nat_digits 10 n \<and> group m 2 = fmt_hex 16 (int v)"
      using match_number_hex [of is_digit "nat_digits 10 n" "'' <- 0x''" "fmt_hex 16 (int v)" "''f''"]
      by (simp add: FP_WRITE_RE_def digits_def Effect FWrite)
    moreover have "re_match REG_WRITE_RE (sail_line_text s) = None" by (rule no_x) (simp add: Effect FWrite)
    ultimately show ?thesis by (auto simp: effect_part_def Effect FWrite str_int_nat Let_def)
  next
    case (MemWrite a v)
    have "\<exists>m. re_match MEM_WRITE_RE (sail_line_text s) = Some m \<and> group m 1 = fmt_hex 16 (int a) \<and> group m 2 = fmt_hex 16 (int v)"
      using match_number_hex [of is_hex "fmt_hex 16 (int a)" "''] <- 0x''" "fmt_hex 16 (int v)" "''mem[W,0x''"]
      by (simp add: MEM_WRITE_RE_def hexes_def Effect MemWrite)
    moreover have "re_match REG_WRITE_RE (sail_line_text s) = None" "re_match FP_WRITE_RE (sail_line_text s) = None"
      by (rule no_x no_f, simp add: Effect MemWrite)+
    ultimately show ?thesis by (auto simp: effect_part_def Effect MemWrite Let_def)
  next
    case (CsrWrite a v)
    have "\<exists>m. re_match CSR_WRITE_RE (sail_line_text s) = Some m \<and> group m 1 = fmt_hex 3 (int a) \<and> group m 2 = fmt_hex 16 (int v)"
      using match_csr [of name "fmt_hex 3 (int a)" "fmt_hex 16 (int v)"] assms by (simp add: Effect CsrWrite)
    moreover have "re_match REG_WRITE_RE (sail_line_text s) = None" "re_match FP_WRITE_RE (sail_line_text s) = None"
      "re_match MEM_WRITE_RE (sail_line_text s) = None"
      by (rule no_x no_f no_mem, simp add: Effect CsrWrite)+
    ultimately show ?thesis by (auto simp: effect_part_def Effect CsrWrite Let_def)
  qed
qed (use assms in simp)

lemma line_no_commit:
  assumes "sail_line_ok s"
  shows "re_match SAIL_COMMIT_RE (sail_line_text s) = None"
proof (cases s)
  case (Effect e name)
  show ?thesis by (rule no_commit) (cases e; simp add: Effect)
qed (use assms in simp)

text \<open>Characters of the raw lines.\<close>

lemma no_space_one_line: "no_space w \<Longrightarrow> one_line w"
proof -
  have "is_space CHR 0x0A" "is_space CHR 0x0D" by (simp_all add: is_space_def)
  then show "no_space w \<Longrightarrow> one_line w" by (auto simp: no_space_def one_line_def list_all_iff)
qed

lemma one_line_simps [simp]:
  "one_line []" "one_line (c # w) \<longleftrightarrow> c \<noteq> CHR 0x0A \<and> c \<noteq> CHR 0x0D \<and> one_line w"
  "one_line (u @ w) \<longleftrightarrow> one_line u \<and> one_line w"
  by (auto simp: one_line_def)

lemma number_one_line [simp]: "one_line (nat_digits 10 n)" "one_line (fmt_hex w (int n))"
  by (rule no_space_one_line, simp add: digits_hex)+

lemma sail_line_one_line: "sail_line_ok s \<Longrightarrow> one_line (sail_line_text s)"
  by (cases s rule: sail_line_text.cases) (simp_all add: no_space_one_line)

lemma sail_lines_one_line:
  assumes "sail_ok s" and "l \<in> set (sail_lines s)"
  shows "one_line l"
proof -
  from assms(1) have "one_line (hd (sail_lines s))" by (auto simp: sail_ok_def sail_lines_def)
  moreover have "\<forall>x \<in> set (s_lines s). one_line (sail_line_text x)"
    using assms(1) sail_line_one_line by (auto simp: sail_ok_def list_all_iff)
  ultimately show ?thesis using assms(2) by (auto simp: sail_lines_def)
qed

text \<open>The loop, without the newline handling.\<close>

fun norm_lines :: "string list \<Rightarrow> pending \<Rightarrow> string list" where
  "norm_lines [] p = flush_pending p"
| "norm_lines (line # rest) p = fst (norm_step line p) @ norm_lines rest (snd (norm_step line p))"

lemma norm_loop_lines:
  "\<forall>l \<in> set ls. one_line l \<Longrightarrow> norm_loop (map (\<lambda>l. l @ [CHR 0x0A]) ls) p = norm_lines ls p"
proof (induction ls arbitrary: p)
  case (Cons l ls)
  have "dropWhile (\<lambda>c. c = CHR 0x0A) (rev l) = rev l"
    using Cons.prems by (cases "rev l") (auto simp: one_line_def dest: arg_cong [of _ _ set])
  then have "rev (dropWhile (\<lambda>c. c = CHR 0x0A) (rev l)) = l" by simp
  with Cons show ?case by (simp add: Let_def split: prod.split)
qed simp

lemma norm_lines_effects:
  assumes "list_all sail_line_ok ls"
  shows "norm_lines (map sail_line_text ls @ rest) (Some (pc, i, es)) = norm_lines rest (Some (pc, i, es @ map sail_line_text ls))"
  using assms by (induction ls arbitrary: es) (simp_all add: norm_step_def line_no_commit)

lemma flush_effects:
  assumes "list_all sail_line_ok ls"
  shows "flush (pc, i, map sail_line_text ls) = line_text \<lparr>c_pc = pc, c_instr = i, c_effects = concat (map line_effects ls)\<rparr>"
proof -
  have "concat (map effect_part (map sail_line_text ls)) = map effect_text (concat (map line_effects ls))"
    using assms by (induction ls) (simp_all add: effect_part_line)
  then show ?thesis by (simp add: flush_def line_text_def head_text_def)
qed

lemma norm_lines_commits:
  assumes "list_all sail_ok ss"
  shows "norm_lines (concat (map sail_lines ss)) p = flush_pending p @ map (line_text \<circ> commit_of) ss"
  using assms
proof (induction ss arbitrary: p)
  case (Cons s ss)
  let ?l = "hd (sail_lines s)" and ?es = "map sail_line_text (s_lines s)"
  from Cons.prems have ok: "list_all sail_line_ok (s_lines s)" "s_mode s \<in> set ''MSU''" by (simp_all add: sail_ok_def)
  have "\<exists>m. re_match SAIL_COMMIT_RE ?l = Some m \<and> group m 2 = fmt_hex 16 (int (s_pc s)) \<and> group m 3 = fmt_hex 8 (int (s_instr s))"
    using match_commit [of "nat_digits 10 (s_step s)" "s_mode s" "fmt_hex 16 (int (s_pc s))" "fmt_hex 8 (int (s_instr s))"] ok(2)
    by (simp add: sail_lines_def)
  then have step: "norm_step ?l p = (flush_pending p, Some (s_pc s, s_instr s, []))" by (auto simp: norm_step_def)
  have "concat (map sail_lines (s # ss)) = ?l # ?es @ concat (map sail_lines ss)" by (simp add: sail_lines_def)
  then have "norm_lines (concat (map sail_lines (s # ss))) p = norm_lines (?l # ?es @ concat (map sail_lines ss)) p"
    by (simp only:)
  also have "... = flush_pending p @ norm_lines (concat (map sail_lines ss)) (Some (s_pc s, s_instr s, ?es))"
    using norm_lines_effects [OF ok(1), of "concat (map sail_lines ss)" "s_pc s" "s_instr s" "[]"] by (simp add: step)
  finally show ?case using Cons by (simp add: flush_pending_def flush_effects [OF ok(1)] commit_of_def)
qed simp

lemma normalize_commits:
  assumes "list_all sail_ok ss" and "\<forall>l \<in> set pre. one_line l \<and> re_match SAIL_COMMIT_RE l = None"
  shows "sail_normalize_main (unlines (pre @ concat (map sail_lines ss))) =
    \<lparr>returncode = 0, stdout = unlines (map (line_text \<circ> commit_of) ss), stderr = []\<rparr>"
proof -
  let ?ls = "pre @ concat (map sail_lines ss)"
  have lines: "\<forall>l \<in> set ?ls. one_line l" using assms sail_lines_one_line by (auto simp: list_all_iff)
  have "CHR 0x0D \<notin> set (unlines ?ls)" using lines by (auto simp: unlines_def one_line_def)
  then have id: "universal_newlines (unlines ?ls) = unlines ?ls" by (rule universal_newlines_id)
  from lines have "\<forall>l \<in> set ?ls. CHR 0x0A \<notin> set l" by (auto simp: one_line_def)
  then have split: "file_lines (unlines ?ls) = map (\<lambda>l. l @ [CHR 0x0A]) ?ls" by (rule file_lines_unlines)
  have "norm_loop (file_lines (universal_newlines (unlines ?ls))) None = norm_lines ?ls None"
    unfolding id split by (rule norm_loop_lines [OF lines])
  also have "... = norm_lines (concat (map sail_lines ss)) None"
    using assms(2) by (induction pre) (simp_all add: norm_step_def)
  finally show ?thesis using norm_lines_commits [OF assms(1)] by (simp add: sail_normalize_main_def flush_pending_def)
qed

section \<open>Properties\<close>

text \<open>
  C21. The tool turns the reference model's trace into one line of the trace format per commit, in order,
  with the commit's effects in order; writes to register 0 and lines that are not effects leave no
  trace, and neither does anything before the first commit.
\<close>

theorem sail_normalize_trace:
  assumes "list_all sail_ok ss" and "\<forall>l \<in> set pre. one_line l \<and> re_match SAIL_COMMIT_RE l = None"
  shows "sail_normalize_main (unlines (pre @ concat (map sail_lines ss))) =
    \<lparr>returncode = 0, stdout = unlines (map (line_text \<circ> commit_of) ss), stderr = []\<rparr>"
  using assms by (rule normalize_commits)

theorem sail_normalize_trace_witness:
  "sail_normalize_main (unlines ([''boot''] @ concat (map sail_lines
      [\<lparr>s_step = 7, s_mode = CHR ''M'', s_pc = 0x80000000, s_instr = 0x13, s_disasm = '' nop'',
        s_lines = [Effect (XWrite 0 5) ''-'', Effect (CsrWrite 0x300 8) ''mstatus'']\<rparr>]))) =
    \<lparr>returncode = 0, stdout = unlines (map (line_text \<circ> commit_of)
      [\<lparr>s_step = 7, s_mode = CHR ''M'', s_pc = 0x80000000, s_instr = 0x13, s_disasm = '' nop'',
        s_lines = [Effect (XWrite 0 5) ''-'', Effect (CsrWrite 0x300 8) ''mstatus'']\<rparr>]), stderr = []\<rparr>"
  by (rule sail_normalize_trace) (simp_all add: sail_ok_def no_commit is_space_def)

end
