(* ===== verification/Trace_Refine.thy ===== *)
theory Trace_Refine imports Trace_Diff Sail_Normalize
begin

text \<open>
  The two trace tools together, against a specification on data: normalizing the reference model's
  trace and comparing it with the core's decides whether the two executions agree as sequences of
  commits (\<open>commits_agree\<close>), with the effects neither side reports alike removed (\<open>trace_view\<close>).
\<close>


section \<open>The parts of a line are determined by its text\<close>

lemma fmt_hex_inj: "fmt_hex w (int m) = fmt_hex w (int n) \<Longrightarrow> m = n"
  using hex_value_fmt by metis

lemma dec_value_str_int [simp]: "dec_value (str_int (int n)) = n"
  by (simp add: str_int_def)

lemma str_int_inj: "str_int (int m) = str_int (int n) \<Longrightarrow> m = n"
  using dec_value_str_int by metis

lemma append_sep: "c \<notin> set u \<Longrightarrow> c \<notin> set u' \<Longrightarrow> u @ c # v = u' @ c # v' \<longleftrightarrow> u = u' \<and> v = v'"
proof (induction u arbitrary: u')
  case Nil
  then show ?case by (cases u') auto
next
  case (Cons d u)
  then show ?case by (cases u') auto
qed

lemma strip_join:
  assumes "list_all (\<lambda>w. w \<noteq> [] \<and> no_space w) ws"
  shows "strip (join '' '' ws) = join '' '' ws"
proof -
  have r: "rstrip (join '' '' ws) = join '' '' ws"
    using assms
  proof (induction ws)
    case (Cons w ws)
    show ?case
    proof (cases "ws = []")
      case False
      with Cons.prems have "join '' '' ws \<noteq> []" by (intro join_nonempty) (auto simp: list_all_iff)
      with Cons have "rstrip (join '' '' ws) \<noteq> []" by simp
      from rstrip_append [OF this, of "w @ '' ''"] Cons False show ?thesis by (simp add: join_Cons)
    qed (use Cons.prems rstrip_word [of w "[]"] in simp)
  qed (simp add: rstrip_def)
  have "lstrip (join '' '' ws) = join '' '' ws"
  proof (cases ws)
    case (Cons w ws')
    with assms obtain c w' where "w = c # w'" "\<not> is_space c" by (cases w) auto
    with Cons show ?thesis by (cases "ws' = []") (simp_all add: lstrip_def join_Cons)
  qed (simp add: lstrip_def)
  with r show ?thesis by (simp add: strip_def)
qed

lemma effect_text_inj: "effect_text e = effect_text f \<Longrightarrow> e = f"
  by (cases e; cases f) (auto simp: append_sep dest: fmt_hex_inj str_int_inj)

lemma tail_text_inj: "tail_text effect_text es = tail_text effect_text fs \<Longrightarrow> es = fs"
proof -
  assume "tail_text effect_text es = tail_text effect_text fs"
  then have "filter (\<lambda>w. w \<noteq> []) (map effect_text es) = filter (\<lambda>w. w \<noteq> []) (map effect_text fs)"
    using split_ws_tail [of es effect_text] split_ws_tail [of fs effect_text] by simp
  then have "map effect_text es = map effect_text fs" by (simp add: filter_map o_def)
  then show ?thesis using effect_text_inj by (metis inj_onI list.inj_map_strong)
qed

lemma pc_instr_line: "pc_instr (line_text c) = head_text (c_pc c) (c_instr c)"
proof -
  have h: "CHR '' '' \<notin> set (head_text pc i)" for pc i by (simp add: head_text_def)
  show ?thesis
  proof (cases "c_effects c")
    case Nil
    then show ?thesis using split_once_no_sep [OF h] by (simp add: pc_instr_def line_text_tail)
  next
    case (Cons e es)
    then show ?thesis using split_once_append [OF h] by (simp add: pc_instr_def line_text_tail)
  qed
qed

lemma pc_of_line: "pc_of (line_text c) = fmt_hex 16 (int (c_pc c))"
  using split_once_append [of "CHR '':''" "fmt_hex 16 (int (c_pc c))"]
  by (simp add: pc_of_def line_text_tail head_text_def)

lemma for_compare_line:
  assumes "commit_ok c"
  shows "for_compare (line_text c) = fmt_hex 16 (int (c_pc c)) @ tail_text effect_text (c_effects c)"
proof -
  let ?p = "fmt_hex 16 (int (c_pc c))" and ?i = "fmt_hex 8 (int (c_instr c))" and ?t = "tail_text effect_text (c_effects c)"
  have nl: "list_all (\<lambda>c. c \<noteq> CHR 0x0A) (effect_text e)" for e
  proof -
    have "is_space CHR 0x0A" by (simp add: is_space_def)
    with effect_text_no_space [of e] show ?thesis by (auto simp: no_space_def list_all_iff)
  qed
  have t: "list_all (\<lambda>c. c \<noteq> CHR 0x0A) (tail_text effect_text es)" for es
    using nl by (induction es) simp_all
  have p: "list_all is_hex ?p" "length ?p = 16" and i: "list_all is_hex ?i" "length ?i = 8"
    using assms by (simp_all add: commit_ok_def)
  have "\<exists>b. first PC_RE ([], ?p @ '':'' @ ?i @ ?t @ [], []) = Some (b, [], [(2, ?t), (1, ?p)])"
    unfolding PC_RE_def hexn_def
    by (rule exI, rule first_seqs(2) [OF first_Bol], rule first_seqs(2) [OF first_Grp [OF first_rep_Cls [OF p]]],
        simp only: append.simps, rule first_seqs(2) [OF first_chr], rule first_seqs(2) [OF first_rep_Cls [OF i]],
        rule first_seqs(2) [OF first_Grp [OF first_Star_Cls]], rule t, simp, rule first_seqs(1))
  then have "for_compare (line_text c) = strip (?p @ ?t)"
    by (auto simp: for_compare_def re_match_def match_at_first line_text_tail head_text_def group_def)
  also have "?p @ ?t = join '' '' (?p # map effect_text (c_effects c))" by (simp add: join_tail)
  also have "strip ... = ..."
  proof (rule strip_join)
    have "no_space ?p" by simp
    then show "list_all (\<lambda>w. w \<noteq> [] \<and> no_space w) (?p # map effect_text (c_effects c))" by (auto simp: list_all_iff)
  qed
  finally show ?thesis by (simp add: join_tail)
qed

section \<open>Loading\<close>

definition halts :: "commit \<Rightarrow> bool" where
  "halts c \<longleftrightarrow> list_ex (\<lambda>e. \<exists>v. e = MemWrite HALT_ADDR v) (c_effects c)"

lemma contains_quiet: "t \<noteq> [] \<Longrightarrow> quiet (lit t) s [] \<Longrightarrow> \<not> contains t s"
proof (induction s)
  case Nil
  then show ?case by (simp add: contains_def after_first.simps [of t "[]"] starts_with_def)
next
  case (Cons c s)
  have "\<not> starts_with t (c # s)"
  proof
    assume "starts_with t (c # s)"
    then have "c # s = t @ drop (length t) (c # s)" by (metis append_take_drop_id starts_with_def)
    moreover from Cons.prems(2) have "\<forall>w z. c # s = w @ z \<longrightarrow> w \<noteq> t" by (simp add: quiet_Cons)
    ultimately show False by blast
  qed
  with Cons show ?case by (simp add: contains_def after_first.simps [of t "c # s"] quiet_Cons)
qed

lemma halt_quiet_no_m: "CHR ''m'' \<notin> set u \<Longrightarrow> quiet (lit HALT_SENTINEL) u v"
  by (rule quiet_hd [where P = "\<lambda>c. c = CHR ''m''"]) (auto simp: halt_sentinel list_all_iff)

lemma halt_quiet_mem:
  assumes "a < 2 ^ 64" and "a \<noteq> HALT_ADDR"
  shows "quiet (lit HALT_SENTINEL) (effect_text (MemWrite a v)) t"
proof -
  let ?r = "fmt_hex 16 (int a) @ '']='' @ fmt_hex 16 (int v)"
  have "fmt_hex 16 (int a) \<noteq> fmt_hex 16 (int HALT_ADDR)" using assms(2) fmt_hex_inj by blast
  then have "HALT_SENTINEL @ z \<noteq> ''mem['' @ ?r @ t" for z
    by (simp add: HALT_SENTINEL_def append_sep)
  moreover have "HALT_SENTINEL @ z \<noteq> ''em['' @ ?r @ t" "HALT_SENTINEL @ z \<noteq> ''m['' @ ?r @ t" for z
    by (simp_all add: halt_sentinel)
  moreover have "quiet (lit HALT_SENTINEL) (''['' @ ?r) t" by (rule halt_quiet_no_m) simp
  ultimately show ?thesis by (simp add: quiet_Cons) (metis append.assoc)
qed

lemma contains_halt:
  assumes "commit_ok c"
  shows "contains HALT_SENTINEL (line_text c) \<longleftrightarrow> halts c"
proof (cases "halts c")
  case True
  then obtain v where "MemWrite HALT_ADDR v \<in> set (c_effects c)" by (auto simp: halts_def list_ex_iff)
  from line_text_split [OF this] obtain u w where "line_text c = u @ effect_text (MemWrite HALT_ADDR v) @ w" .
  then have "line_text c = u @ HALT_SENTINEL @ fmt_hex 16 (int v) @ w" by (simp add: HALT_SENTINEL_def)
  with True contains_append show ?thesis by simp
next
  case False
  have "list_all effect_ok es \<Longrightarrow> \<not> list_ex (\<lambda>e. \<exists>v. e = MemWrite HALT_ADDR v) es \<Longrightarrow>
      quiet (lit HALT_SENTINEL) (tail_text effect_text es) []" for es
  proof (induction es)
    case (Cons e es)
    have "quiet (lit HALT_SENTINEL) (effect_text e) t" for t
    proof (cases "is_mem e")
      case True
      then obtain a v where e: "e = MemWrite a v" by (cases e) auto
      show ?thesis unfolding e by (rule halt_quiet_mem) (use Cons.prems e in auto)
    qed (rule halt_quiet_no_m [OF no_m(2)])
    moreover have "quiet (lit HALT_SENTINEL) '' '' t" for t by (rule halt_quiet_no_m) simp
    ultimately have "quiet (lit HALT_SENTINEL) ('' '' @ effect_text e @ tail_text effect_text es) []"
      unfolding quiet_append using Cons by simp
    then show ?case by simp
  qed simp
  with False assms have "quiet (lit HALT_SENTINEL) (line_text c) []"
    unfolding line_text_tail quiet_append using halt_quiet_no_m [OF no_m(1)]
    by (simp add: commit_ok_def halts_def)
  then have "\<not> contains HALT_SENTINEL (line_text c)" by (rule contains_quiet [rotated]) (simp add: halt_sentinel)
  with False show ?thesis by simp
qed

text \<open>What the comparison sees of a commit: nothing, or the commit with the effects that are kept.\<close>

definition view :: "bool \<Rightarrow> commit \<Rightarrow> commit list" where
  "view sn c = (let ks = filter (kept (c_instr c)) (c_effects c) in
     if (sn \<or> list_ex is_mem (c_effects c)) \<and> \<not> list_ex observable ks then [] else [c\<lparr>c_effects := ks\<rparr>])"

definition trace_view :: "bool \<Rightarrow> commit list \<Rightarrow> commit list" where
  "trace_view sn cs = concat (map (view sn) (takeWhile (\<lambda>c. \<not> halts c) cs))"

lemma strip_line: "strip (line_text c) = line_text c"
  unfolding line_text_def
proof (rule strip_join)
  have "no_space (head_text (c_pc c) (c_instr c))" "head_text (c_pc c) (c_instr c) \<noteq> []" by simp_all
  then show "list_all (\<lambda>w. w \<noteq> [] \<and> no_space w) (head_text (c_pc c) (c_instr c) # map effect_text (c_effects c))"
    by (simp add: list.pred_map o_def) (simp add: list_all_iff)
qed

lemma line_text_nonempty [simp]: "line_text c \<noteq> []"
  by (simp add: line_text_tail)

lemma load_lines_commits:
  "list_all commit_ok cs \<Longrightarrow> load_lines sn (map line_text cs) = map line_text (trace_view sn cs)"
proof (induction cs)
  case (Cons c cs)
  then have ok: "commit_ok c" and IH: "load_lines sn (map line_text cs) = map line_text (trace_view sn cs)" by simp_all
  show ?case
  proof (cases "halts c")
    case True
    with contains_halt [OF ok] show ?thesis by (simp add: strip_line trace_view_def)
  next
    case False
    have "trace_view sn (c # cs) = view sn c @ trace_view sn cs" using False by (simp add: trace_view_def)
    moreover have "load_lines sn (map line_text (c # cs)) =
        (if strip_ignored (line_text c) sn = [] then [] else [strip_ignored (line_text c) sn]) @ map line_text (trace_view sn cs)"
      using False contains_halt [OF ok] by (simp add: strip_line IH Let_def)
    moreover have "(if strip_ignored (line_text c) sn = [] then [] else [strip_ignored (line_text c) sn]) = map line_text (view sn c)"
      by (simp add: strip_ignored_commit [OF ok] view_def Let_def)
    ultimately show ?thesis by simp
  qed
qed (simp add: trace_view_def)

section \<open>Agreement on data\<close>

definition same_commit :: "commit \<Rightarrow> commit \<Rightarrow> bool" where
  "same_commit x y \<longleftrightarrow> c_pc x = c_pc y \<and> c_effects x = c_effects y"

definition commit_at :: "(commit \<Rightarrow> bool) \<Rightarrow> commit list \<Rightarrow> nat \<Rightarrow> bool" where
  "commit_at P b s \<longleftrightarrow> s < length b \<and> P (b ! s) \<and> (\<forall>j < s. \<not> P (b ! j))"

definition commits_agree :: "commit list \<Rightarrow> commit list \<Rightarrow> bool" where
  "commits_agree a b \<longleftrightarrow> a \<noteq> [] \<and> (\<exists>s.
     (let same_op = (\<lambda>c. c_pc c = c_pc (hd a) \<and> c_instr c = c_instr (hd a)) in
      if \<exists>c \<in> set b. same_op c then commit_at same_op b s else commit_at (\<lambda>c. c_pc c = c_pc (hd a)) b s)
     \<and> list_all2 same_commit a (drop s b))"

lemma head_text_inj: "head_text p i = head_text q j \<longleftrightarrow> p = q \<and> i = j"
  by (auto simp: head_text_def append_sep dest: fmt_hex_inj)

lemma for_compare_same:
  assumes "commit_ok x" and "commit_ok y"
  shows "for_compare (line_text x) = for_compare (line_text y) \<longleftrightarrow> same_commit x y"
proof
  assume "for_compare (line_text x) = for_compare (line_text y)"
  then have eq: "fmt_hex 16 (int (c_pc x)) @ tail_text effect_text (c_effects x) = fmt_hex 16 (int (c_pc y)) @ tail_text effect_text (c_effects y)"
    by (simp add: for_compare_line assms)
  moreover have "length (fmt_hex 16 (int (c_pc x))) = length (fmt_hex 16 (int (c_pc y)))" using assms by (simp add: commit_ok_def)
  ultimately have "fmt_hex 16 (int (c_pc x)) = fmt_hex 16 (int (c_pc y))" "tail_text effect_text (c_effects x) = tail_text effect_text (c_effects y)"
    by simp_all
  then show "same_commit x y" using fmt_hex_inj tail_text_inj unfolding same_commit_def by blast
qed (simp add: for_compare_line assms same_commit_def)

lemma agrees_commits:
  assumes "list_all commit_ok a" and "list_all commit_ok b"
  shows "agrees (map line_text a) (map line_text b) \<longleftrightarrow> commits_agree a b"
proof (cases a)
  case Nil
  then show ?thesis by (simp add: agrees_def commits_agree_def)
next
  case (Cons a0 as)
  have cmp: "map for_compare (map line_text a) = map for_compare (drop s (map line_text b)) \<longleftrightarrow> list_all2 same_commit a (drop s b)" for s
  proof -
    have "list_all2 (\<lambda>x y. for_compare (line_text x) = for_compare (line_text y)) a (drop s b) \<longleftrightarrow> list_all2 same_commit a (drop s b)"
      by (rule list.rel_cong [OF refl refl])
         (use assms for_compare_same in \<open>auto simp: list_all_iff dest: in_set_dropD\<close>)
    then show ?thesis
      by (simp add: drop_map list.rel_map list.rel_eq [symmetric])
  qed
  have at: "first_at P (map line_text b) s \<longleftrightarrow> commit_at (\<lambda>c. P (line_text c)) b s" for P s
    by (auto simp: first_at_def commit_at_def)
  have hd: "hd (map line_text a) = line_text a0" "hd a = a0" "a \<noteq> []" "map line_text a \<noteq> []" using Cons by simp_all
  have hex: "fmt_hex 16 (int m) = fmt_hex 16 (int n) \<longleftrightarrow> m = n" for m n using fmt_hex_inj by blast
  show ?thesis unfolding agrees_def commits_agree_def cmp aligned_def at hd Let_def
    by (simp add: pc_instr_line pc_of_line head_text_inj hex hd)
qed
section \<open>Properties\<close>

lemma load_trace_commits:
  assumes "fs p = Some (unlines (map line_text cs))" and "list_all commit_ok cs"
  shows "load_trace fs p sn = Inr (map line_text (trace_view sn cs))"
proof -
  have no_break: "list_all (\<lambda>c. \<not> line_break c) (line_text c)" and no_cr: "CHR 0x0D \<notin> set (line_text c)" for c
  proof -
    have "line_break c \<Longrightarrow> is_space c \<and> c \<noteq> CHR '' ''" for c
      by (auto simp: line_break_def is_space_def Let_def)
    moreover have word: "no_space w \<Longrightarrow> c \<in> set w \<Longrightarrow> \<not> is_space c" for c w
      by (auto simp: no_space_def list_all_iff)
    have "c \<in> set (tail_text effect_text es) \<Longrightarrow> c = CHR '' '' \<or> \<not> is_space c" for c es
      by (induction es) (use word [OF effect_text_no_space] in auto)
    then have "c' \<in> set (line_text c) \<Longrightarrow> c' = CHR '' '' \<or> \<not> is_space c'" for c'
      using word [OF head_text_no_space] by (auto simp: line_text_tail)
    ultimately show "list_all (\<lambda>c. \<not> line_break c) (line_text c)" by (auto simp: list_all_iff)
    moreover have "line_break CHR 0x0D" by (simp add: line_break_def)
    ultimately show "CHR 0x0D \<notin> set (line_text c)" by (auto simp: list_all_iff)
  qed
  have "CHR 0x0D \<notin> set (unlines (map line_text cs))" using no_cr by (auto simp: unlines_def)
  then have "read_text fs p = Inr (unlines (map line_text cs))"
    using universal_newlines_id by (simp add: read_text_def assms(1))
  moreover have "splitlines (unlines (map line_text cs)) = map line_text cs"
    by (rule splitlines_unlines) (use no_break in \<open>simp add: list_all_iff\<close>)
  ultimately show ?thesis using load_lines_commits [OF assms(2)] by (simp add: load_trace_def)
qed

lemma trace_view_ok: "list_all commit_ok cs \<Longrightarrow> list_all commit_ok (trace_view sn cs)"
proof -
  have "commit_ok c \<Longrightarrow> list_all commit_ok (view sn c)" for c
    by (simp add: view_def Let_def kept_ok)
  then show "list_all commit_ok cs \<Longrightarrow> ?thesis"
    by (auto simp: trace_view_def list_all_iff dest: set_takeWhileD)
qed

text \<open>
  C18. Normalizing the reference model's trace and comparing it with the core's is exactly the
  comparison of the two executions: the exit code is 0 if and only if the commits agree, counter by
  counter and effect by effect, up to the halt write and the effects the comparison ignores. What it ignores
  is \<open>trace_view\<close>: it drops a commit that keeps no register or memory effect when lines without effect are stripped,
  explicit CSR writes included, and otherwise when the commit had memory effects.
\<close>

theorem cosim_compares_commits:
  assumes "ka \<noteq> ''--strip-noeffect''" and "sb \<noteq> ''--strip-noeffect''"
    and "fs ka = Some (unlines (map line_text ks))"
    and "fs sb = Some (stdout (sail_normalize_main (unlines (concat (map sail_lines ss)))))"
    and "list_all commit_ok ks" and "list_all sail_ok ss" and "list_all commit_ok (map commit_of ss)"
  shows "\<exists>out. trace_diff_main (diff_argv prog sn ka sb) fs = Inr out
    \<and> (returncode out = 0) = commits_agree (trace_view sn ks) (trace_view sn (map commit_of ss))"
proof -
  have "fs sb = Some (unlines (map line_text (map commit_of ss)))"
    using assms(4) normalize_commits [OF assms(6), of "[]"] by simp
  with assms load_trace_commits have "load_trace fs ka sn = Inr (map line_text (trace_view sn ks))"
    "load_trace fs sb sn = Inr (map line_text (trace_view sn (map commit_of ss)))" by blast+
  then show ?thesis
    using compare_traces_iff agrees_commits [OF trace_view_ok [OF assms(5)] trace_view_ok [OF assms(7)]]
    by (simp add: trace_diff_main_files [OF assms(1,2)])
qed

theorem cosim_compares_commits_witness:
  "let ss = [\<lparr>s_step = 7, s_mode = CHR ''M'', s_pc = 0x80000000, s_instr = 0x93, s_disasm = '' li'',
               s_lines = [Effect (XWrite 1 5) ''-'']\<rparr>];
       ks = [\<lparr>c_pc = 0x80000000, c_instr = 0x93, c_effects = [XWrite 1 5]\<rparr>];
       fs = [''k'' \<mapsto> unlines (map line_text ks),
             ''s'' \<mapsto> stdout (sail_normalize_main (unlines (concat (map sail_lines ss))))]
   in \<exists>out. trace_diff_main (diff_argv ''trace_diff.py'' True ''k'' ''s'') fs = Inr out
    \<and> (returncode out = 0) = commits_agree (trace_view True ks) (trace_view True (map commit_of ss))"
  unfolding Let_def by (rule cosim_compares_commits) (simp_all add: commit_ok_def sail_ok_def commit_of_def is_space_def)

end
