(* ===== verification/Py_Csv.thy ===== *)
theory Py_Csv
  imports Py_IO
begin

text \<open>
  Python's \<open>csv\<close> module in its default dialect, as far as the trace tools use it: the record parser is the
  state machine of the library, fed with the lines of a file opened with \<open>newline=""\<close>, and a
  \<open>DictReader\<close> row is an association list from the fields of the first record, where \<open>None\<close> fills a short
  record. The surplus of a long record has no name and is not kept.
\<close>

section \<open>Records\<close>

text \<open>\<open>open(path, newline="")\<close>: lines end with any of the three line endings, which stays as it is.\<close>

fun raw_lines_acc :: "string \<Rightarrow> string \<Rightarrow> string list" where
  "raw_lines_acc cur [] = (if cur = [] then [] else [rev cur])"
| "raw_lines_acc cur (c # cs) =
     (if c = CHR 0x0A \<or> c = CHR 0x0D \<and> (cs = [] \<or> hd cs \<noteq> CHR 0x0A)
      then rev (c # cur) # raw_lines_acc [] cs
      else raw_lines_acc (c # cur) cs)"

definition raw_lines :: "string \<Rightarrow> string list" where
  "raw_lines s = raw_lines_acc [] s"

datatype cstate = Start_Record | Start_Field | In_Field | In_Quoted | Quote_In_Quoted | Eat_Crnl

record csv_reader =
  cst :: cstate
  cfield :: string
  cfields :: "string list"

definition csv_start :: csv_reader where
  "csv_start = \<lparr>cst = Start_Record, cfield = [], cfields = []\<rparr>"

definition save_field :: "cstate \<Rightarrow> csv_reader \<Rightarrow> csv_reader" where
  "save_field st r = r\<lparr>cst := st, cfield := [], cfields := cfields r @ [cfield r]\<rparr>"

definition add_char :: "cstate \<Rightarrow> char \<Rightarrow> csv_reader \<Rightarrow> csv_reader result" where
  "add_char st c r =
     (if 131072 \<le> int (length (cfield r)) then Inl (CsvError ''field larger than field limit (131072)'')
      else Inr (r\<lparr>cst := st, cfield := cfield r @ [c]\<rparr>))"

definition is_nl :: "char \<Rightarrow> bool" where
  "is_nl c \<longleftrightarrow> c = CHR 0x0A \<or> c = CHR 0x0D"

definition field_char :: "char \<Rightarrow> csv_reader \<Rightarrow> csv_reader result" where
  "field_char c r =
     (if is_nl c then Inr (save_field Eat_Crnl r)
      else if c = CHR 0x22 then Inr (r\<lparr>cst := In_Quoted\<rparr>)
      else if c = CHR '','' then Inr (save_field Start_Field r)
      else add_char In_Field c r)"

definition csv_char :: "csv_reader \<Rightarrow> char \<Rightarrow> csv_reader result" where
  "csv_char r c = (case cst r of
      Start_Record \<Rightarrow> if is_nl c then Inr (r\<lparr>cst := Eat_Crnl\<rparr>) else field_char c r
    | Start_Field \<Rightarrow> field_char c r
    | In_Field \<Rightarrow>
        if is_nl c then Inr (save_field Eat_Crnl r)
        else if c = CHR '','' then Inr (save_field Start_Field r)
        else add_char In_Field c r
    | In_Quoted \<Rightarrow> if c = CHR 0x22 then Inr (r\<lparr>cst := Quote_In_Quoted\<rparr>) else add_char In_Quoted c r
    | Quote_In_Quoted \<Rightarrow>
        if c = CHR 0x22 then add_char In_Quoted c r
        else if c = CHR '','' then Inr (save_field Start_Field r)
        else if is_nl c then Inr (save_field Eat_Crnl r)
        else add_char In_Field c r
    | Eat_Crnl \<Rightarrow> if is_nl c then Inr r
        else Inl (CsvError ''new-line character seen in unquoted field - do you need to open the file with newline=''))"

text \<open>The end of a line, as the parser sees it after the line's last character.\<close>

definition csv_eol :: "csv_reader \<Rightarrow> csv_reader" where
  "csv_eol r = (case cst r of
      Start_Record \<Rightarrow> r
    | In_Quoted \<Rightarrow> r
    | Eat_Crnl \<Rightarrow> r\<lparr>cst := Start_Record\<rparr>
    | _ \<Rightarrow> save_field Start_Record r)"

fun csv_line :: "string \<Rightarrow> csv_reader \<Rightarrow> csv_reader result" where
  "csv_line [] r = Inr (csv_eol r)"
| "csv_line (c # cs) r = bindR (csv_char r c) (csv_line cs)"

text \<open>\<open>list(csv.reader(f))\<close>.\<close>

fun csv_rows :: "csv_reader \<Rightarrow> string list \<Rightarrow> string list list result" where
  "csv_rows r [] = Inr (if cst r = In_Quoted then [cfields r @ [cfield r]] else [])"
| "csv_rows r (l # ls) = bindR (csv_line l r) (\<lambda>r'.
     if cst r' = Start_Record then bindR (csv_rows csv_start ls) (\<lambda>rows. Inr (cfields r' # rows))
     else csv_rows r' ls)"

section \<open>Rows\<close>

type_synonym csv_row = "(string \<times> string option) list"

definition dict_row :: "string list \<Rightarrow> string list \<Rightarrow> csv_row" where
  "dict_row names vals = zip names (map Some vals) @ map (\<lambda>k. (k, None)) (drop (length vals) names)"

text \<open>\<open>r[k]\<close>: later columns of the same name win.\<close>

definition column :: "csv_row \<Rightarrow> string \<Rightarrow> string option result" where
  "column r k = (case map_of (rev r) k of Some v \<Rightarrow> Inr v | None \<Rightarrow> Inl (KeyError (repr_str k)))"

text \<open>\<open>list(csv.DictReader(f))\<close>: the first record names the columns, empty records are skipped.\<close>

definition dict_rows :: "string list list \<Rightarrow> csv_row list" where
  "dict_rows rows = (case rows of [] \<Rightarrow> [] | names # rest \<Rightarrow> map (dict_row names) (filter (\<lambda>r. r \<noteq> []) rest))"

definition read_dicts :: "files \<Rightarrow> string \<Rightarrow> csv_row list result" where
  "read_dicts fs path = (case fs path of
      None \<Rightarrow> Inl (OSError (''[Errno 2] No such file or directory: '' @ repr_str path))
    | Some s \<Rightarrow> bindR (csv_rows csv_start (raw_lines s)) (\<lambda>rows. Inr (dict_rows rows)))"

text \<open>\<open>str(x)\<close> and \<open>int(x)\<close> of a column.\<close>

definition str_cell :: "string option \<Rightarrow> string" where
  "str_cell v = (case v of Some s \<Rightarrow> s | None \<Rightarrow> ''None'')"

definition none_int :: pyexc where
  "none_int = TypeError ''int() argument must be a string, a bytes-like object or a real number, not NoneType''"

definition int_cell :: "string option \<Rightarrow> int result" where
  "int_cell v = (case v of Some s \<Rightarrow> py_int s | None \<Rightarrow> Inl none_int)"

text \<open>\<open>int(x, 16)\<close>: an optional sign and \<open>0x\<close>, then hex digits with single underscores between them.\<close>

definition py_int16 :: "string \<Rightarrow> int result" where
  "py_int16 s =
     (let t = strip s;
          negative = (t \<noteq> [] \<and> hd t = CHR ''-'');
          u = (if t \<noteq> [] \<and> (hd t = CHR ''-'' \<or> hd t = CHR ''+'') then tl t else t);
          prefixed = starts_with ''0x'' u \<or> starts_with ''0X'' u;
          v = (if prefixed then drop 2 u else u);
          ds = (if prefixed \<and> starts_with ''_'' v then tl v else v);
          parts = split_char CHR ''_'' ds
      in if list_all (\<lambda>p. p \<noteq> [] \<and> list_all is_hex p) parts
         then Inr ((if negative then -1 else 1) * int (hex_value (concat parts)))
         else Inl (ValueError (''invalid literal for int() with base 16: '' @ repr_str s)))"

definition hex_cell :: "string option \<Rightarrow> int result" where
  "hex_cell v = (case v of Some s \<Rightarrow> py_int16 s
     | None \<Rightarrow> Inl (TypeError ''int() cannot convert non-string with explicit base''))"

definition int_column :: "csv_row \<Rightarrow> string \<Rightarrow> int result" where
  "int_column r k = bindR (column r k) int_cell"

definition hex_column :: "csv_row \<Rightarrow> string \<Rightarrow> int result" where
  "hex_column r k = bindR (column r k) hex_cell"

text \<open>\<open>f"{x:<w}"\<close> of a column; a format specification does not apply to \<open>None\<close>.\<close>

definition pad_cell :: "nat \<Rightarrow> string option \<Rightarrow> string result" where
  "pad_cell w v = (case v of Some s \<Rightarrow> Inr (pad_right w s)
     | None \<Rightarrow> Inl (TypeError ''unsupported format string passed to NoneType.__format__''))"

section \<open>Plain tables\<close>

text \<open>A field that needs no quoting, and the text of a table of such fields.\<close>

definition plain_field :: "string \<Rightarrow> bool" where
  "plain_field s \<longleftrightarrow> int (length s) \<le> 131072 \<and> list_all (\<lambda>c. c \<noteq> CHR '','' \<and> c \<noteq> CHR 0x22 \<and> \<not> is_nl c) s"

definition csv_text :: "string list list \<Rightarrow> string" where
  "csv_text rows = unlines (map (join '','') rows)"

lemma add_plain:
  assumes "list_all (\<lambda>c. c \<noteq> CHR '','' \<and> c \<noteq> CHR 0x22 \<and> \<not> is_nl c) s"
    and "int (length f + length s) \<le> 131072"
  shows "csv_line (s @ t) \<lparr>cst = In_Field, cfield = f, cfields = fs\<rparr> = csv_line t \<lparr>cst = In_Field, cfield = f @ s, cfields = fs\<rparr>"
  using assms
proof (induction s arbitrary: f)
  case (Cons c s)
  then have "csv_char \<lparr>cst = In_Field, cfield = f, cfields = fs\<rparr> c = Inr \<lparr>cst = In_Field, cfield = f @ [c], cfields = fs\<rparr>"
    by (auto simp: csv_char_def add_char_def)
  with Cons show ?case by simp
qed simp

lemma field_plain:
  assumes "plain_field f" and "t = [] \<or> hd t = CHR '','' \<or> is_nl (hd t)"
  shows "csv_line (f @ t) \<lparr>cst = Start_Field, cfield = [], cfields = fs\<rparr> =
    (case t of
       [] \<Rightarrow> Inr \<lparr>cst = Start_Record, cfield = [], cfields = fs @ [f]\<rparr>
     | c # t' \<Rightarrow> csv_line t' \<lparr>cst = (if is_nl c then Eat_Crnl else Start_Field), cfield = [], cfields = fs @ [f]\<rparr>)"
proof (cases f)
  case Nil
  with assms(2) show ?thesis
    by (cases t) (auto simp: csv_char_def field_char_def save_field_def csv_eol_def is_nl_def)
next
  case (Cons c u)
  with assms(1) have c: "c \<noteq> CHR '',''" "c \<noteq> CHR 0x22" "\<not> is_nl c"
    and u: "list_all (\<lambda>c. c \<noteq> CHR '','' \<and> c \<noteq> CHR 0x22 \<and> \<not> is_nl c) u" and n: "int (length [c] + length u) \<le> 131072"
    by (auto simp: plain_field_def)
  have "csv_line (f @ t) \<lparr>cst = Start_Field, cfield = [], cfields = fs\<rparr> = csv_line (u @ t) \<lparr>cst = In_Field, cfield = [c], cfields = fs\<rparr>"
    using c by (simp add: Cons csv_char_def field_char_def add_char_def)
  also have "... = csv_line t \<lparr>cst = In_Field, cfield = f, cfields = fs\<rparr>"
    unfolding add_plain [OF u n] by (simp add: Cons)
  also have "... = (case t of
       [] \<Rightarrow> Inr \<lparr>cst = Start_Record, cfield = [], cfields = fs @ [f]\<rparr>
     | c # t' \<Rightarrow> csv_line t' \<lparr>cst = (if is_nl c then Eat_Crnl else Start_Field), cfield = [], cfields = fs @ [f]\<rparr>)"
    using assms(2) by (cases t) (auto simp: csv_char_def save_field_def csv_eol_def is_nl_def)
  finally show ?thesis .
qed

lemma row_plain:
  "row \<noteq> [] \<Longrightarrow> list_all plain_field row \<Longrightarrow>
     csv_line (join '','' row @ [CHR 0x0A]) \<lparr>cst = Start_Field, cfield = [], cfields = fs\<rparr>
       = Inr \<lparr>cst = Start_Record, cfield = [], cfields = fs @ row\<rparr>"
proof (induction row arbitrary: fs)
  case (Cons f row)
  show ?case
  proof (cases "row = []")
    case True
    with Cons.prems field_plain [of f "[CHR 0x0A]" fs] show ?thesis by (simp add: is_nl_def csv_eol_def)
  next
    case False
    with Cons.prems Cons.IH [of "fs @ [f]"] field_plain [of f "CHR '','' # join '','' row @ [CHR 0x0A]" fs]
    show ?thesis by (simp add: join_Cons is_nl_def)
  qed
qed simp

definition plain_row :: "string list \<Rightarrow> bool" where
  "plain_row row \<longleftrightarrow> row \<noteq> [] \<and> row \<noteq> [[]] \<and> list_all plain_field row"

lemma join_plain_hd:
  assumes "plain_row row"
  obtains c u where "join '','' row = c # u" and "\<not> is_nl c"
proof -
  from assms obtain f fs where row: "row = f # fs" by (cases row) (auto simp: plain_row_def)
  show thesis
  proof (cases f)
    case Nil
    with assms row have "fs \<noteq> []" by (auto simp: plain_row_def)
    with Nil row that show thesis by (simp add: join_Cons is_nl_def)
  next
    case (Cons c u)
    with assms row have "\<not> is_nl c" by (simp add: plain_row_def plain_field_def)
    with Cons row that show thesis by (cases "fs = []") (simp_all add: join_Cons)
  qed
qed

lemma plain_line:
  assumes "plain_row row"
  shows "csv_line (join '','' row @ [CHR 0x0A]) csv_start = Inr \<lparr>cst = Start_Record, cfield = [], cfields = row\<rparr>"
proof -
  obtain c u where j: "join '','' row = c # u" "\<not> is_nl c" by (rule join_plain_hd [OF assms])
  then have "csv_line (join '','' row @ [CHR 0x0A]) csv_start
      = csv_line (join '','' row @ [CHR 0x0A]) \<lparr>cst = Start_Field, cfield = [], cfields = []\<rparr>"
    by (simp add: csv_start_def csv_char_def field_char_def add_char_def save_field_def)
  with row_plain [of row "[]"] assms show ?thesis by (simp add: plain_row_def)
qed

lemma raw_lines_acc_line:
  "list_all (\<lambda>c. \<not> is_nl c) l \<Longrightarrow> raw_lines_acc cur (l @ CHR 0x0A # s) = (rev cur @ l @ [CHR 0x0A]) # raw_lines_acc [] s"
proof (induction l arbitrary: cur)
  case (Cons c l)
  then have "c \<noteq> CHR 0x0A" "c \<noteq> CHR 0x0D" by (simp_all add: is_nl_def)
  with Cons show ?case by simp
qed simp

lemma join_plain_no_nl: "list_all plain_field row \<Longrightarrow> list_all (\<lambda>c. \<not> is_nl c) (join '','' row)"
proof (induction row)
  case (Cons f row)
  from Cons.prems have "list_all (\<lambda>c. \<not> is_nl c) f" by (simp add: plain_field_def list_all_conj)
  moreover have "\<not> is_nl CHR '',''" by (simp add: is_nl_def)
  ultimately show ?case using Cons by (cases "row = []") (simp_all add: join_Cons)
qed simp

lemma raw_lines_csv_text:
  "list_all plain_row rows \<Longrightarrow> raw_lines (csv_text rows) = map (\<lambda>r. join '','' r @ [CHR 0x0A]) rows"
proof (induction rows)
  case (Cons r rows)
  then have "list_all (\<lambda>c. \<not> is_nl c) (join '','' r)" by (intro join_plain_no_nl) (simp add: plain_row_def)
  with Cons show ?case by (simp add: raw_lines_def csv_text_def unlines_def raw_lines_acc_line)
qed (simp add: raw_lines_def csv_text_def unlines_def)

lemma csv_rows_plain: "list_all plain_row rows \<Longrightarrow> csv_rows csv_start (raw_lines (csv_text rows)) = Inr rows"
proof -
  have "list_all plain_row rows \<Longrightarrow> csv_rows csv_start (map (\<lambda>r. join '','' r @ [CHR 0x0A]) rows) = Inr rows"
    by (induction rows) (simp_all add: plain_line, simp add: csv_start_def)
  then show "list_all plain_row rows \<Longrightarrow> ?thesis" by (simp add: raw_lines_csv_text)
qed

section \<open>Numbers of plain digits\<close>

lemma digits_py_int:
  assumes "s \<noteq> []" and "list_all is_digit s"
  shows "py_int s = Inr (int (dec_value s))"
proof -
  have strip: "strip s = s"
    by (rule strip_no_space) (use assms(2) digit_is_hex hex_not_space in \<open>auto simp: list_all_iff\<close>)
  have "is_digit (hd s)" using assms by (cases s) auto
  moreover have "split_char CHR ''_'' s = [s]"
    by (rule split_char_no_sep) (use assms(2) digit_not_mark in \<open>auto simp: list_all_iff\<close>)
  ultimately show ?thesis using assms strip digit_not_mark by (auto simp: py_int_def Let_def)
qed

lemma hex_not_mark: "is_hex c \<Longrightarrow> c \<noteq> CHR ''-'' \<and> c \<noteq> CHR ''+'' \<and> c \<noteq> CHR ''_'' \<and> c \<noteq> CHR ''x'' \<and> c \<noteq> CHR ''X''"
  by (auto simp: is_hex_code)

lemma starts_with_set: "starts_with p s \<Longrightarrow> set p \<subseteq> set s"
  using set_take_subset [of "length p" s] by (simp add: starts_with_def)

lemma hexes_py_int16:
  assumes "s \<noteq> []" and "list_all is_hex s"
  shows "py_int16 s = Inr (int (hex_value s))"
proof -
  have strip: "strip s = s"
    by (rule strip_no_space) (use assms(2) hex_not_space in \<open>auto simp: list_all_iff\<close>)
  have marks: "c \<in> set s \<Longrightarrow> c \<noteq> CHR ''-'' \<and> c \<noteq> CHR ''+'' \<and> c \<noteq> CHR ''_'' \<and> c \<noteq> CHR ''x'' \<and> c \<noteq> CHR ''X''" for c
    using assms(2) hex_not_mark by (auto simp: list_all_iff)
  have no: "hd s \<noteq> CHR ''-''" "hd s \<noteq> CHR ''+''" "\<not> starts_with ''0x'' s" "\<not> starts_with ''0X'' s" "split_char CHR ''_'' s = [s]"
  proof -
    show "hd s \<noteq> CHR ''-''" "hd s \<noteq> CHR ''+''" using marks [of "hd s"] assms(1) by auto
    show "\<not> starts_with ''0x'' s" "\<not> starts_with ''0X'' s"
      using marks [of "CHR ''x''"] marks [of "CHR ''X''"] starts_with_set [of "''0x''" s] starts_with_set [of "''0X''" s] by auto
    show "split_char CHR ''_'' s = [s]" by (rule split_char_no_sep) (use marks in blast)
  qed
  show ?thesis using assms by (simp add: py_int16_def strip no Let_def)
qed

end
