(* ===== verification/Py_Number.thy ===== *)
theory Py_Number
  imports Py_Csv Py_Float
begin

text \<open>
  Numbers as the trace tools and the documentation check meet them: \<open>float(s)\<close> of any string with its
  special values, formatted floats, the quotients behind the bars of the tables.
\<close>

section \<open>Floats with their special values\<close>

text \<open>A float has a sign even when it is zero, so the magnitude is kept apart.\<close>

datatype number =
    Finite bool pyfloat
  | Infinite bool
  | NaN

text \<open>The double nearest to a magnitude, over the whole exponent range.\<close>

definition to_number :: "bool \<Rightarrow> rat \<Rightarrow> number" where
  "to_number negative x =
     (if x < 1 / 2 ^ 1022 then Finite negative (of_int (round_even (x * 2 ^ 1074)) / 2 ^ 1074)
      else if fl x < 2 ^ 1024 then Finite negative (fl x)
      else Infinite negative)"

text \<open>Digits with single underscores between them.\<close>

definition digit_part :: "string \<Rightarrow> string option" where
  "digit_part s = (let parts = split_char CHR ''_'' s in
     if list_all (\<lambda>p. p \<noteq> [] \<and> list_all is_digit p) parts then Some (concat parts) else None)"

text \<open>A sign, and what follows it.\<close>

definition signed :: "string \<Rightarrow> bool \<times> string" where
  "signed s = (case s of c # cs \<Rightarrow> if c = CHR ''-'' then (True, cs) else if c = CHR ''+'' then (False, cs) else (False, s)
     | [] \<Rightarrow> (False, s))"

definition scale10 :: "nat \<Rightarrow> int \<Rightarrow> rat" where
  "scale10 n k = (if k \<ge> 0 then of_nat n * 10 ^ nat k else of_nat n / 10 ^ nat (- k))"

text \<open>The mantissa \<open>12\<close>, \<open>12.\<close>, \<open>.5\<close> or \<open>12.5\<close>, as its digits and the number of those after the point.\<close>

definition mantissa :: "string \<Rightarrow> (string \<times> nat) option" where
  "mantissa s = (case split_once CHR ''.'' s of
      [u, v] \<Rightarrow>
        if u = [] \<and> v = [] then None
        else (case (if u = [] then Some [] else digit_part u, if v = [] then Some [] else digit_part v) of
            (Some d1, Some d2) \<Rightarrow> Some (d1 @ d2, length d2)
          | _ \<Rightarrow> None)
    | _ \<Rightarrow> map_option (\<lambda>w. (w, 0)) (digit_part s))"

definition exponent :: "string \<Rightarrow> int option" where
  "exponent s = (case signed s of (negative, t) \<Rightarrow>
     map_option (\<lambda>ds. (if negative then -1 else 1) * int (dec_value ds)) (digit_part t))"

definition decimal :: "bool \<Rightarrow> string \<Rightarrow> number option" where
  "decimal negative s =
     (let m = takeWhile (\<lambda>c. c \<noteq> CHR ''e'' \<and> c \<noteq> CHR ''E'') s;
          e = drop (length m) s
      in case (mantissa m, if e = [] then Some 0 else exponent (tl e)) of
          (Some (ds, k), Some x) \<Rightarrow> Some (to_number negative (scale10 (dec_value ds) (x - int k)))
        | _ \<Rightarrow> None)"

definition lower_is :: "string \<Rightarrow> string \<Rightarrow> bool" where
  "lower_is w s \<longleftrightarrow> length w = length s \<and> list_all2 (\<lambda>a b. b = a \<or> of_char b + (32 :: nat) = of_char a) w s"

definition py_float :: "string \<Rightarrow> number result" where
  "py_float s = (case signed (strip s) of (negative, t) \<Rightarrow>
     if lower_is ''inf'' t \<or> lower_is ''infinity'' t then Inr (Infinite negative)
     else if lower_is ''nan'' t then Inr NaN
     else case decimal negative t of
         Some x \<Rightarrow> Inr x
       | None \<Rightarrow> Inl (ValueError (''could not convert string to float: '' @ repr_str s)))"

definition float_cell :: "string option \<Rightarrow> number result" where
  "float_cell v = (case v of Some s \<Rightarrow> py_float s
     | None \<Rightarrow> Inl (TypeError ''float() argument must be a string or a real number, not NoneType''))"

definition times100 :: "number \<Rightarrow> number" where
  "times100 x = (case x of Finite negative m \<Rightarrow> to_number negative (m * 100) | _ \<Rightarrow> x)"

text \<open>\<open>{x:.kf}\<close>.\<close>

definition fmt_number :: "nat \<Rightarrow> number \<Rightarrow> string" where
  "fmt_number k x = (case x of
      Finite negative m \<Rightarrow> (if negative then ''-'' else []) @ fmt_abs k m
    | Infinite negative \<Rightarrow> (if negative then ''-inf'' else ''inf'')
    | NaN \<Rightarrow> ''nan'')"

text \<open>\<open>{x:+.kf}\<close>.\<close>

definition fmt_number_signed :: "nat \<Rightarrow> number \<Rightarrow> string" where
  "fmt_number_signed k x = (case x of
      Finite negative m \<Rightarrow> (if negative then ''-'' else ''+'') @ fmt_abs k m
    | Infinite negative \<Rightarrow> (if negative then ''-inf'' else ''+inf'')
    | NaN \<Rightarrow> ''+nan'')"

text \<open>A finite float, and the float of a rational that is one. Comparisons with a NaN are false.\<close>

definition finite_value :: "bool \<Rightarrow> pyfloat \<Rightarrow> pyfloat" where
  "finite_value negative m = (if negative then - m else m)"

definition number_of :: "pyfloat \<Rightarrow> number" where
  "number_of x = Finite (x < 0) \<bar>x\<bar>"

fun num_less :: "number \<Rightarrow> number \<Rightarrow> bool" where
  "num_less (Finite s a) (Finite t b) \<longleftrightarrow> finite_value s a < finite_value t b"
| "num_less (Finite s a) (Infinite t) \<longleftrightarrow> \<not> t"
| "num_less (Infinite s) (Finite t b) \<longleftrightarrow> s"
| "num_less (Infinite s) (Infinite t) \<longleftrightarrow> s \<and> \<not> t"
| "num_less NaN y \<longleftrightarrow> False"
| "num_less x NaN \<longleftrightarrow> False"

definition num_le :: "number \<Rightarrow> number \<Rightarrow> bool" where
  "num_le x y \<longleftrightarrow> x \<noteq> NaN \<and> y \<noteq> NaN \<and> \<not> num_less y x"

text \<open>\<open>x - y\<close>; the difference of equal numbers is the negative zero only for \<open>-0.0 - 0.0\<close>.\<close>

fun num_sub :: "number \<Rightarrow> number \<Rightarrow> number" where
  "num_sub (Finite s a) (Finite t b) =
     (let d = finite_value s a - finite_value t b in
      if d = 0 then Finite (s \<and> \<not> t) 0 else to_number (d < 0) \<bar>d\<bar>)"
| "num_sub (Finite s a) (Infinite t) = Infinite (\<not> t)"
| "num_sub (Infinite s) (Finite t b) = Infinite s"
| "num_sub (Infinite s) (Infinite t) = (if s = t then NaN else Infinite s)"
| "num_sub NaN y = NaN"
| "num_sub x NaN = NaN"

lemma finite_value_abs [simp]: "finite_value (x < 0) \<bar>x\<bar> = x"
  by (simp add: finite_value_def)

lemma number_of_less [simp]: "num_less (number_of x) (number_of y) \<longleftrightarrow> x < y"
  by (simp add: number_of_def)

lemma number_of_le [simp]: "num_le (number_of x) (number_of y) \<longleftrightarrow> x \<le> y"
  by (simp add: num_le_def not_less) (simp add: number_of_def)

section \<open>Bars\<close>

text \<open>\<open>a / b\<close> of integers, and \<open>int(x)\<close> of a float, which truncates.\<close>

definition true_div :: "int \<Rightarrow> int \<Rightarrow> pyfloat result" where
  "true_div a b = (if b = 0 then Inl ZeroDivisionError else Inr (fl (of_int a / of_int b)))"

definition trunc_float :: "pyfloat \<Rightarrow> int" where
  "trunc_float x = (if x < 0 then \<lceil>x\<rceil> else \<lfloor>x\<rfloor>)"

text \<open>\<open>k or 1\<close>, and \<open>int(width * c / m)\<close>.\<close>

definition or_one :: "int \<Rightarrow> int" where
  "or_one k = (if k = 0 then 1 else k)"

definition scaled :: "int \<Rightarrow> int \<Rightarrow> int \<Rightarrow> int result" where
  "scaled width c m = bindR (true_div (width * c) m) (\<lambda>x. Inr (trunc_float x))"

text \<open>The block character of the bars, in UTF-8.\<close>

definition full_block :: string where
  "full_block = [CHR 0xE2, CHR 0x96, CHR 0x88]"

text \<open>\<open>f"{x:>w}"\<close> of a column.\<close>

definition pad_left_cell :: "nat \<Rightarrow> string option \<Rightarrow> string result" where
  "pad_left_cell w v = (case v of Some s \<Rightarrow> Inr (pad_left w s)
     | None \<Rightarrow> Inl (TypeError ''unsupported format string passed to NoneType.__format__''))"

lemma or_one_nonzero [simp]: "or_one k \<noteq> 0"
  by (simp add: or_one_def)

lemma or_one_pos: "0 \<le> k \<Longrightarrow> 0 < or_one k \<and> k \<le> or_one k"
  by (simp add: or_one_def)

lemma scaled_bounds:
  assumes "0 \<le> c" and "c \<le> m" and "0 < m" and "0 \<le> width" and "width < 2 ^ 53"
  shows "\<exists>n. scaled width c m = Inr n \<and> 0 \<le> n \<and> n \<le> width"
proof -
  let ?x = "of_int (width * c) / of_int m :: rat"
  have "width * c \<le> width * m" using assms by (intro mult_left_mono) simp_all
  then have "of_int (width * c) \<le> (of_int (width * m) :: rat)" by (simp only: of_int_le_iff)
  then have x: "0 \<le> ?x" "?x \<le> of_int width" using assms by (simp_all add: field_simps)
  have w: "fl (of_int width) = of_int width" using fl_of_nat [of "nat width"] assms(4,5) by (simp add: nat_less_iff)
  have "0 \<le> fl ?x" "fl ?x \<le> of_int width"
    using fl_mono_all [OF x(1)] fl_mono_all [OF x(2)] fl_of_nat [of 0] w by simp_all
  then show ?thesis using assms(3) by (simp add: scaled_def true_div_def trunc_float_def floor_le_iff)
qed

lemma scaled_full:
  assumes "0 < c" and "0 \<le> width" and "width < 2 ^ 53"
  shows "scaled width c c = Inr width"
  using fl_of_nat [of "nat width"] assms by (simp add: scaled_def true_div_def trunc_float_def nat_less_iff)

text \<open>\<open>sort(key=..., reverse=True)\<close> is stable: rows of the same key stay in order.\<close>

definition sort_desc :: "('a \<Rightarrow> int) \<Rightarrow> 'a list \<Rightarrow> 'a list" where
  "sort_desc key xs = sort_key (\<lambda>x. - key x) xs"

lemma sort_desc_sorted: "sorted_wrt (\<lambda>a b. key b \<le> key a) (sort_desc key xs)"
  using sorted_sort_key [of "\<lambda>x. - key x" xs] by (simp add: sort_desc_def sorted_map)

lemma sort_desc_set [simp]: "set (sort_desc key xs) = set xs" "length (sort_desc key xs) = length xs"
  by (simp_all add: sort_desc_def)

text \<open>A decimal fraction is read to the nearest double.\<close>

lemma digit_part_digits:
  assumes "list_all is_digit w" and "w \<noteq> []"
  shows "digit_part w = Some w"
proof -
  have "split_char CHR ''_'' w = [w]"
    by (rule split_char_no_sep) (use assms digit_not_mark in \<open>auto simp: list_all_iff\<close>)
  with assms show ?thesis by (simp add: digit_part_def)
qed

end
