(* ===== verification/Py_Argparse.thy ===== *)
theory Py_Argparse
  imports Py_Number Py_Regex
begin

text \<open>
  Python's \<open>argparse\<close> as the tools use it, in the version of Python 3.11: options that take one value or are
  flags, positional arguments, defaults, required options, choices, abbreviations and \<open>-h\<close>. A command line
  becomes a namespace, or the tool exits: with 0 for a request of help and with 2 for an error. The texts it
  prints then are a parameter.
\<close>

section \<open>Declarations\<close>

datatype aval = ANone | AStr string | AInt int | AFloat number | ABool bool | AList "string list"

datatype conv = To_Str | To_Path | To_Int | To_Float

datatype nargs = One | Maybe | Many | Some_More

text \<open>An option takes a value of a type, or is a flag (\<open>store_true\<close>).\<close>

record opt =
  o_name :: string
  o_takes :: "conv option"
  o_required :: bool
  o_default :: aval
  o_choices :: "string list option"

record pos =
  p_name :: string
  p_nargs :: nargs
  p_conv :: conv

record cli =
  c_opts :: "opt list"
  c_pos :: "pos list"

type_synonym namespace = "(string \<times> aval) list"

definition takes_opt :: "string \<Rightarrow> conv \<Rightarrow> opt" where
  "takes_opt n c = \<lparr>o_name = n, o_takes = Some c, o_required = False, o_default = ANone, o_choices = None\<rparr>"

definition needs_opt :: "string \<Rightarrow> conv \<Rightarrow> opt" where
  "needs_opt n c = (takes_opt n c)\<lparr>o_required := True\<rparr>"

definition flag_opt :: "string \<Rightarrow> opt" where
  "flag_opt n = \<lparr>o_name = n, o_takes = None, o_required = False, o_default = ABool False, o_choices = None\<rparr>"

definition arg_error :: "'a result" where
  "arg_error = Inl (SystemExit 2)"

section \<open>Values\<close>

text \<open>\<open>str(Path(s))\<close>: no empty and no \<open>.\<close> components; exactly two leading slashes are kept.\<close>

definition path_norm :: "string \<Rightarrow> string" where
  "path_norm s =
     (let parts = filter (\<lambda>c. c \<noteq> [] \<and> c \<noteq> ''.'') (split_char CHR ''/'' s);
          root = (if starts_with ''//'' s \<and> \<not> starts_with ''///'' s then ''//'' else if starts_with ''/'' s then ''/'' else []);
          p = root @ join ''/'' parts
      in if p = [] then ''.'' else p)"

definition convert_arg :: "conv \<Rightarrow> string \<Rightarrow> aval result" where
  "convert_arg c s = (case c of
      To_Str \<Rightarrow> Inr (AStr s)
    | To_Path \<Rightarrow> Inr (AStr (path_norm s))
    | To_Int \<Rightarrow> (case py_int s of Inr i \<Rightarrow> Inr (AInt i) | Inl _ \<Rightarrow> arg_error)
    | To_Float \<Rightarrow> (case py_float s of Inr x \<Rightarrow> Inr (AFloat x) | Inl _ \<Rightarrow> arg_error))"

text \<open>
  The value of an argument that takes one: a separator among its strings is dropped first, and a missing
  string makes the unpacking of the library raise.
\<close>

definition one_value :: "conv \<Rightarrow> string list option \<Rightarrow> string list \<Rightarrow> aval result" where
  "one_value c choices args = (case remove1 ''--'' args of
      [s] \<Rightarrow> bindR (convert_arg c s) (\<lambda>v. case choices of
          Some cs \<Rightarrow> if v \<in> AStr ` set cs then Inr v else arg_error
        | None \<Rightarrow> Inr v)
    | _ \<Rightarrow> Inl (ValueError ''not enough values to unpack (expected 1, got 0)''))"

definition pos_value :: "pos \<Rightarrow> string list \<Rightarrow> aval result" where
  "pos_value p args = (case p_nargs p of
      One \<Rightarrow> one_value (p_conv p) None args
    | Maybe \<Rightarrow> if remove1 ''--'' args = [] then Inr ANone else one_value (p_conv p) None args
    | _ \<Rightarrow> bindR (mapR (convert_arg (p_conv p)) (remove1 ''--'' args))
         (\<lambda>vs. Inr (AList (map (\<lambda>v. case v of AStr s \<Rightarrow> s | _ \<Rightarrow> []) vs))))"

section \<open>Tokens\<close>

text \<open>The explicit argument of \<open>--opt=arg\<close> comes with the option; help remembers whether it was the short form.\<close>

datatype token =
    Given string
  | Separator
  | Option opt "string option"
  | Help bool "string option"
  | Unknown

definition find_opt :: "cli \<Rightarrow> string \<Rightarrow> string option \<Rightarrow> token option" where
  "find_opt c s explicit =
     (if s = ''-h'' then Some (Help True explicit) else if s = ''--help'' then Some (Help False explicit)
      else map_option (\<lambda>o'. Option o' explicit) (find (\<lambda>o'. o_name o' = s) (c_opts c)))"

text \<open>\<open>--opt=arg\<close> in its two parts.\<close>

definition split_eq :: "string \<Rightarrow> string \<times> string option" where
  "split_eq s = (case split_once CHR ''='' s of [a, b] \<Rightarrow> (a, Some b) | _ \<Rightarrow> (s, None))"

text \<open>The options a string abbreviates.\<close>

definition abbreviates :: "cli \<Rightarrow> string \<Rightarrow> token list" where
  "abbreviates c s =
     (if starts_with ''--'' s then (case split_eq s of (prefix, explicit) \<Rightarrow>
        (if starts_with prefix ''--help'' then [Help False explicit] else []) @
        map (\<lambda>o'. Option o' explicit) (filter (\<lambda>o'. starts_with prefix (o_name o')) (c_opts c)))
      else if take 2 s = ''-h'' then [Help True (Some (drop 2 s))] else [])"

definition negative_rx :: rx where
  "negative_rx = Alt (seqs [Bol, chr CHR ''-'', digits, Eol])
     (seqs [Bol, chr CHR ''-'', Star (Cls is_digit), chr CHR ''.'', digits, Eol])"

definition classify_arg :: "cli \<Rightarrow> string \<Rightarrow> token result" where
  "classify_arg c s =
     (if s = [] \<or> hd s \<noteq> CHR ''-'' then Inr (Given s)
      else case find_opt c s None of
        Some t \<Rightarrow> Inr t
      | None \<Rightarrow>
          if length s = 1 then Inr (Given s)
          else (case (case split_eq s of (a, Some b) \<Rightarrow> find_opt c a (Some b) | _ \<Rightarrow> None) of
            Some t \<Rightarrow> Inr t
          | None \<Rightarrow> (case abbreviates c s of
              [t] \<Rightarrow> Inr t
            | _ # _ \<Rightarrow> arg_error
            | [] \<Rightarrow> if re_match negative_rx s \<noteq> None \<or> CHR '' '' \<in> set s then Inr (Given s) else Inr Unknown)))"

text \<open>Everything after the first separator is an argument.\<close>

fun arg_tokens :: "cli \<Rightarrow> string list \<Rightarrow> token list result" where
  "arg_tokens c [] = Inr []"
| "arg_tokens c (s # ss) =
     (if s = ''--'' then Inr (Separator # map Given ss)
      else bindR (classify_arg c s) (\<lambda>t. bindR (arg_tokens c ss) (\<lambda>ts. Inr (t # ts))))"

section \<open>Parsing\<close>

fun token_char :: "token \<Rightarrow> char" where
  "token_char (Given s) = CHR ''A''"
| "token_char Separator = CHR ''-''"
| "token_char _ = CHR ''O''"

fun token_text :: "token \<Rightarrow> string" where
  "token_text (Given s) = s"
| "token_text _ = ''--''"

definition seps :: rx where
  "seps = Star (chr CHR ''-'')"

definition any_args :: rx where
  "any_args = Star (Cls (\<lambda>c. c = CHR ''A'' \<or> c = CHR ''-''))"

fun nargs_rx :: "nargs \<Rightarrow> rx" where
  "nargs_rx One = seqs [seps, chr CHR ''A'', seps]"
| "nargs_rx Maybe = seqs [seps, opt (chr CHR ''A''), seps]"
| "nargs_rx Many = seqs [seps, any_args]"
| "nargs_rx Some_More = seqs [seps, chr CHR ''A'', any_args]"

text \<open>How many tokens each positional takes: as many positionals as match, from the front.\<close>

definition slice_rx :: "pos list \<Rightarrow> rx" where
  "slice_rx ps = seqs (map (\<lambda>(k, p). Grp k (nargs_rx (p_nargs p))) (enumerate 0 ps))"

fun match_counts :: "pos list \<Rightarrow> nat \<Rightarrow> string \<Rightarrow> nat list" where
  "match_counts ps 0 pat = []"
| "match_counts ps (Suc i) pat = (case re_match (slice_rx (take (Suc i) ps)) pat of
      Some m \<Rightarrow> map (\<lambda>k. length (group m k)) [0..<Suc i]
    | None \<Rightarrow> match_counts ps i pat)"

record parse =
  p_waiting :: "pos list"
  p_found :: namespace
  p_extra :: bool

fun take_positionals :: "nat list \<Rightarrow> token list \<Rightarrow> parse \<Rightarrow> (token list \<times> parse) result" where
  "take_positionals (n # ns) ts st = (case p_waiting st of
      [] \<Rightarrow> Inr (ts, st)
    | p # ps \<Rightarrow> bindR (pos_value p (map token_text (take n ts))) (\<lambda>v.
        take_positionals ns (drop n ts) (st\<lparr>p_waiting := ps, p_found := (p_name p, v) # p_found st\<rparr>)))"
| "take_positionals [] ts st = Inr (ts, st)"

definition consume_positionals :: "token list \<Rightarrow> parse \<Rightarrow> (token list \<times> parse) result" where
  "consume_positionals ts st =
     take_positionals (match_counts (p_waiting st) (length (p_waiting st)) (map token_char ts)) ts st"

text \<open>An option at the front of the tokens.\<close>

definition consume_option :: "token \<Rightarrow> token list \<Rightarrow> parse \<Rightarrow> (token list \<times> parse) result" where
  "consume_option t ts st = (case t of
      Option o' explicit \<Rightarrow> (case o_takes o' of
          None \<Rightarrow> if explicit = None then Inr (ts, st\<lparr>p_found := (o_name o', ABool True) # p_found st\<rparr>) else arg_error
        | Some c \<Rightarrow> (case explicit of
            Some s \<Rightarrow> bindR (one_value c (o_choices o') [s]) (\<lambda>v. Inr (ts, st\<lparr>p_found := (o_name o', v) # p_found st\<rparr>))
          | None \<Rightarrow> (case ts of
              Given s # ts' \<Rightarrow> bindR (one_value c (o_choices o') [s]) (\<lambda>v. Inr (ts', st\<lparr>p_found := (o_name o', v) # p_found st\<rparr>))
            | _ \<Rightarrow> arg_error)))
    | Help short explicit \<Rightarrow> (case explicit of
          None \<Rightarrow> Inl (SystemExit 0)
        | Some s \<Rightarrow> if short \<and> s \<noteq> [] \<and> list_all (\<lambda>c. c = CHR ''h'') s then Inl (SystemExit 0) else arg_error)
    | _ \<Rightarrow> Inr (ts, st\<lparr>p_extra := True\<rparr>))"

definition is_option :: "token \<Rightarrow> bool" where
  "is_option t \<longleftrightarrow> token_char t = CHR ''O''"

text \<open>
  The loop: options are consumed where they stand; the arguments before the next option go to positionals,
  or are left over when none takes them. After the last option the rest goes to positionals.
\<close>

lemma take_positionals_length: "take_positionals ns ts st = Inr (rest, st') \<Longrightarrow> length rest \<le> length ts"
  by (induction ns ts st rule: take_positionals.induct) (fastforce simp: result_iff split: list.splits)+

lemma consume_option_length: "consume_option t ts st = Inr (rest, st') \<Longrightarrow> length rest \<le> length ts"
  by (auto simp: consume_option_def arg_error_def result_iff split: token.splits option.splits list.splits if_splits)

lemma dropWhile_shorter: "xs \<noteq> [] \<Longrightarrow> P (hd xs) \<Longrightarrow> length (dropWhile P xs) < length xs"
  by (cases xs) (simp_all add: length_dropWhile_le le_imp_less_Suc)

function parse_loop :: "token list \<Rightarrow> parse \<Rightarrow> parse result" where
  "parse_loop ts st =
     (if \<not> list_ex is_option ts
      then bindR (consume_positionals ts st) (\<lambda>(rest, st'). Inr (if rest = [] then st' else st'\<lparr>p_extra := True\<rparr>))
      else if is_option (hd ts)
      then bindR (consume_option (hd ts) (tl ts) st) (\<lambda>(rest, st'). parse_loop rest st')
      else bindR (consume_positionals ts st) (\<lambda>(rest, st').
             if length rest < length ts then parse_loop rest st'
             else parse_loop (dropWhile (\<lambda>t. \<not> is_option t) ts) (st'\<lparr>p_extra := True\<rparr>)))"
  by pat_completeness auto

termination parse_loop
proof (relation "measure (\<lambda>(ts, st). length ts)", goal_cases)
  case (2 ts st x rest st')
  then have "length rest \<le> length (tl ts)" by (metis consume_option_length)
  moreover have "ts \<noteq> []" using 2(1) by auto
  ultimately show ?case by (cases ts) auto
next
  case (4 ts st x rest st')
  then have "ts \<noteq> []" by auto
  with 4 show ?case by (simp add: dropWhile_shorter)
qed auto

declare parse_loop.simps [simp del]

definition parse_args :: "cli \<Rightarrow> string list \<Rightarrow> namespace result" where
  "parse_args c argv =
     bindR (arg_tokens c argv) (\<lambda>ts.
     bindR (parse_loop ts \<lparr>p_waiting = c_pos c, p_found = [], p_extra = False\<rparr>) (\<lambda>st.
       if p_extra st \<or> list_ex (\<lambda>o'. o_required o' \<and> o_name o' \<notin> fst ` set (p_found st)) (c_opts c)
          \<or> list_ex (\<lambda>p. p_nargs p = One \<or> p_nargs p = Some_More) (p_waiting st)
       then arg_error
       else Inr (p_found st @ map (\<lambda>o'. (o_name o', o_default o')) (c_opts c))))"

text \<open>The attributes of a namespace.\<close>

definition arg_of :: "namespace \<Rightarrow> string \<Rightarrow> aval" where
  "arg_of ns k = (case map_of ns k of Some v \<Rightarrow> v | None \<Rightarrow> ANone)"

definition str_arg :: "namespace \<Rightarrow> string \<Rightarrow> string" where
  "str_arg ns k = (case arg_of ns k of AStr s \<Rightarrow> s | _ \<Rightarrow> [])"

definition int_arg :: "namespace \<Rightarrow> string \<Rightarrow> int" where
  "int_arg ns k = (case arg_of ns k of AInt i \<Rightarrow> i | _ \<Rightarrow> 0)"

definition float_arg :: "namespace \<Rightarrow> string \<Rightarrow> number option" where
  "float_arg ns k = (case arg_of ns k of AFloat x \<Rightarrow> Some x | _ \<Rightarrow> None)"

definition opt_arg :: "namespace \<Rightarrow> string \<Rightarrow> string option" where
  "opt_arg ns k = (case arg_of ns k of AStr s \<Rightarrow> Some s | _ \<Rightarrow> None)"

definition bool_arg :: "namespace \<Rightarrow> string \<Rightarrow> bool" where
  "bool_arg ns k \<longleftrightarrow> arg_of ns k = ABool True"

definition list_arg :: "namespace \<Rightarrow> string \<Rightarrow> string list" where
  "list_arg ns k = (case arg_of ns k of AList ss \<Rightarrow> ss | _ \<Rightarrow> [])"

text \<open>\<open>parser.parse_args(argv)\<close>; \<open>says\<close> is what the library prints for a command line it does not accept.\<close>

definition parse_argsI :: "(string list \<Rightarrow> string) \<Rightarrow> cli \<Rightarrow> string list \<Rightarrow> namespace io" where
  "parse_argsI says c argv = (case parse_args c argv of
      Inr ns \<Rightarrow> retI ns
    | Inl e \<Rightarrow> bindI (if e = SystemExit 0 then (\<lambda>w. (Inr (), w\<lparr>w_out := w_out w @ says argv\<rparr>)) else if e = SystemExit 2 then errI (says argv) else retI ())
        (\<lambda>_. raiseI e))"

section \<open>Plain command lines\<close>

text \<open>A string that is read as an argument wherever it stands, and passes the library unchanged.\<close>

definition plain_arg :: "string \<Rightarrow> bool" where
  "plain_arg s \<longleftrightarrow> s = [] \<or> hd s \<noteq> CHR ''-''"

lemma plain_arg_classify [simp]: "plain_arg s \<Longrightarrow> classify_arg c s = Inr (Given s)"
  by (simp add: plain_arg_def classify_arg_def)

lemma plain_arg_sep [simp]: "plain_arg s \<Longrightarrow> s \<noteq> ''--''"
  by (auto simp: plain_arg_def)

lemma tokens_plain [simp]: "plain_arg s \<Longrightarrow> arg_tokens c (s # ss) = bindR (arg_tokens c ss) (\<lambda>ts. Inr (Given s # ts))"
  by simp

lemma tokens_option:
  "find_opt c s None = Some t \<Longrightarrow> hd s = CHR ''-'' \<Longrightarrow> s \<noteq> [] \<Longrightarrow> s \<noteq> ''--'' \<Longrightarrow>
   arg_tokens c (s # ss) = bindR (arg_tokens c ss) (\<lambda>ts. Inr (t # ts))"
  by (simp add: classify_arg_def)

lemma one_value_plain:
  "s \<noteq> ''--'' \<Longrightarrow> one_value c None [s] = convert_arg c s"
  "s \<noteq> ''--'' \<Longrightarrow> one_value c (Some cs) [s] = bindR (convert_arg c s) (\<lambda>v. if v \<in> AStr ` set cs then Inr v else arg_error)"
  by (cases "convert_arg c s"; simp add: one_value_def)+

lemma loop_option:
  "o_takes o' = Some c \<Longrightarrow>
   parse_loop (Option o' None # Given s # ts) st =
     bindR (one_value c (o_choices o') [s]) (\<lambda>v. parse_loop ts (st\<lparr>p_found := (o_name o', v) # p_found st\<rparr>))"
  by (subst parse_loop.simps, cases "one_value c (o_choices o') [s]") (simp_all add: is_option_def consume_option_def)

lemma loop_flag:
  "o_takes o' = None \<Longrightarrow>
   parse_loop (Option o' None # ts) st = parse_loop ts (st\<lparr>p_found := (o_name o', ABool True) # p_found st\<rparr>)"
  by (subst parse_loop.simps) (simp add: is_option_def consume_option_def)

lemma loop_end: "p_waiting st = [] \<Longrightarrow> parse_loop [] st = Inr st"
  by (subst parse_loop.simps) (simp add: consume_positionals_def)

text \<open>The decimal form of an integer is an argument, also when it is negative.\<close>

definition long_options :: "cli \<Rightarrow> bool" where
  "long_options c \<longleftrightarrow> list_all (\<lambda>o'. starts_with ''--'' (o_name o')) (c_opts c)"

lemma negative_classify:
  assumes "long_options c" and x: "ds = x # xs" "is_digit x \<or> x = CHR ''.''" and "CHR ''='' \<notin> set ds"
    and m: "run negative_rx ([], CHR ''-'' # ds, []) \<noteq> []"
  shows "classify_arg c (CHR ''-'' # ds) = Inr (Given (CHR ''-'' # ds)) \<and> CHR ''-'' # ds \<noteq> ''--''"
proof -
  have nx: "x \<noteq> CHR ''-'' \<and> x \<noteq> CHR ''h''" using x(2) by (auto simp: is_digit_def)
  have "o_name o' \<noteq> CHR ''-'' # ds" if "o' \<in> set (c_opts c)" for o'
    using assms(1) that nx x(1) by (auto simp: long_options_def list_all_iff starts_with_def)
  then have "find (\<lambda>o'. o_name o' = CHR ''-'' # ds) (c_opts c) = None" by (auto simp: find_None_iff)
  then have f: "find_opt c (CHR ''-'' # ds) None = None" using nx x(1) by (simp add: find_opt_def)
  have "split_once CHR ''='' (CHR ''-'' # ds) = [CHR ''-'' # ds]"
    by (rule split_once_no_sep) (use assms(4) in simp)
  then have e: "split_eq (CHR ''-'' # ds) = (CHR ''-'' # ds, None)" by (simp add: split_eq_def)
  have a: "abbreviates c (CHR ''-'' # ds) = []" using nx x(1) by (simp add: abbreviates_def starts_with_def)
  have "re_match negative_rx (CHR ''-'' # ds) \<noteq> None"
    using m by (cases "run negative_rx ([], CHR ''-'' # ds, [])") (auto simp: re_match_def match_at_def)
  then have "classify_arg c (CHR ''-'' # ds) = Inr (Given (CHR ''-'' # ds))"
    unfolding classify_arg_def f e prod.case option.case a list.case using x(1) by simp
  with nx x(1) show ?thesis by simp
qed

lemma str_int_classify:
  assumes "long_options c"
  shows "classify_arg c (str_int i) = Inr (Given (str_int i)) \<and> str_int i \<noteq> ''--''"
proof (cases "i < 0")
  case True
  let ?d = "nat_digits 10 (nat (- i))"
  have d: "list_all is_digit ?d" "?d \<noteq> []" by (simp_all add: nat_digits_dec)
  then obtain x xs where x: "?d = x # xs" "is_digit x" by (cases ?d) auto
  have eq: "CHR ''='' \<notin> set ?d" using d(1) by (auto simp: list_all_iff is_digit_def)
  have "first digits ([CHR ''-''], ?d, []) = Some (rev ?d @ [CHR ''-''], [], [])"
    using first_plus_Cls [of is_digit ?d "[]" "[CHR ''-'']" "[]"] d by (simp add: digits_def)
  from first_Seq [OF first_Bol first_Seq [OF first_chr first_Seq [OF this first_Seq [OF first_Eol first_Empty]]]]
  have "first negative_rx ([], CHR ''-'' # ?d, []) = Some (rev ?d @ [CHR ''-''], [], [])"
    unfolding negative_rx_def seqs.simps by (rule first_Alt1)
  then have "run negative_rx ([], CHR ''-'' # ?d, []) \<noteq> []" by (rule first_run)
  from negative_classify [OF assms x(1) _ eq this] x(2) True show ?thesis by (simp add: str_int_def)
next
  case False
  have d: "list_all is_digit (nat_digits 10 (nat i))" "nat_digits 10 (nat i) \<noteq> []" by (simp_all add: nat_digits_dec)
  then have "hd (nat_digits 10 (nat i)) \<noteq> CHR ''-''" by (cases "nat_digits 10 (nat i)") (auto simp: is_digit_def)
  then have "plain_arg (str_int i)" using False by (simp add: plain_arg_def str_int_def)
  then show ?thesis by simp
qed

text \<open>And so is a decimal fraction.\<close>

lemma decimal_classify:
  assumes "long_options c" and q: "list_all is_digit q" "q \<noteq> []" and r: "list_all is_digit r" "r \<noteq> []"
  shows "classify_arg c (CHR ''-'' # q @ CHR ''.'' # r) = Inr (Given (CHR ''-'' # q @ CHR ''.'' # r))
    \<and> CHR ''-'' # q @ CHR ''.'' # r \<noteq> ''--''"
proof -
  let ?d = "q @ CHR ''.'' # r"
  from q obtain x xs where x: "q = x # xs" "is_digit x" by (cases q) auto
  have eq: "CHR ''='' \<notin> set ?d" using q r by (auto simp: list_all_iff is_digit_def)
  have s: "first (Star (Cls is_digit)) ([CHR ''-''], ?d, []) = Some (rev q @ [CHR ''-''], CHR ''.'' # r, [])"
    by (rule first_Star_Cls [OF q(1)]) (simp add: is_digit_def)
  have "first digits (CHR ''.'' # rev q @ [CHR ''-''], r, []) = Some (rev r @ CHR ''.'' # rev q @ [CHR ''-''], [], [])"
    using first_plus_Cls [of is_digit r "[]" "CHR ''.'' # rev q @ [CHR ''-'']" "[]"] r by (simp add: digits_def)
  from first_Seq [OF first_Bol first_Seq [OF first_chr first_Seq [OF s first_Seq [OF first_chr first_Seq [OF this first_Seq [OF first_Eol first_Empty]]]]]]
  have "first (seqs [Bol, chr CHR ''-'', Star (Cls is_digit), chr CHR ''.'', digits, Eol]) ([], CHR ''-'' # ?d, []) =
      Some (rev r @ CHR ''.'' # rev q @ [CHR ''-''], [], [])" by (simp only: seqs.simps)
  from first_run [OF this] have "run negative_rx ([], CHR ''-'' # ?d, []) \<noteq> []"
    by (simp only: negative_rx_def run.simps append_is_Nil_conv) simp
  then show ?thesis using x by (intro negative_classify [OF assms(1) _ _ eq]) auto
qed

lemma tokens_int:
  "long_options c \<Longrightarrow> arg_tokens c (str_int i # ss) = bindR (arg_tokens c ss) (\<lambda>ts. Inr (Given (str_int i) # ts))"
  using str_int_classify [of c i] by simp

text \<open>A path the library leaves as it is.\<close>

definition plain_path :: "string \<Rightarrow> bool" where
  "plain_path p \<longleftrightarrow> plain_arg p \<and> path_norm p = p"

end
