(* ===== verification/Crv_Encoding.thy ===== *)
theory Crv_Encoding
  imports Py_Str
begin

text \<open>
  The instruction encoder of the constrained-random harness, tools/crv/encoding.py: the register and
  rounding-mode enumerations, the assembly instruction with its rendering, the operand checks with
  the exceptions they raise, and one definition per encoder function (its name with the suffix
  \<open>_i\<close>). Encoders take Python objects for the operands they check at run time, so passing a floating
  point register where a general one is expected is the \<open>TypeError\<close> branch of the model.
\<close>

section \<open>Registers and rounding modes\<close>

datatype reg =
    X0 | X1 | X2 | X3 | X4 | X5 | X6 | X7 | X8 | X9 | X10 | X11 | X12 | X13 | X14 | X15
    | X16 | X17 | X18 | X19 | X20 | X21 | X22 | X23 | X24 | X25 | X26 | X27 | X28 | X29
    | X30 | X31

datatype freg =
    F0 | F1 | F2 | F3 | F4 | F5 | F6 | F7 | F8 | F9 | F10 | F11 | F12 | F13 | F14 | F15
    | F16 | F17 | F18 | F19 | F20 | F21 | F22 | F23 | F24 | F25 | F26 | F27 | F28 | F29
    | F30 | F31

definition all_regs :: "reg list" where
  "all_regs = [X0, X1, X2, X3, X4, X5, X6, X7, X8, X9, X10, X11, X12, X13, X14, X15, X16, X17, X18, X19
     , X20, X21, X22, X23, X24, X25, X26, X27, X28, X29, X30, X31]"

definition all_fregs :: "freg list" where
  "all_fregs = [F0, F1, F2, F3, F4, F5, F6, F7, F8, F9, F10, F11, F12, F13, F14, F15, F16, F17, F18, F19
     , F20, F21, F22, F23, F24, F25, F26, F27, F28, F29, F30, F31]"

primrec reg_value :: "reg \<Rightarrow> nat" where
  "reg_value X0 = 0" | "reg_value X1 = 1" | "reg_value X2 = 2" | "reg_value X3 = 3"
| "reg_value X4 = 4" | "reg_value X5 = 5" | "reg_value X6 = 6" | "reg_value X7 = 7"
| "reg_value X8 = 8" | "reg_value X9 = 9" | "reg_value X10 = 10"
| "reg_value X11 = 11" | "reg_value X12 = 12" | "reg_value X13 = 13"
| "reg_value X14 = 14" | "reg_value X15 = 15" | "reg_value X16 = 16"
| "reg_value X17 = 17" | "reg_value X18 = 18" | "reg_value X19 = 19"
| "reg_value X20 = 20" | "reg_value X21 = 21" | "reg_value X22 = 22"
| "reg_value X23 = 23" | "reg_value X24 = 24" | "reg_value X25 = 25"
| "reg_value X26 = 26" | "reg_value X27 = 27" | "reg_value X28 = 28"
| "reg_value X29 = 29" | "reg_value X30 = 30" | "reg_value X31 = 31"

primrec freg_value :: "freg \<Rightarrow> nat" where
  "freg_value F0 = 0" | "freg_value F1 = 1" | "freg_value F2 = 2" | "freg_value F3 = 3"
| "freg_value F4 = 4" | "freg_value F5 = 5" | "freg_value F6 = 6"
| "freg_value F7 = 7" | "freg_value F8 = 8" | "freg_value F9 = 9"
| "freg_value F10 = 10" | "freg_value F11 = 11" | "freg_value F12 = 12"
| "freg_value F13 = 13" | "freg_value F14 = 14" | "freg_value F15 = 15"
| "freg_value F16 = 16" | "freg_value F17 = 17" | "freg_value F18 = 18"
| "freg_value F19 = 19" | "freg_value F20 = 20" | "freg_value F21 = 21"
| "freg_value F22 = 22" | "freg_value F23 = 23" | "freg_value F24 = 24"
| "freg_value F25 = 25" | "freg_value F26 = 26" | "freg_value F27 = 27"
| "freg_value F28 = 28" | "freg_value F29 = 29" | "freg_value F30 = 30"
| "freg_value F31 = 31"

text \<open>\<open>Reg(i)\<close>: the member with that value, a \<open>ValueError\<close> when there is none.\<close>

definition reg_of_value :: "int \<Rightarrow> reg result" where
  "reg_of_value i = (if 0 \<le> i \<and> i < 32 then Inr (all_regs ! nat i)
     else Inl (ValueError (str_int i @ '' is not a valid Reg'')))"

definition reg_asm :: "reg \<Rightarrow> string" where
  "reg_asm r = CHR ''x'' # nat_digits 10 (reg_value r)"

definition freg_asm :: "freg \<Rightarrow> string" where
  "freg_asm r = CHR ''f'' # nat_digits 10 (freg_value r)"

datatype rounding_mode = RNE | RTZ | RDN | RUP | RMM | DYN

primrec rm_asm :: "rounding_mode \<Rightarrow> string" where
  "rm_asm RNE = ''rne''"
| "rm_asm RTZ = ''rtz''"
| "rm_asm RDN = ''rdn''"
| "rm_asm RUP = ''rup''"
| "rm_asm RMM = ''rmm''"
| "rm_asm DYN = ''dyn''"

lemma reg_value_less [simp]: "reg_value r < 32"
  by (cases r) simp_all

lemma freg_value_less [simp]: "freg_value r < 32"
  by (cases r) simp_all

lemma all_regs_nth [simp]: "all_regs ! reg_value r = r"
  by (cases r) (simp_all add: all_regs_def)

lemma all_fregs_nth [simp]: "all_fregs ! freg_value r = r"
  by (cases r) (simp_all add: all_fregs_def)

lemma reg_of_value_inverse [simp]: "reg_of_value (int (reg_value r)) = Inr r"
  by (simp add: reg_of_value_def)

lemma reg_value_eq_iff [simp]: "reg_value r = reg_value s \<longleftrightarrow> r = s"
  by (metis all_regs_nth)

lemma freg_value_eq_iff [simp]: "freg_value r = freg_value s \<longleftrightarrow> r = s"
  by (metis all_fregs_nth)

lemma all_regs_length [simp]: "length all_regs = 32"
  by (simp add: all_regs_def)

lemma all_fregs_length [simp]: "length all_fregs = 32"
  by (simp add: all_fregs_def)

lemma set_all_regs [simp]: "set all_regs = UNIV"
  by (metis (no_types) UNIV_eq_I all_regs_length all_regs_nth nth_mem reg_value_less)

lemma set_all_fregs [simp]: "set all_fregs = UNIV"
  by (metis (no_types) UNIV_eq_I all_fregs_length all_fregs_nth nth_mem freg_value_less)

text \<open>Registers are ordered by their number, as the source's \<open>sorted(..., key=lambda r: r.value)\<close>.\<close>

instantiation reg :: linorder
begin

definition less_eq_reg :: "reg \<Rightarrow> reg \<Rightarrow> bool" where
  "r \<le> s \<longleftrightarrow> reg_value r \<le> reg_value s"

definition less_reg :: "reg \<Rightarrow> reg \<Rightarrow> bool" where
  "r < s \<longleftrightarrow> reg_value r < reg_value s"

instance
  by standard (auto simp: less_eq_reg_def less_reg_def)

end

instantiation freg :: linorder
begin

definition less_eq_freg :: "freg \<Rightarrow> freg \<Rightarrow> bool" where
  "r \<le> s \<longleftrightarrow> freg_value r \<le> freg_value s"

definition less_freg :: "freg \<Rightarrow> freg \<Rightarrow> bool" where
  "r < s \<longleftrightarrow> freg_value r < freg_value s"

instance
  by standard (auto simp: less_eq_freg_def less_freg_def)

end

section \<open>Operands and instructions\<close>

text \<open>The Python values the encoders receive.\<close>

datatype pyobj = OReg reg | OFReg freg | OInt int | OStr string

primrec type_name :: "pyobj \<Rightarrow> string" where
  "type_name (OReg r) = ''Reg''"
| "type_name (OFReg r) = ''FReg''"
| "type_name (OInt i) = ''int''"
| "type_name (OStr s) = ''str''"

text \<open>\<open>str(x)\<close> of a label or an offset.\<close>

primrec str_obj :: "pyobj \<Rightarrow> string" where
  "str_obj (OReg r) = ''Reg.X'' @ nat_digits 10 (reg_value r)"
| "str_obj (OFReg r) = ''FReg.F'' @ nat_digits 10 (freg_value r)"
| "str_obj (OInt i) = str_int i"
| "str_obj (OStr s) = s"

record asm_instr =
  mnemonic :: string
  operands :: "string list"

definition mk_instr :: "string \<Rightarrow> string list \<Rightarrow> asm_instr" where
  "mk_instr m ops = \<lparr>mnemonic = m, operands = ops\<rparr>"

definition to_asm :: "asm_instr \<Rightarrow> string" where
  "to_asm i = (if operands i = [] then mnemonic i else mnemonic i @ '' '' @ join '', '' (operands i))"

section \<open>Checks\<close>

definition range_msg :: "string \<Rightarrow> int \<Rightarrow> int \<Rightarrow> int \<Rightarrow> string" where
  "range_msg name v lo hi = name @ ''='' @ str_int v @ '' out of range ['' @ str_int lo @ '', '' @ str_int hi @ '']''"

definition check_simm :: "int \<Rightarrow> nat \<Rightarrow> string \<Rightarrow> unit result" where
  "check_simm v bits name =
     (let lo = - push_bit (bits - 1) 1; hi = push_bit (bits - 1) 1 - 1 in
      if lo \<le> v \<and> v \<le> hi then Inr () else Inl (ValueError (range_msg name v lo hi)))"

definition check_uimm :: "int \<Rightarrow> nat \<Rightarrow> string \<Rightarrow> unit result" where
  "check_uimm v bits name =
     (if 0 \<le> v \<and> v < push_bit bits 1 then Inr ()
      else Inl (ValueError (range_msg name v 0 (push_bit bits 1 - 1))))"

definition check_branch_offset :: "int \<Rightarrow> unit result" where
  "check_branch_offset off = bindR (check_simm off 13 ''branch offset'') (\<lambda>_.
     if off AND 1 \<noteq> 0 then Inl (ValueError (''branch offset '' @ str_int off @ '' must be multiple of 2''))
     else Inr ())"

definition check_jal_offset :: "int \<Rightarrow> unit result" where
  "check_jal_offset off = bindR (check_simm off 21 ''jal offset'') (\<lambda>_.
     if off AND 1 \<noteq> 0 then Inl (ValueError (''jal offset '' @ str_int off @ '' must be multiple of 2''))
     else Inr ())"

definition gp :: "string \<Rightarrow> pyobj \<Rightarrow> reg result" where
  "gp name x = (case x of OReg r \<Rightarrow> Inr r
     | _ \<Rightarrow> Inl (TypeError (name @ '' must be a Reg, got '' @ type_name x)))"

definition fp :: "string \<Rightarrow> pyobj \<Rightarrow> freg result" where
  "fp name x = (case x of OFReg r \<Rightarrow> Inr r
     | _ \<Rightarrow> Inl (TypeError (name @ '' must be an FReg, got '' @ type_name x)))"

text \<open>\<open>_gp(name, x).asm()\<close> and \<open>_fp(name, x).asm()\<close>.\<close>

definition gp_asm :: "string \<Rightarrow> pyobj \<Rightarrow> string result" where
  "gp_asm name x = bindR (gp name x) (\<lambda>r. Inr (reg_asm r))"

definition fp_asm :: "string \<Rightarrow> pyobj \<Rightarrow> string result" where
  "fp_asm name x = bindR (fp name x) (\<lambda>r. Inr (freg_asm r))"

definition parens :: "string \<Rightarrow> string" where
  "parens s = ''('' @ s @ '')''"

section \<open>Integer encoders\<close>

text \<open>The body the register-register encoders share.\<close>

definition r_type :: "string \<Rightarrow> pyobj \<Rightarrow> pyobj \<Rightarrow> pyobj \<Rightarrow> asm_instr result" where
  "r_type m rd rs1 rs2 =
     bindR (gp_asm ''rd'' rd) (\<lambda>d. bindR (gp_asm ''rs1'' rs1) (\<lambda>a. bindR (gp_asm ''rs2'' rs2) (\<lambda>b.
       Inr (mk_instr m [d, a, b]))))"

definition add_i :: "pyobj \<Rightarrow> pyobj \<Rightarrow> pyobj \<Rightarrow> asm_instr result" where
  "add_i rd rs1 rs2 = r_type ''add'' rd rs1 rs2"

definition sub_i :: "pyobj \<Rightarrow> pyobj \<Rightarrow> pyobj \<Rightarrow> asm_instr result" where
  "sub_i rd rs1 rs2 = r_type ''sub'' rd rs1 rs2"

definition sll_i :: "pyobj \<Rightarrow> pyobj \<Rightarrow> pyobj \<Rightarrow> asm_instr result" where
  "sll_i rd rs1 rs2 = r_type ''sll'' rd rs1 rs2"

definition srl_i :: "pyobj \<Rightarrow> pyobj \<Rightarrow> pyobj \<Rightarrow> asm_instr result" where
  "srl_i rd rs1 rs2 = r_type ''srl'' rd rs1 rs2"

definition sra_i :: "pyobj \<Rightarrow> pyobj \<Rightarrow> pyobj \<Rightarrow> asm_instr result" where
  "sra_i rd rs1 rs2 = r_type ''sra'' rd rs1 rs2"

definition addi_i :: "pyobj \<Rightarrow> pyobj \<Rightarrow> int \<Rightarrow> asm_instr result" where
  "addi_i rd rs1 imm = bindR (check_simm imm 12 ''I-type imm'') (\<lambda>_.
     bindR (gp_asm ''rd'' rd) (\<lambda>d. bindR (gp_asm ''rs1'' rs1) (\<lambda>a.
       Inr (mk_instr ''addi'' [d, a, str_int imm]))))"

definition slli_i :: "pyobj \<Rightarrow> pyobj \<Rightarrow> int \<Rightarrow> asm_instr result" where
  "slli_i rd rs1 shamt = bindR (check_uimm shamt 6 ''shamt'') (\<lambda>_.
     bindR (gp_asm ''rd'' rd) (\<lambda>d. bindR (gp_asm ''rs1'' rs1) (\<lambda>a.
       Inr (mk_instr ''slli'' [d, a, str_int shamt]))))"

definition srli_i :: "pyobj \<Rightarrow> pyobj \<Rightarrow> int \<Rightarrow> asm_instr result" where
  "srli_i rd rs1 shamt = bindR (check_uimm shamt 6 ''shamt'') (\<lambda>_.
     bindR (gp_asm ''rd'' rd) (\<lambda>d. bindR (gp_asm ''rs1'' rs1) (\<lambda>a.
       Inr (mk_instr ''srli'' [d, a, str_int shamt]))))"

definition srai_i :: "pyobj \<Rightarrow> pyobj \<Rightarrow> int \<Rightarrow> asm_instr result" where
  "srai_i rd rs1 shamt = bindR (check_uimm shamt 6 ''shamt'') (\<lambda>_.
     bindR (gp_asm ''rd'' rd) (\<lambda>d. bindR (gp_asm ''rs1'' rs1) (\<lambda>a.
       Inr (mk_instr ''srai'' [d, a, str_int shamt]))))"

definition lui_i :: "pyobj \<Rightarrow> int \<Rightarrow> asm_instr result" where
  "lui_i rd imm = bindR (check_uimm imm 20 ''U-type imm'') (\<lambda>_.
     bindR (gp_asm ''rd'' rd) (\<lambda>d. Inr (mk_instr ''lui'' [d, str_int imm])))"

definition auipc_i :: "pyobj \<Rightarrow> int \<Rightarrow> asm_instr result" where
  "auipc_i rd imm = bindR (check_uimm imm 20 ''U-type imm'') (\<lambda>_.
     bindR (gp_asm ''rd'' rd) (\<lambda>d. Inr (mk_instr ''auipc'' [d, str_int imm])))"

definition jal_i :: "pyobj \<Rightarrow> pyobj \<Rightarrow> asm_instr result" where
  "jal_i rd label_or_offset =
     (case label_or_offset of
        OInt off \<Rightarrow> bindR (check_jal_offset off) (\<lambda>_. bindR (gp_asm ''rd'' rd) (\<lambda>d.
          Inr (mk_instr ''jal'' [d, str_int off])))
      | x \<Rightarrow> bindR (gp_asm ''rd'' rd) (\<lambda>d. Inr (mk_instr ''jal'' [d, str_obj x])))"

definition jalr_i :: "pyobj \<Rightarrow> pyobj \<Rightarrow> int \<Rightarrow> asm_instr result" where
  "jalr_i rd rs1 imm = bindR (check_simm imm 12 ''I-type imm'') (\<lambda>_.
     bindR (gp_asm ''rd'' rd) (\<lambda>d. bindR (gp_asm ''rs1'' rs1) (\<lambda>a.
       Inr (mk_instr ''jalr'' [d, str_int imm, parens a]))))"

definition branch :: "string \<Rightarrow> pyobj \<Rightarrow> pyobj \<Rightarrow> pyobj \<Rightarrow> asm_instr result" where
  "branch m rs1 rs2 label_or_offset =
     bindR (case label_or_offset of OInt off \<Rightarrow> check_branch_offset off | _ \<Rightarrow> Inr ()) (\<lambda>_.
     bindR (gp_asm ''rs1'' rs1) (\<lambda>a. bindR (gp_asm ''rs2'' rs2) (\<lambda>b.
       Inr (mk_instr m [a, b, str_obj label_or_offset]))))"

definition beq_i :: "pyobj \<Rightarrow> pyobj \<Rightarrow> pyobj \<Rightarrow> asm_instr result" where
  "beq_i rs1 rs2 off = branch ''beq'' rs1 rs2 off"

definition bne_i :: "pyobj \<Rightarrow> pyobj \<Rightarrow> pyobj \<Rightarrow> asm_instr result" where
  "bne_i rs1 rs2 off = branch ''bne'' rs1 rs2 off"

definition blt_i :: "pyobj \<Rightarrow> pyobj \<Rightarrow> pyobj \<Rightarrow> asm_instr result" where
  "blt_i rs1 rs2 off = branch ''blt'' rs1 rs2 off"

definition bge_i :: "pyobj \<Rightarrow> pyobj \<Rightarrow> pyobj \<Rightarrow> asm_instr result" where
  "bge_i rs1 rs2 off = branch ''bge'' rs1 rs2 off"

definition bltu_i :: "pyobj \<Rightarrow> pyobj \<Rightarrow> pyobj \<Rightarrow> asm_instr result" where
  "bltu_i rs1 rs2 off = branch ''bltu'' rs1 rs2 off"

definition bgeu_i :: "pyobj \<Rightarrow> pyobj \<Rightarrow> pyobj \<Rightarrow> asm_instr result" where
  "bgeu_i rs1 rs2 off = branch ''bgeu'' rs1 rs2 off"

definition load_instr :: "string \<Rightarrow> pyobj \<Rightarrow> pyobj \<Rightarrow> int \<Rightarrow> asm_instr result" where
  "load_instr m rd rs1 imm = bindR (check_simm imm 12 ''I-type imm'') (\<lambda>_.
     bindR (gp_asm ''rd'' rd) (\<lambda>d. bindR (gp_asm ''rs1'' rs1) (\<lambda>a.
       Inr (mk_instr m [d, str_int imm @ parens a]))))"

definition lb_i :: "pyobj \<Rightarrow> pyobj \<Rightarrow> int \<Rightarrow> asm_instr result" where
  "lb_i rd rs1 imm = load_instr ''lb'' rd rs1 imm"

definition lh_i :: "pyobj \<Rightarrow> pyobj \<Rightarrow> int \<Rightarrow> asm_instr result" where
  "lh_i rd rs1 imm = load_instr ''lh'' rd rs1 imm"

definition lw_i :: "pyobj \<Rightarrow> pyobj \<Rightarrow> int \<Rightarrow> asm_instr result" where
  "lw_i rd rs1 imm = load_instr ''lw'' rd rs1 imm"

definition ld_i :: "pyobj \<Rightarrow> pyobj \<Rightarrow> int \<Rightarrow> asm_instr result" where
  "ld_i rd rs1 imm = load_instr ''ld'' rd rs1 imm"

definition store_instr :: "string \<Rightarrow> pyobj \<Rightarrow> pyobj \<Rightarrow> int \<Rightarrow> asm_instr result" where
  "store_instr m rs2 rs1 imm = bindR (check_simm imm 12 ''S-type imm'') (\<lambda>_.
     bindR (gp_asm ''rs2'' rs2) (\<lambda>b. bindR (gp_asm ''rs1'' rs1) (\<lambda>a.
       Inr (mk_instr m [b, str_int imm @ parens a]))))"

definition sb_i :: "pyobj \<Rightarrow> pyobj \<Rightarrow> int \<Rightarrow> asm_instr result" where
  "sb_i rs2 rs1 imm = store_instr ''sb'' rs2 rs1 imm"

definition sh_i :: "pyobj \<Rightarrow> pyobj \<Rightarrow> int \<Rightarrow> asm_instr result" where
  "sh_i rs2 rs1 imm = store_instr ''sh'' rs2 rs1 imm"

definition sw_i :: "pyobj \<Rightarrow> pyobj \<Rightarrow> int \<Rightarrow> asm_instr result" where
  "sw_i rs2 rs1 imm = store_instr ''sw'' rs2 rs1 imm"

definition sd_i :: "pyobj \<Rightarrow> pyobj \<Rightarrow> int \<Rightarrow> asm_instr result" where
  "sd_i rs2 rs1 imm = store_instr ''sd'' rs2 rs1 imm"

definition mul_i :: "pyobj \<Rightarrow> pyobj \<Rightarrow> pyobj \<Rightarrow> asm_instr result" where
  "mul_i rd rs1 rs2 = r_type ''mul'' rd rs1 rs2"

definition div_i :: "pyobj \<Rightarrow> pyobj \<Rightarrow> pyobj \<Rightarrow> asm_instr result" where
  "div_i rd rs1 rs2 = r_type ''div'' rd rs1 rs2"

definition divu_i :: "pyobj \<Rightarrow> pyobj \<Rightarrow> pyobj \<Rightarrow> asm_instr result" where
  "divu_i rd rs1 rs2 = r_type ''divu'' rd rs1 rs2"

definition rem_i :: "pyobj \<Rightarrow> pyobj \<Rightarrow> pyobj \<Rightarrow> asm_instr result" where
  "rem_i rd rs1 rs2 = r_type ''rem'' rd rs1 rs2"

definition remu_i :: "pyobj \<Rightarrow> pyobj \<Rightarrow> pyobj \<Rightarrow> asm_instr result" where
  "remu_i rd rs1 rs2 = r_type ''remu'' rd rs1 rs2"

section \<open>Atomics\<close>

definition amo_suffix :: "bool \<Rightarrow> bool \<Rightarrow> string" where
  "amo_suffix aq rl =
     (if aq \<and> rl then ''.aqrl'' else if aq then ''.aq'' else if rl then ''.rl'' else [])"

definition lr_w :: "pyobj \<Rightarrow> pyobj \<Rightarrow> bool \<Rightarrow> bool \<Rightarrow> asm_instr result" where
  "lr_w rd rs1 aq rl =
     bindR (gp_asm ''rd'' rd) (\<lambda>d. bindR (gp_asm ''rs1'' rs1) (\<lambda>a.
       Inr (mk_instr (''lr.w'' @ amo_suffix aq rl) [d, parens a])))"

definition sc_w :: "pyobj \<Rightarrow> pyobj \<Rightarrow> pyobj \<Rightarrow> bool \<Rightarrow> bool \<Rightarrow> asm_instr result" where
  "sc_w rd rs2 rs1 aq rl =
     bindR (gp_asm ''rd'' rd) (\<lambda>d. bindR (gp_asm ''rs2'' rs2) (\<lambda>b. bindR (gp_asm ''rs1'' rs1) (\<lambda>a.
       Inr (mk_instr (''sc.w'' @ amo_suffix aq rl) [d, b, parens a]))))"

definition amoadd_w :: "pyobj \<Rightarrow> pyobj \<Rightarrow> pyobj \<Rightarrow> bool \<Rightarrow> bool \<Rightarrow> asm_instr result" where
  "amoadd_w rd rs2 rs1 aq rl =
     bindR (gp_asm ''rd'' rd) (\<lambda>d. bindR (gp_asm ''rs2'' rs2) (\<lambda>b. bindR (gp_asm ''rs1'' rs1) (\<lambda>a.
       Inr (mk_instr (''amoadd.w'' @ amo_suffix aq rl) [d, b, parens a]))))"

definition lr_d :: "pyobj \<Rightarrow> pyobj \<Rightarrow> bool \<Rightarrow> bool \<Rightarrow> asm_instr result" where
  "lr_d rd rs1 aq rl =
     bindR (gp_asm ''rd'' rd) (\<lambda>d. bindR (gp_asm ''rs1'' rs1) (\<lambda>a.
       Inr (mk_instr (''lr.d'' @ amo_suffix aq rl) [d, parens a])))"

definition sc_d :: "pyobj \<Rightarrow> pyobj \<Rightarrow> pyobj \<Rightarrow> bool \<Rightarrow> bool \<Rightarrow> asm_instr result" where
  "sc_d rd rs2 rs1 aq rl =
     bindR (gp_asm ''rd'' rd) (\<lambda>d. bindR (gp_asm ''rs2'' rs2) (\<lambda>b. bindR (gp_asm ''rs1'' rs1) (\<lambda>a.
       Inr (mk_instr (''sc.d'' @ amo_suffix aq rl) [d, b, parens a]))))"

definition amoop :: "string \<Rightarrow> string \<Rightarrow> pyobj \<Rightarrow> pyobj \<Rightarrow> pyobj \<Rightarrow> bool \<Rightarrow> bool \<Rightarrow> asm_instr result" where
  "amoop op width rd rs2 rs1 aq rl =
     bindR (gp_asm ''rd'' rd) (\<lambda>d. bindR (gp_asm ''rs2'' rs2) (\<lambda>b. bindR (gp_asm ''rs1'' rs1) (\<lambda>a.
       Inr (mk_instr (''amo'' @ op @ ''.'' @ width @ amo_suffix aq rl) [d, b, parens a]))))"

definition amoswap_w :: "pyobj \<Rightarrow> pyobj \<Rightarrow> pyobj \<Rightarrow> bool \<Rightarrow> bool \<Rightarrow> asm_instr result" where
  "amoswap_w rd rs2 rs1 aq rl = amoop ''swap'' ''w'' rd rs2 rs1 aq rl"

definition amoand_w :: "pyobj \<Rightarrow> pyobj \<Rightarrow> pyobj \<Rightarrow> bool \<Rightarrow> bool \<Rightarrow> asm_instr result" where
  "amoand_w rd rs2 rs1 aq rl = amoop ''and'' ''w'' rd rs2 rs1 aq rl"

definition amoor_w :: "pyobj \<Rightarrow> pyobj \<Rightarrow> pyobj \<Rightarrow> bool \<Rightarrow> bool \<Rightarrow> asm_instr result" where
  "amoor_w rd rs2 rs1 aq rl = amoop ''or'' ''w'' rd rs2 rs1 aq rl"

definition amoxor_w :: "pyobj \<Rightarrow> pyobj \<Rightarrow> pyobj \<Rightarrow> bool \<Rightarrow> bool \<Rightarrow> asm_instr result" where
  "amoxor_w rd rs2 rs1 aq rl = amoop ''xor'' ''w'' rd rs2 rs1 aq rl"

definition amomin_w :: "pyobj \<Rightarrow> pyobj \<Rightarrow> pyobj \<Rightarrow> bool \<Rightarrow> bool \<Rightarrow> asm_instr result" where
  "amomin_w rd rs2 rs1 aq rl = amoop ''min'' ''w'' rd rs2 rs1 aq rl"

definition amomax_w :: "pyobj \<Rightarrow> pyobj \<Rightarrow> pyobj \<Rightarrow> bool \<Rightarrow> bool \<Rightarrow> asm_instr result" where
  "amomax_w rd rs2 rs1 aq rl = amoop ''max'' ''w'' rd rs2 rs1 aq rl"

definition amominu_w :: "pyobj \<Rightarrow> pyobj \<Rightarrow> pyobj \<Rightarrow> bool \<Rightarrow> bool \<Rightarrow> asm_instr result" where
  "amominu_w rd rs2 rs1 aq rl = amoop ''minu'' ''w'' rd rs2 rs1 aq rl"

definition amomaxu_w :: "pyobj \<Rightarrow> pyobj \<Rightarrow> pyobj \<Rightarrow> bool \<Rightarrow> bool \<Rightarrow> asm_instr result" where
  "amomaxu_w rd rs2 rs1 aq rl = amoop ''maxu'' ''w'' rd rs2 rs1 aq rl"

section \<open>Floating point\<close>

definition fp_op3 :: "string \<Rightarrow> pyobj \<Rightarrow> pyobj \<Rightarrow> pyobj \<Rightarrow> rounding_mode \<Rightarrow> asm_instr result" where
  "fp_op3 m rd rs1 rs2 rm =
     bindR (fp_asm ''rd'' rd) (\<lambda>d. bindR (fp_asm ''rs1'' rs1) (\<lambda>a. bindR (fp_asm ''rs2'' rs2) (\<lambda>b.
       if rm = DYN then Inr (mk_instr m [d, a, b]) else Inr (mk_instr m [d, a, b, rm_asm rm]))))"

definition fadd_s :: "pyobj \<Rightarrow> pyobj \<Rightarrow> pyobj \<Rightarrow> rounding_mode \<Rightarrow> asm_instr result" where
  "fadd_s rd rs1 rs2 rm = fp_op3 ''fadd.s'' rd rs1 rs2 rm"

definition fadd_d :: "pyobj \<Rightarrow> pyobj \<Rightarrow> pyobj \<Rightarrow> rounding_mode \<Rightarrow> asm_instr result" where
  "fadd_d rd rs1 rs2 rm = fp_op3 ''fadd.d'' rd rs1 rs2 rm"

definition fmul_s :: "pyobj \<Rightarrow> pyobj \<Rightarrow> pyobj \<Rightarrow> rounding_mode \<Rightarrow> asm_instr result" where
  "fmul_s rd rs1 rs2 rm = fp_op3 ''fmul.s'' rd rs1 rs2 rm"

definition fmul_d :: "pyobj \<Rightarrow> pyobj \<Rightarrow> pyobj \<Rightarrow> rounding_mode \<Rightarrow> asm_instr result" where
  "fmul_d rd rs1 rs2 rm = fp_op3 ''fmul.d'' rd rs1 rs2 rm"

definition fdiv_s :: "pyobj \<Rightarrow> pyobj \<Rightarrow> pyobj \<Rightarrow> rounding_mode \<Rightarrow> asm_instr result" where
  "fdiv_s rd rs1 rs2 rm = fp_op3 ''fdiv.s'' rd rs1 rs2 rm"

definition fdiv_d :: "pyobj \<Rightarrow> pyobj \<Rightarrow> pyobj \<Rightarrow> rounding_mode \<Rightarrow> asm_instr result" where
  "fdiv_d rd rs1 rs2 rm = fp_op3 ''fdiv.d'' rd rs1 rs2 rm"

definition fsub_s :: "pyobj \<Rightarrow> pyobj \<Rightarrow> pyobj \<Rightarrow> rounding_mode \<Rightarrow> asm_instr result" where
  "fsub_s rd rs1 rs2 rm = fp_op3 ''fsub.s'' rd rs1 rs2 rm"

definition fsub_d :: "pyobj \<Rightarrow> pyobj \<Rightarrow> pyobj \<Rightarrow> rounding_mode \<Rightarrow> asm_instr result" where
  "fsub_d rd rs1 rs2 rm = fp_op3 ''fsub.d'' rd rs1 rs2 rm"

definition fsqrt_s :: "pyobj \<Rightarrow> pyobj \<Rightarrow> rounding_mode \<Rightarrow> asm_instr result" where
  "fsqrt_s rd rs1 rm =
     bindR (fp_asm ''rd'' rd) (\<lambda>d. bindR (fp_asm ''rs1'' rs1) (\<lambda>a.
       if rm = DYN then Inr (mk_instr ''fsqrt.s'' [d, a]) else Inr (mk_instr ''fsqrt.s'' [d, a, rm_asm rm])))"

definition fsqrt_d :: "pyobj \<Rightarrow> pyobj \<Rightarrow> rounding_mode \<Rightarrow> asm_instr result" where
  "fsqrt_d rd rs1 rm =
     bindR (fp_asm ''rd'' rd) (\<lambda>d. bindR (fp_asm ''rs1'' rs1) (\<lambda>a.
       if rm = DYN then Inr (mk_instr ''fsqrt.d'' [d, a]) else Inr (mk_instr ''fsqrt.d'' [d, a, rm_asm rm])))"

definition fp_op4 :: "string \<Rightarrow> pyobj \<Rightarrow> pyobj \<Rightarrow> pyobj \<Rightarrow> pyobj \<Rightarrow> rounding_mode \<Rightarrow> asm_instr result" where
  "fp_op4 m rd rs1 rs2 rs3 rm =
     bindR (fp_asm ''rd'' rd) (\<lambda>d. bindR (fp_asm ''rs1'' rs1) (\<lambda>a.
     bindR (fp_asm ''rs2'' rs2) (\<lambda>b. bindR (fp_asm ''rs3'' rs3) (\<lambda>c.
       if rm = DYN then Inr (mk_instr m [d, a, b, c]) else Inr (mk_instr m [d, a, b, c, rm_asm rm])))))"

definition fmadd_s :: "pyobj \<Rightarrow> pyobj \<Rightarrow> pyobj \<Rightarrow> pyobj \<Rightarrow> rounding_mode \<Rightarrow> asm_instr result" where
  "fmadd_s rd rs1 rs2 rs3 rm = fp_op4 ''fmadd.s'' rd rs1 rs2 rs3 rm"

definition fmadd_d :: "pyobj \<Rightarrow> pyobj \<Rightarrow> pyobj \<Rightarrow> pyobj \<Rightarrow> rounding_mode \<Rightarrow> asm_instr result" where
  "fmadd_d rd rs1 rs2 rs3 rm = fp_op4 ''fmadd.d'' rd rs1 rs2 rs3 rm"

definition fp_load :: "string \<Rightarrow> pyobj \<Rightarrow> pyobj \<Rightarrow> int \<Rightarrow> asm_instr result" where
  "fp_load m rd rs1 imm = bindR (check_simm imm 12 ''I-type imm'') (\<lambda>_.
     bindR (fp_asm ''rd'' rd) (\<lambda>d. bindR (gp_asm ''rs1'' rs1) (\<lambda>a.
       Inr (mk_instr m [d, str_int imm @ parens a]))))"

definition flw_i :: "pyobj \<Rightarrow> pyobj \<Rightarrow> int \<Rightarrow> asm_instr result" where
  "flw_i rd rs1 imm = fp_load ''flw'' rd rs1 imm"

definition fld_i :: "pyobj \<Rightarrow> pyobj \<Rightarrow> int \<Rightarrow> asm_instr result" where
  "fld_i rd rs1 imm = fp_load ''fld'' rd rs1 imm"

definition fp_store :: "string \<Rightarrow> pyobj \<Rightarrow> pyobj \<Rightarrow> int \<Rightarrow> asm_instr result" where
  "fp_store m rs2 rs1 imm = bindR (check_simm imm 12 ''S-type imm'') (\<lambda>_.
     bindR (fp_asm ''rs2'' rs2) (\<lambda>b. bindR (gp_asm ''rs1'' rs1) (\<lambda>a.
       Inr (mk_instr m [b, str_int imm @ parens a]))))"

definition fsw_i :: "pyobj \<Rightarrow> pyobj \<Rightarrow> int \<Rightarrow> asm_instr result" where
  "fsw_i rs2 rs1 imm = fp_store ''fsw'' rs2 rs1 imm"

definition fsd_i :: "pyobj \<Rightarrow> pyobj \<Rightarrow> int \<Rightarrow> asm_instr result" where
  "fsd_i rs2 rs1 imm = fp_store ''fsd'' rs2 rs1 imm"

section \<open>System\<close>

definition csrr_i :: "pyobj \<Rightarrow> int \<Rightarrow> asm_instr result" where
  "csrr_i rd csr_addr = bindR (gp_asm ''rd'' rd) (\<lambda>d.
     Inr (mk_instr ''csrr'' [d, ''0x'' @ fmt_hex 3 csr_addr]))"

definition csrw_i :: "pyobj \<Rightarrow> int \<Rightarrow> pyobj \<Rightarrow> asm_instr result" where
  "csrw_i rd csr_addr rs1 = bindR (gp_asm ''rd'' rd) (\<lambda>d. bindR (gp_asm ''rs1'' rs1) (\<lambda>a.
     Inr (mk_instr ''csrrw'' [d, ''0x'' @ fmt_hex 3 csr_addr, a])))"

definition ecall_i :: "asm_instr result" where
  "ecall_i = Inr (mk_instr ''ecall'' [])"

definition ebreak_i :: "asm_instr result" where
  "ebreak_i = Inr (mk_instr ''ebreak'' [])"

definition mret_i :: "asm_instr result" where
  "mret_i = Inr (mk_instr ''mret'' [])"

end
