(* ===== verification/Crv_Regfile.thy ===== *)
theory Crv_Regfile
  imports Crv_Encoding Py_Random
begin

text \<open>
  The register trackers of the constrained-random harness, tools/crv/regfile.py: which registers a
  scenario has written so far. Both classes satisfy one contract, the locale \<open>tracker\<close>: writing adds
  the register and nothing else, and a random live register is a live register whatever the random
  source returns. The scenarios use the two interpretations.
\<close>

section \<open>The two classes\<close>

instance reg :: finite
proof
  have "(UNIV :: reg set) = set all_regs" by simp
  then show "finite (UNIV :: reg set)" by (metis finite_set)
qed

instance freg :: finite
proof
  have "(UNIV :: freg set) = set all_fregs" by simp
  then show "finite (UNIV :: freg set)" by (metis finite_set)
qed

record gp_state =
  gp_live :: "reg set"

record fp_state =
  fp_live :: "freg set"

text \<open>The constructors: \<open>x0\<close> and the stack pointer are live, and every floating point register is.\<close>

definition gp_init :: gp_state where
  "gp_init = \<lparr>gp_live = {X0, X2}\<rparr>"

definition fp_init :: fp_state where
  "fp_init = \<lparr>fp_live = set all_fregs\<rparr>"

definition gp_write :: "reg \<Rightarrow> gp_state \<Rightarrow> gp_state" where
  "gp_write rd s = (if rd \<noteq> X0 then s\<lparr>gp_live := insert rd (gp_live s)\<rparr> else s)"

definition gp_is_live :: "gp_state \<Rightarrow> reg \<Rightarrow> bool" where
  "gp_is_live s r = (r \<in> gp_live s)"

definition gp_random_live :: "gp_state \<Rightarrow> (rng, reg) sem" where
  "gp_random_live s = choice (sorted_list_of_set (gp_live s))"

definition gp_random_writable :: "bool \<Rightarrow> (rng, reg) sem" where
  "gp_random_writable exclude_x0 =
     choice (if exclude_x0 then filter (\<lambda>r. r \<noteq> X0) all_regs else all_regs)"

definition fp_write :: "freg \<Rightarrow> fp_state \<Rightarrow> fp_state" where
  "fp_write rd s = s\<lparr>fp_live := insert rd (fp_live s)\<rparr>"

definition fp_random_live :: "fp_state \<Rightarrow> (rng, freg) sem" where
  "fp_random_live s = choice (sorted_list_of_set (fp_live s))"

definition fp_random_writable :: "(rng, freg) sem" where
  "fp_random_writable = choice all_fregs"

section \<open>The contract\<close>

locale tracker =
  fixes live :: "'s \<Rightarrow> 'r::{linorder, finite} set"
    and mark :: "'r \<Rightarrow> 's \<Rightarrow> 's"
    and pick :: "'s \<Rightarrow> (rng, 'r) sem"
    and ok :: "'s \<Rightarrow> bool"
  assumes live_mark: "ok s \<Longrightarrow> live (mark r s) = insert r (live s)"
    and ok_mark: "ok s \<Longrightarrow> ok (mark r s)"
    and ok_live: "ok s \<Longrightarrow> live s \<noteq> {}"
    and pick_sorted: "pick s = choice (sorted_list_of_set (live s))"
begin

lemma wp_pick:
  assumes "ok s" and "\<And>r ws'. r \<in> live s \<Longrightarrow> Q r ws'"
  shows "wp (pick s) Q ws"
  unfolding pick_sorted using assms ok_live [OF assms(1)] by (intro wp_choice) auto

definition marks :: "'r list \<Rightarrow> 's \<Rightarrow> 's" where
  "marks rs s = foldl (\<lambda>s r. mark r s) s rs"

lemma marks_live: "ok s \<Longrightarrow> live (marks rs s) = set rs \<union> live s \<and> ok (marks rs s)"
proof (induction rs arbitrary: s)
  case (Cons r rs)
  from Cons.IH [OF ok_mark [OF Cons.prems, of r]] show ?case
    by (simp add: marks_def live_mark [OF Cons.prems])
qed (simp add: marks_def)

lemma marks_pick:
  assumes "ok s" and "\<And>r ws'. r \<in> set rs \<union> live s \<Longrightarrow> Q r ws'"
  shows "wp (pick (marks rs s)) Q ws"
  using assms marks_live [OF assms(1), of rs] by (intro wp_pick) auto

end

text \<open>A general register state is sound when it counts \<open>x0\<close> as live.\<close>

definition gp_ok :: "gp_state \<Rightarrow> bool" where
  "gp_ok s \<longleftrightarrow> X0 \<in> gp_live s"

definition fp_ok :: "fp_state \<Rightarrow> bool" where
  "fp_ok s \<longleftrightarrow> fp_live s \<noteq> {}"

interpretation gpr: tracker gp_live gp_write gp_random_live gp_ok
  by unfold_locales (auto simp: gp_write_def gp_ok_def gp_random_live_def)

interpretation fpr: tracker fp_live fp_write fp_random_live fp_ok
  by unfold_locales (auto simp: fp_write_def fp_ok_def fp_random_live_def)

lemma gp_init_ok [simp]: "gp_ok gp_init"
  by (simp add: gp_ok_def gp_init_def)

lemma fp_init_ok [simp]: "fp_ok fp_init"
  by (simp add: fp_ok_def fp_init_def all_fregs_def)

text \<open>
  A source register drawn after any sequence of writes to a fresh \<open>GPState\<close> is \<open>x0\<close>, the stack
  pointer, or one of the registers written: the draw never raises and never returns a register that
  nothing has initialised, whatever the seed.
\<close>

lemma gp_random_live_initialised:
  "wp (gp_random_live (foldl (\<lambda>s r. gp_write r s) gp_init rs)) (\<lambda>r _. r \<in> {X0, X2} \<union> set rs) ws"
proof -
  have "wp (gp_random_live (gpr.marks rs gp_init)) (\<lambda>r _. r \<in> {X0, X2} \<union> set rs) ws"
    by (rule gpr.marks_pick [OF gp_init_ok]) (auto simp: gp_init_def)
  then show ?thesis by (simp add: gpr.marks_def)
qed

text \<open>
  \<open>random_writable\<close> never raises; with its default argument it never returns the hardwired zero.
\<close>

lemma gp_random_writable_not_x0:
  "wp (gp_random_writable exclude_x0) (\<lambda>r _. \<not> (exclude_x0 \<and> r = X0)) ws"
  unfolding gp_random_writable_def by (rule wp_choice) (auto simp: all_regs_def)

end
