(* ===== verification/Crv_Memory.thy ===== *)
theory Crv_Memory
  imports Crv_Encoding Py_Random
begin

text \<open>
  The memory layout of the generated tests, tools/crv/memory.py: the address constants, the ranges
  and the random aligned address of a range.
\<close>

definition CODE_BASE :: int where "CODE_BASE = 0x00000000"
definition CODE_SIZE :: int where "CODE_SIZE = 64 * 1024"
definition DATA_BASE :: int where "DATA_BASE = 0x00014000"
definition DATA_SIZE :: int where "DATA_SIZE = 4 * 1024"
definition ATOMIC_BASE :: int where "ATOMIC_BASE = 0x00016000"
definition ATOMIC_SIZE :: int where "ATOMIC_SIZE = 4 * 1024"
definition HALT_ADDR :: int where "HALT_ADDR = 0x40000000"

record mem_range =
  base :: int
  size :: int

text \<open>
  \<open>random_aligned\<close>: an alignment of zero is a \<open>ZeroDivisionError\<close>, and an alignment above the size
  leaves \<open>randint\<close> an empty range.
\<close>

definition random_aligned :: "mem_range \<Rightarrow> int \<Rightarrow> (rng, int) sem" where
  "random_aligned r alignment =
     (if alignment = 0 then liftM (Inl ZeroDivisionError)
      else let max_off = size r div alignment - 1 in
        bindM (randint 0 max_off) (\<lambda>k. retM (base r + k * alignment)))"

definition DATA :: mem_range where
  "DATA = \<lparr>base = DATA_BASE, size = DATA_SIZE\<rparr>"

definition ATOMIC :: mem_range where
  "ATOMIC = \<lparr>base = ATOMIC_BASE, size = ATOMIC_SIZE\<rparr>"

text \<open>The address range of an access of \<open>n\<close> bytes at \<open>a\<close> lies inside a region.\<close>

definition inside :: "mem_range \<Rightarrow> int \<Rightarrow> int \<Rightarrow> bool" where
  "inside r a n \<longleftrightarrow> base r \<le> a \<and> a + n \<le> base r + size r"

lemmas layout_defs = CODE_BASE_def CODE_SIZE_def DATA_BASE_def DATA_SIZE_def ATOMIC_BASE_def
  ATOMIC_SIZE_def HALT_ADDR_def DATA_def ATOMIC_def

text \<open>
  For an alignment between one and the size of the range, \<open>random_aligned\<close> never raises, and an
  access of that many bytes at the address it returns stays inside the range; when the base is
  aligned the address is aligned.
\<close>

lemma random_aligned_inside:
  assumes "0 < alignment" and "alignment \<le> size r"
  shows "wp (random_aligned r alignment)
    (\<lambda>a _. inside r a alignment \<and> (a - base r) mod alignment = 0) ws"
proof -
  have "1 \<le> size r div alignment" using assms by (simp add: int_one_le_iff_zero_less pos_imp_zdiv_pos_iff)
  moreover have "base r + k * alignment + alignment \<le> base r + size r"
    if "k \<le> size r div alignment - 1" for k
  proof -
    have "(k + 1) * alignment \<le> size r div alignment * alignment"
      using that assms(1) by (intro mult_right_mono) simp_all
    also have "\<dots> \<le> size r" using assms(1) div_mult_mod_eq [of "size r" alignment] pos_mod_sign [of alignment "size r"]
      by linarith
    finally show ?thesis by (simp add: algebra_simps)
  qed
  ultimately show ?thesis using assms(1) unfolding random_aligned_def Let_def
    by (simp add: wp_simps inside_def) (intro wp_draws; simp)
qed

text \<open>
  The regions of the layout are disjoint: neither data region meets the code, the other region or
  the halt address, so a store that stays inside a data region cannot change code, the atomic words
  or end the program.
\<close>

lemma layout_disjoint:
  "CODE_BASE + CODE_SIZE \<le> base DATA \<and> base DATA + size DATA \<le> base ATOMIC
   \<and> base ATOMIC + size ATOMIC \<le> HALT_ADDR \<and> DATA_BASE mod 8 = 0 \<and> ATOMIC_BASE mod 8 = 0"
  by (simp add: layout_defs)

end
