(* ===== verification/Crv_Scenario.thy ===== *)
theory Crv_Scenario
  imports Crv_Regfile Crv_Memory "HOL-Library.While_Combinator"
begin

text \<open>
  What the scenarios of tools/crv/scenarios share. A scenario runs over the random source and the two
  register trackers; it passes encoder functions around as values, which are the constructors of
  \<open>encoder\<close> here; and its body is a loop \<open>while len(out) < target\<close> that appends instructions. The
  loop is \<open>while_short\<close>: a pass may append any number of instructions, and a loop that never reaches its
  target has the value \<open>Divergence\<close>, which every statement \<open>wp\<close> about a scenario excludes.

  The second half is the specification side. A generated instruction denotes an abstract \<open>instr\<close>, and a
  line written as it is a \<open>literal\<close>, a label or a line of the trap handler with the registers it names; a
  static analysis of an abstract program says which registers are written so far and which of them
  hold a known address; and \<open>safe_prog\<close> says that every instruction is encodable, reads registers
  that have been written, and accesses memory aligned and inside the data or the atomic region. The
  locale \<open>scenario\<close> is the contract of a \<open>generate\<close> function; each scenario theory interprets it.
\<close>

section \<open>The state of a generator\<close>

record gen_state =
  words :: rng
  gps :: gp_state
  fps :: fp_state

definition draw :: "(rng, 'a) sem \<Rightarrow> (gen_state, 'a) sem" where
  "draw m = (\<lambda>s. case m (words s) of Inl e \<Rightarrow> Inl e | Inr (x, ws) \<Rightarrow> Inr (x, s\<lparr>words := ws\<rparr>))"

definition live_gp :: "(gen_state, reg) sem" where
  "live_gp = (\<lambda>s. draw (gp_random_live (gps s)) s)"

definition live_fp :: "(gen_state, freg) sem" where
  "live_fp = (\<lambda>s. draw (fp_random_live (fps s)) s)"

definition mark_gp :: "reg \<Rightarrow> (gen_state, unit) sem" where
  "mark_gp rd = modifyM (\<lambda>s. s\<lparr>gps := gp_write rd (gps s)\<rparr>)"

definition mark_fp :: "freg \<Rightarrow> (gen_state, unit) sem" where
  "mark_fp rd = modifyM (\<lambda>s. s\<lparr>fps := fp_write rd (fps s)\<rparr>)"

section \<open>Encoders as values\<close>

datatype encoder =
    Add | Sub | Sll | Srl | Sra | Mul | Div | Divu | Rem | Remu
  | Addi | Slli | Srli | Srai
  | Beq | Bne | Blt | Bge | Bltu | Bgeu
  | Lb | Lh | Lw | Ld
  | Sb | Sh | Sw | Sd

text \<open>The third operand of the immediate encoders; comparing another object with an \<open>int\<close> raises.\<close>

definition as_int :: "pyobj \<Rightarrow> int result" where
  "as_int x = (case x of OInt i \<Rightarrow> Inr i
     | _ \<Rightarrow> Inl (TypeError (''<= not supported between instances of int and '' @ type_name x)))"

primrec call3 :: "encoder \<Rightarrow> pyobj \<Rightarrow> pyobj \<Rightarrow> pyobj \<Rightarrow> asm_instr result" where
  "call3 Add a b c = add_i a b c"
| "call3 Sub a b c = sub_i a b c"
| "call3 Sll a b c = sll_i a b c"
| "call3 Srl a b c = srl_i a b c"
| "call3 Sra a b c = sra_i a b c"
| "call3 Mul a b c = mul_i a b c"
| "call3 Div a b c = div_i a b c"
| "call3 Divu a b c = divu_i a b c"
| "call3 Rem a b c = rem_i a b c"
| "call3 Remu a b c = remu_i a b c"
| "call3 Addi a b c = bindR (as_int c) (addi_i a b)"
| "call3 Slli a b c = bindR (as_int c) (slli_i a b)"
| "call3 Srli a b c = bindR (as_int c) (srli_i a b)"
| "call3 Srai a b c = bindR (as_int c) (srai_i a b)"
| "call3 Beq a b c = beq_i a b c"
| "call3 Bne a b c = bne_i a b c"
| "call3 Blt a b c = blt_i a b c"
| "call3 Bge a b c = bge_i a b c"
| "call3 Bltu a b c = bltu_i a b c"
| "call3 Bgeu a b c = bgeu_i a b c"
| "call3 Lb a b c = bindR (as_int c) (lb_i a b)"
| "call3 Lh a b c = bindR (as_int c) (lh_i a b)"
| "call3 Lw a b c = bindR (as_int c) (lw_i a b)"
| "call3 Ld a b c = bindR (as_int c) (ld_i a b)"
| "call3 Sb a b c = bindR (as_int c) (sb_i a b)"
| "call3 Sh a b c = bindR (as_int c) (sh_i a b)"
| "call3 Sw a b c = bindR (as_int c) (sw_i a b)"
| "call3 Sd a b c = bindR (as_int c) (sd_i a b)"

text \<open>An encoder call as a statement: \<open>return op(rd, rs1, rs2)\<close>.\<close>

definition emit3 :: "encoder \<Rightarrow> reg \<Rightarrow> reg \<Rightarrow> pyobj \<Rightarrow> (gen_state, asm_instr) sem" where
  "emit3 e a b c = liftM (call3 e (OReg a) (OReg b) c)"

text \<open>The floating point encoders with two and with three sources.\<close>

datatype fp_binary = Fadd_s | Fadd_d | Fsub_s | Fsub_d | Fmul_s | Fmul_d

datatype fp_ternary = Fmadd_s | Fmadd_d

primrec call_fp3 :: "fp_binary \<Rightarrow> pyobj \<Rightarrow> pyobj \<Rightarrow> pyobj \<Rightarrow> rounding_mode \<Rightarrow> asm_instr result" where
  "call_fp3 Fadd_s rd a b rm = fadd_s rd a b rm"
| "call_fp3 Fadd_d rd a b rm = fadd_d rd a b rm"
| "call_fp3 Fsub_s rd a b rm = fsub_s rd a b rm"
| "call_fp3 Fsub_d rd a b rm = fsub_d rd a b rm"
| "call_fp3 Fmul_s rd a b rm = fmul_s rd a b rm"
| "call_fp3 Fmul_d rd a b rm = fmul_d rd a b rm"

primrec call_fp4 :: "fp_ternary \<Rightarrow> pyobj \<Rightarrow> pyobj \<Rightarrow> pyobj \<Rightarrow> pyobj \<Rightarrow> rounding_mode \<Rightarrow> asm_instr result" where
  "call_fp4 Fmadd_s rd a b c rm = fmadd_s rd a b c rm"
| "call_fp4 Fmadd_d rd a b c rm = fmadd_d rd a b c rm"

section \<open>The loop of a body\<close>

text \<open>
  \<open>while len(out) < target: <pass>\<close>, where one pass computes from the loop's local variables \<open>st\<close> and \<open>out\<close> the
  instructions it appends, possibly none, and the new values of the variables. The state of the loop is
  the variables, \<open>out\<close> and the generator's state; an exception ends the loop, and so does nothing else than
  the guard: a loop that goes on for ever has the value \<open>Divergence\<close>.
\<close>

type_synonym 'st loop_state = "('st \<times> asm_instr list \<times> gen_state) result"

type_synonym 'st loop_pass = "'st \<Rightarrow> asm_instr list \<Rightarrow> (gen_state, asm_instr list \<times> 'st) sem"

definition loop_guard :: "int \<Rightarrow> 'st loop_state \<Rightarrow> bool" where
  "loop_guard target r = (case r of Inl e \<Rightarrow> False | Inr (st, out, s) \<Rightarrow> int (length out) < target)"

definition loop_body :: "'st loop_pass \<Rightarrow> 'st loop_state \<Rightarrow> 'st loop_state" where
  "loop_body pass r = bindR r (\<lambda>(st, out, s). bindR (pass st out s) (\<lambda>((is, st'), s'). Inr (st', out @ is, s')))"

definition while_short :: "int \<Rightarrow> 'st loop_pass \<Rightarrow> 'st \<Rightarrow> asm_instr list \<Rightarrow> (gen_state, asm_instr list \<times> 'st) sem" where
  "while_short target pass st out = (\<lambda>s.
     case while_option (loop_guard target) (loop_body pass) (Inr (st, out, s)) of
       None \<Rightarrow> Inl Divergence
     | Some r \<Rightarrow> bindR r (\<lambda>(st', out', s'). Inr ((out', st'), s')))"

lemma loop_guard_simps [simp]:
  "\<not> loop_guard target (Inl e)"
  "loop_guard target (Inr (st, out, s)) \<longleftrightarrow> int (length out) < target"
  by (simp_all add: loop_guard_def)

lemma loop_body_simps [simp]:
  "loop_body pass (Inl e) = Inl e"
  "loop_body pass (Inr (st, out, s)) = bindR (pass st out s) (\<lambda>((is, st'), s'). Inr (st', out @ is, s'))"
  by (simp_all add: loop_body_def)

lemma while_short_unfold:
  "while_short target pass st out =
     (if int (length out) < target
      then bindM (pass st out) (\<lambda>(is, st'). while_short target pass st' (out @ is))
      else retM (out, st))"
proof
  fix s
  show "while_short target pass st out s =
     (if int (length out) < target
      then bindM (pass st out) (\<lambda>(is, st'). while_short target pass st' (out @ is))
      else retM (out, st)) s"
  proof (cases "int (length out) < target")
    case False
    then show ?thesis by (simp add: while_short_def retM_def while_option_unfold [of "loop_guard target"])
  next
    case True
    then show ?thesis
      by (cases "pass st out s")
        (auto simp: while_short_def bindM_def while_option_unfold [of "loop_guard target" "loop_body pass" "Inr (st, out, s)"]
          while_option_unfold [of "loop_guard target" "loop_body pass" "Inl e" for e])
  qed
qed

text \<open>
  \<open>ends_within\<close> says that the loop stops after at most so many passes, whatever the generator's state it starts
  in. A loop whose passes append at least \<open>c\<close> instructions does: the number of missing instructions
  divided by \<open>c\<close> is such a bound. The type of a pass does not promise that, it is a property of each pass.
\<close>

definition ends_within :: "int \<Rightarrow> int \<Rightarrow> 'st loop_pass \<Rightarrow> 'st \<Rightarrow> asm_instr list \<Rightarrow> bool" where
  "ends_within bound target pass st out \<longleftrightarrow> (\<forall>s. \<exists>k. int k \<le> bound
     \<and> while_option (loop_guard target) (loop_body pass) (Inr (st, out, s)) = Some ((loop_body pass ^^ k) (Inr (st, out, s))))"

lemma loop_passes:
  assumes c: "\<And>st out s is st' s'. pass st out s = Inr ((is, st'), s') \<Longrightarrow> c \<le> length is" and "0 < c"
  shows "\<exists>k. k * c < nat (target - int (length out)) + c
    \<and> while_option (loop_guard target) (loop_body pass) (Inr (st, out, s)) = Some ((loop_body pass ^^ k) (Inr (st, out, s)))"
proof (induction "nat (target - int (length out))" arbitrary: st out s rule: less_induct)
  case less
  let ?b = "loop_body pass" and ?x = "Inr (st, out, s) :: 'a loop_state" and ?d = "nat (target - int (length out))"
  have unfold: "while_option (loop_guard target) ?b x = (if loop_guard target x then while_option (loop_guard target) ?b (?b x) else Some x)" for x
    by (rule while_option_unfold)
  show ?case
  proof (cases "int (length out) < target")
    case False
    then show ?thesis using assms(2) unfold [of ?x] by (intro exI [of _ 0]) simp
  next
    case True
    show ?thesis
    proof (cases "pass st out s")
      case (Inl e)
      then show ?thesis using True unfold [of ?x] unfold [of "Inl e"] by (intro exI [of _ 1]) simp
    next
      case (Inr r)
      then obtain "is" st' s' where p: "pass st out s = Inr ((is, st'), s')" by (cases r) auto
      let ?out = "out @ is" and ?y = "Inr (st', out @ is, s') :: 'a loop_state"
      have step: "?b ?x = ?y" "while_option (loop_guard target) ?b ?x = while_option (loop_guard target) ?b ?y"
        using True p unfold [of ?x] by simp_all
      show ?thesis
      proof (cases "int (length ?out) < target")
        case False
        then show ?thesis using True step unfold [of ?y] by (intro exI [of _ 1]) simp
      next
        case long: True
        with c [OF p] assms(2) have d: "nat (target - int (length ?out)) + c \<le> ?d" by simp
        then have "nat (target - int (length ?out)) < ?d" using assms(2) by linarith
        from less [OF this, of st' s'] obtain k
          where k: "k * c < nat (target - int (length ?out)) + c" "while_option (loop_guard target) ?b ?y = Some ((?b ^^ k) ?y)"
          by blast
        from k(1) d have "Suc k * c < ?d + c" by simp
        moreover have "(?b ^^ Suc k) ?x = (?b ^^ k) ?y" by (simp only: funpow_Suc_right o_apply step(1))
        ultimately show ?thesis using k(2) step(2) by metis
      qed
    qed
  qed
qed

lemma while_short_ends:
  assumes "\<And>st out s is st' s'. pass st out s = Inr ((is, st'), s') \<Longrightarrow> c \<le> length is" and "0 < c"
    and "target - int (length out) \<le> int c * bound" and "0 \<le> bound"
  shows "ends_within bound target pass st out"
  unfolding ends_within_def
proof
  fix s
  obtain k where k: "k * c < nat (target - int (length out)) + c"
    "while_option (loop_guard target) (loop_body pass) (Inr (st, out, s)) = Some ((loop_body pass ^^ k) (Inr (st, out, s)))"
    using loop_passes [where c = c and pass = pass and target = target and out = out and st = st and s = s] assms(1,2) by blast
  have "int k \<le> bound"
  proof (cases "target - int (length out) \<le> 0")
    case True
    with k(1) have "k * c < c" by simp
    then have "k = 0" by (cases k) simp_all
    with assms(4) show ?thesis by simp
  next
    case False
    then have "int (k * c) < target - int (length out) + int c" using k(1) by linarith
    also have "\<dots> \<le> int c * (bound + 1)" using assms(3) by (simp add: algebra_simps)
    finally have "int c * int k < int c * (bound + 1)" by (simp add: mult.commute)
    with assms(2) show ?thesis by simp
  qed
  with k(2) show "\<exists>k. int k \<le> bound
      \<and> while_option (loop_guard target) (loop_body pass) (Inr (st, out, s)) = Some ((loop_body pass ^^ k) (Inr (st, out, s)))" by blast
qed

lemma while_short_wp:
  assumes pass: "\<And>st out s. I st out s \<Longrightarrow> int (length out) < target \<Longrightarrow>
      wp (pass st out) (\<lambda>(is, st') s'. I st' (out @ is) s' \<and> is \<noteq> [] \<and> length is \<le> Suc k) s"
    and init: "I st out s"
  shows "wp (while_short target pass st out)
    (\<lambda>(out', st') s'. I st' out' s' \<and> target \<le> int (length out')
       \<and> (length out' \<le> length out \<or> int (length out') \<le> target + int k)) s"
  using init
proof (induction "nat (target - int (length out))" arbitrary: st out s rule: less_induct)
  case less
  show ?case
  proof (cases "int (length out) < target")
    case True
    have "wp (pass st out) (\<lambda>r. wp ((\<lambda>(is, st'). while_short target pass st' (out @ is)) r)
        (\<lambda>(out', st') s'. I st' out' s' \<and> target \<le> int (length out')
          \<and> (length out' \<le> length out \<or> int (length out') \<le> target + int k))) s"
    proof (rule wp_mono [OF pass [OF less.prems True]], clarify)
      fix "is" st' s'
      assume inv: "I st' (out @ is) s'" and "is": "is \<noteq> []" "length is \<le> Suc k"
      have "wp (while_short target pass st' (out @ is)) (\<lambda>(out', st') s'. I st' out' s' \<and> target \<le> int (length out')
          \<and> (length out' \<le> length (out @ is) \<or> int (length out') \<le> target + int k)) s'"
        by (rule less.hyps [OF _ inv]) (use True "is"(1) in \<open>cases "is"; simp\<close>)
      then show "wp (while_short target pass st' (out @ is)) (\<lambda>(out', st') s'. I st' out' s' \<and> target \<le> int (length out')
          \<and> (length out' \<le> length out \<or> int (length out') \<le> target + int k)) s'"
        by (rule wp_mono) (use True "is" in auto)
    qed
    with True show ?thesis by (subst while_short_unfold) (simp add: wp_simps)
  next
    case False
    with less.prems show ?thesis by (subst while_short_unfold) (simp add: wp_simps)
  qed
qed

section \<open>Abstract instructions\<close>

text \<open>
  The lines a scenario writes as they are: the definition of a label, and the directives and instructions
  of the trap handler, with the registers they name.
\<close>

datatype literal =
    Label string
  | Norvc
  | Align nat
  | La reg string
  | Csrw string reg
  | Csrr reg string
  | AddiLine reg reg int
  | Jump string
  | Mret

datatype instr =
    RI encoder reg reg reg
  | II encoder reg reg int
  | LUI reg int
  | LDI encoder reg reg int
  | STI encoder reg reg int
  | BRI encoder reg reg string
  | FPI string "freg list" rounding_mode
  | SYS string
  | LIT literal

primrec mnem :: "encoder \<Rightarrow> string" where
  "mnem Add = ''add''" | "mnem Sub = ''sub''" | "mnem Sll = ''sll''" | "mnem Srl = ''srl''"
| "mnem Sra = ''sra''" | "mnem Mul = ''mul''" | "mnem Div = ''div''" | "mnem Divu = ''divu''"
| "mnem Rem = ''rem''" | "mnem Remu = ''remu''" | "mnem Addi = ''addi''" | "mnem Slli = ''slli''"
| "mnem Srli = ''srli''" | "mnem Srai = ''srai''" | "mnem Beq = ''beq''" | "mnem Bne = ''bne''"
| "mnem Blt = ''blt''" | "mnem Bge = ''bge''" | "mnem Bltu = ''bltu''" | "mnem Bgeu = ''bgeu''"
| "mnem Lb = ''lb''" | "mnem Lh = ''lh''" | "mnem Lw = ''lw''" | "mnem Ld = ''ld''"
| "mnem Sb = ''sb''" | "mnem Sh = ''sh''" | "mnem Sw = ''sw''" | "mnem Sd = ''sd''"

definition rm_suffix :: "rounding_mode \<Rightarrow> string list" where
  "rm_suffix rm = (if rm = DYN then [] else [rm_asm rm])"

text \<open>The names of the registers in such lines; only the handler's own two are used.\<close>

definition abi_name :: "reg \<Rightarrow> string" where
  "abi_name r = (if r = X5 then ''t0'' else if r = X6 then ''t1'' else reg_asm r)"

primrec line_of :: "literal \<Rightarrow> string" where
  "line_of (Label l) = l @ '':''"
| "line_of Norvc = ''    .option norvc''"
| "line_of (Align n) = ''    .align  '' @ nat_digits 10 n"
| "line_of (La rd l) = ''    la      '' @ abi_name rd @ '', '' @ l"
| "line_of (Csrw csr rs) = ''    csrw    '' @ csr @ '', '' @ abi_name rs"
| "line_of (Csrr rd csr) = ''    csrr    '' @ abi_name rd @ '', '' @ csr"
| "line_of (AddiLine rd rs imm) = ''    addi    '' @ abi_name rd @ '', '' @ abi_name rs @ '', '' @ str_int imm"
| "line_of (Jump l) = ''    j       '' @ l"
| "line_of Mret = ''    mret''"

text \<open>The assembly an abstract instruction is written as.\<close>

primrec text_of :: "instr \<Rightarrow> asm_instr" where
  "text_of (RI e rd rs1 rs2) = mk_instr (mnem e) [reg_asm rd, reg_asm rs1, reg_asm rs2]"
| "text_of (II e rd rs1 imm) = mk_instr (mnem e) [reg_asm rd, reg_asm rs1, str_int imm]"
| "text_of (LUI rd imm) = mk_instr ''lui'' [reg_asm rd, str_int imm]"
| "text_of (LDI e rd b off) = mk_instr (mnem e) [reg_asm rd, str_int off @ parens (reg_asm b)]"
| "text_of (STI e rs2 b off) = mk_instr (mnem e) [reg_asm rs2, str_int off @ parens (reg_asm b)]"
| "text_of (BRI e rs1 rs2 l) = mk_instr (mnem e) [reg_asm rs1, reg_asm rs2, l]"
| "text_of (FPI m rs rm) = mk_instr m (map freg_asm rs @ rm_suffix rm)"
| "text_of (SYS m) = mk_instr m []"
| "text_of (LIT x) = mk_instr [] [line_of x]"

definition r_encoders :: "encoder list" where
  "r_encoders = [Add, Sub, Sll, Srl, Sra, Mul, Div, Divu, Rem, Remu]"

definition shift_encoders :: "encoder list" where
  "shift_encoders = [Slli, Srli, Srai]"

definition branch_encoders :: "encoder list" where
  "branch_encoders = [Beq, Bne, Blt, Bge, Bltu, Bgeu]"

definition load_encoders :: "encoder list" where
  "load_encoders = [Lb, Lh, Lw, Ld]"

definition store_encoders :: "encoder list" where
  "store_encoders = [Sb, Sh, Sw, Sd]"

definition fp_mnemonics :: "nat \<Rightarrow> string list" where
  "fp_mnemonics n =
     (if n = 2 then [''fsqrt.s'', ''fsqrt.d'']
      else if n = 3 then [''fadd.s'', ''fadd.d'', ''fsub.s'', ''fsub.d'', ''fmul.s'', ''fmul.d'', ''fdiv.s'', ''fdiv.d'']
      else if n = 4 then [''fmadd.s'', ''fmadd.d'']
      else [])"

text \<open>A symbol of the assembler, and a literal line that the assembler accepts.\<close>

definition symbol :: "string \<Rightarrow> bool" where
  "symbol l \<longleftrightarrow> l \<noteq> [] \<and> list_all (\<lambda>c. is_word_char c \<or> c = CHR ''.'') l"

primrec literal_ok :: "literal \<Rightarrow> bool" where
  "literal_ok (Label l) = symbol l"
| "literal_ok Norvc = True"
| "literal_ok (Align n) = (n \<le> 12)"
| "literal_ok (La rd l) = symbol l"
| "literal_ok (Csrw csr rs) = (csr \<in> set [''mtvec'', ''mepc''])"
| "literal_ok (Csrr rd csr) = (csr \<in> set [''mtvec'', ''mepc''])"
| "literal_ok (AddiLine rd rs imm) = (- 2048 \<le> imm \<and> imm \<le> 2047)"
| "literal_ok (Jump l) = symbol l"
| "literal_ok Mret = True"

primrec literal_reads :: "literal \<Rightarrow> reg set" where
  "literal_reads (Label l) = {}"
| "literal_reads Norvc = {}"
| "literal_reads (Align n) = {}"
| "literal_reads (La rd l) = {}"
| "literal_reads (Csrw csr rs) = {rs}"
| "literal_reads (Csrr rd csr) = {}"
| "literal_reads (AddiLine rd rs imm) = {rs}"
| "literal_reads (Jump l) = {}"
| "literal_reads Mret = {}"

primrec literal_dest :: "literal \<Rightarrow> reg option" where
  "literal_dest (Label l) = None"
| "literal_dest Norvc = None"
| "literal_dest (Align n) = None"
| "literal_dest (La rd l) = Some rd"
| "literal_dest (Csrw csr rs) = None"
| "literal_dest (Csrr rd csr) = Some rd"
| "literal_dest (AddiLine rd rs imm) = Some rd"
| "literal_dest (Jump l) = None"
| "literal_dest Mret = None"

text \<open>The operands fit the instruction format, so the assembler has an encoding for the line.\<close>

primrec encodable :: "instr \<Rightarrow> bool" where
  "encodable (RI e rd rs1 rs2) = (e \<in> set r_encoders)"
| "encodable (II e rd rs1 imm) =
     (e = Addi \<and> - 2048 \<le> imm \<and> imm \<le> 2047 \<or> e \<in> set shift_encoders \<and> 0 \<le> imm \<and> imm \<le> 63)"
| "encodable (LUI rd imm) = (0 \<le> imm \<and> imm < 2 ^ 20)"
| "encodable (LDI e rd b off) = (e \<in> set load_encoders \<and> - 2048 \<le> off \<and> off \<le> 2047)"
| "encodable (STI e rs2 b off) = (e \<in> set store_encoders \<and> - 2048 \<le> off \<and> off \<le> 2047)"
| "encodable (BRI e rs1 rs2 l) = (e \<in> set branch_encoders)"
| "encodable (FPI m rs rm) = (m \<in> set (fp_mnemonics (length rs)))"
| "encodable (SYS m) = (m = ''ecall'' \<or> m = ''ebreak'')"
| "encodable (LIT x) = literal_ok x"

primrec reads :: "instr \<Rightarrow> reg set" where
  "reads (RI e rd rs1 rs2) = {rs1, rs2}"
| "reads (II e rd rs1 imm) = {rs1}"
| "reads (LUI rd imm) = {}"
| "reads (LDI e rd b off) = {b}"
| "reads (STI e rs2 b off) = {rs2, b}"
| "reads (BRI e rs1 rs2 l) = {rs1, rs2}"
| "reads (FPI m rs rm) = {}"
| "reads (SYS m) = {}"
| "reads (LIT x) = literal_reads x"

primrec dest :: "instr \<Rightarrow> reg option" where
  "dest (RI e rd rs1 rs2) = Some rd"
| "dest (II e rd rs1 imm) = Some rd"
| "dest (LUI rd imm) = Some rd"
| "dest (LDI e rd b off) = Some rd"
| "dest (STI e rs2 b off) = None"
| "dest (BRI e rs1 rs2 l) = None"
| "dest (FPI m rs rm) = None"
| "dest (SYS m) = None"
| "dest (LIT x) = literal_dest x"

definition access_size :: "encoder \<Rightarrow> int" where
  "access_size e = (if e = Lb \<or> e = Sb then 1 else if e = Lh \<or> e = Sh then 2 else if e = Lw \<or> e = Sw then 4 else 8)"

text \<open>The base register, offset and width of a memory access.\<close>

fun access :: "instr \<Rightarrow> (reg \<times> int \<times> int) option" where
  "access (LDI e rd b off) = Some (b, off, access_size e)"
| "access (STI e rs2 b off) = Some (b, off, access_size e)"
| "access _ = None"

section \<open>Static analysis of a program\<close>

text \<open>
  The registers written so far, and the 64-bit values of the registers whose value is known because
  \<open>lui\<close> and \<open>addi\<close> computed it from constants.
\<close>

record static =
  written :: "reg set"
  known :: "reg \<rightharpoonup> 64 word"

definition lui_value :: "int \<Rightarrow> 64 word" where
  "lui_value imm = scast (push_bit 12 (word_of_int imm) :: 32 word)"

fun result_value :: "(reg \<rightharpoonup> 64 word) \<Rightarrow> instr \<Rightarrow> 64 word option" where
  "result_value k (LUI rd imm) = Some (lui_value imm)"
| "result_value k (II Addi rd rs1 imm) = map_option (\<lambda>v. v + word_of_int imm) (k rs1)"
| "result_value k _ = None"

definition exec_static :: "instr \<Rightarrow> static \<Rightarrow> static" where
  "exec_static i st = (case dest i of None \<Rightarrow> st
     | Some rd \<Rightarrow> st\<lparr>written := insert rd (written st),
                     known := (known st)(rd := (if rd = X0 then Some 0 else result_value (known st) i))\<rparr>)"

definition static_after :: "static \<Rightarrow> instr list \<Rightarrow> static" where
  "static_after st prog = foldl (\<lambda>st i. exec_static i st) st prog"

definition static_init :: "reg set \<Rightarrow> static" where
  "static_init live = \<lparr>written = live, known = [X0 \<mapsto> 0]\<rparr>"

definition access_ok :: "(reg \<rightharpoonup> 64 word) \<Rightarrow> reg \<times> int \<times> int \<Rightarrow> bool" where
  "access_ok k = (\<lambda>(b, off, n). case k b of None \<Rightarrow> False
     | Some v \<Rightarrow> let a = uint (v + word_of_int off) in (inside DATA a n \<or> inside ATOMIC a n) \<and> a mod n = 0)"

definition safe_instr :: "static \<Rightarrow> instr \<Rightarrow> bool" where
  "safe_instr st i \<longleftrightarrow> encodable i \<and> reads i \<subseteq> written st
     \<and> (case access i of None \<Rightarrow> True | Some acc \<Rightarrow> access_ok (known st) acc)"

fun safe_prog :: "static \<Rightarrow> instr list \<Rightarrow> bool" where
  "safe_prog st [] = True"
| "safe_prog st (i # is) = (safe_instr st i \<and> safe_prog (exec_static i st) is)"

definition keeps :: "reg set \<Rightarrow> instr \<Rightarrow> bool" where
  "keeps R i \<longleftrightarrow> (case dest i of None \<Rightarrow> True | Some rd \<Rightarrow> rd \<notin> R)"

lemma static_after_append [simp]: "static_after st (p @ q) = static_after (static_after st p) q"
  by (simp add: static_after_def)

lemma static_after_Nil [simp]: "static_after st [] = st"
  by (simp add: static_after_def)

lemma static_after_Cons [simp]: "static_after st (i # p) = static_after (exec_static i st) p"
  by (simp add: static_after_def)

lemma safe_prog_append [simp]: "safe_prog st (p @ q) \<longleftrightarrow> safe_prog st p \<and> safe_prog (static_after st p) q"
  by (induction p arbitrary: st) auto

text \<open>Label lines do not affect the analysis.\<close>

lemma safe_prog_labels [simp]:
  "safe_prog st (map (\<lambda>l. LIT (Label l)) ls) \<longleftrightarrow> list_all symbol ls"
  "static_after st (map (\<lambda>l. LIT (Label l)) ls) = st"
  by (induction ls) (simp_all add: safe_instr_def exec_static_def)

lemma safe_prog_encodable: "safe_prog st prog \<Longrightarrow> i \<in> set prog \<Longrightarrow> encodable i"
  by (induction prog arbitrary: st) (auto simp: safe_instr_def)

lemma exec_static_written: "written (exec_static i st) = set_option (dest i) \<union> written st"
  by (auto simp: exec_static_def split: option.split)


section \<open>What a step of a generator establishes\<close>

text \<open>
  \<open>tracks\<close> ties the generator's state to the program emitted so far: the program is safe, the live
  registers are the ones it writes, and the pointer registers still hold their addresses. \<open>emitted\<close>
  is what emitting one instruction has to establish for that to continue.
\<close>

definition ready :: "(reg \<rightharpoonup> 64 word) \<Rightarrow> gen_state \<Rightarrow> bool" where
  "ready ptrs s \<longleftrightarrow> gp_ok (gps s) \<and> fp_ok (fps s) \<and> dom ptrs \<subseteq> gp_live (gps s)"

definition tracks :: "static \<Rightarrow> (reg \<rightharpoonup> 64 word) \<Rightarrow> instr list \<Rightarrow> gen_state \<Rightarrow> bool" where
  "tracks st ptrs prog s \<longleftrightarrow> safe_prog st prog \<and> written (static_after st prog) = gp_live (gps s)
     \<and> ptrs \<subseteq>\<^sub>m known (static_after st prog) \<and> ready ptrs s"

definition emitted :: "(reg \<rightharpoonup> 64 word) \<Rightarrow> reg set \<Rightarrow> instr \<Rightarrow> gen_state \<Rightarrow> gen_state \<Rightarrow> bool" where
  "emitted ptrs R i s s' \<longleftrightarrow> encodable i \<and> reads i \<subseteq> gp_live (gps s) \<and> keeps R i
     \<and> (case access i of None \<Rightarrow> True | Some acc \<Rightarrow> access_ok ptrs acc)
     \<and> gp_live (gps s') = set_option (dest i) \<union> gp_live (gps s) \<and> fp_ok (fps s')"

lemma access_ok_mono: "access_ok p acc \<Longrightarrow> p \<subseteq>\<^sub>m k \<Longrightarrow> access_ok k acc"
  by (cases acc) (auto simp: access_ok_def map_le_def dom_def split: option.splits)

lemma exec_static_known:
  assumes "p \<subseteq>\<^sub>m known st" and "keeps R i" and "dom p \<subseteq> R"
  shows "p \<subseteq>\<^sub>m known (exec_static i st)"
  using assms by (auto simp: exec_static_def keeps_def map_le_def split: option.splits)

lemma tracks_step:
  assumes t: "tracks st ptrs prog s" and e: "emitted ptrs R i s s'" and R: "dom ptrs \<subseteq> R"
  shows "tracks st ptrs (prog @ [i]) s'"
proof -
  from t have k: "ptrs \<subseteq>\<^sub>m known (static_after st prog)" by (simp add: tracks_def)
  with e have "case access i of None \<Rightarrow> True | Some acc \<Rightarrow> access_ok (known (static_after st prog)) acc"
    by (auto simp: emitted_def access_ok_mono split: option.splits)
  moreover have "ptrs \<subseteq>\<^sub>m known (exec_static i (static_after st prog))"
    using e R by (intro exec_static_known [OF k]) (auto simp: emitted_def)
  ultimately show ?thesis using t e
    by (auto simp: tracks_def ready_def emitted_def safe_instr_def exec_static_written gp_ok_def)
qed

section \<open>Rules for the primitives\<close>

lemma wp_draw [wp_simps]: "wp (draw m) Q = (\<lambda>s. wp m (\<lambda>x ws. Q x (s\<lparr>words := ws\<rparr>)) (words s))"
  by (simp add: fun_eq_iff wp_def draw_def split: sum.split)

lemma wp_live_gp [wp_draws]:
  assumes "gp_ok (gps s)" and "\<And>r ws. r \<in> gp_live (gps s) \<Longrightarrow> Q r (s\<lparr>words := ws\<rparr>)"
  shows "wp live_gp Q s"
proof -
  have "wp live_gp Q s = wp (draw (gp_random_live (gps s))) Q s" by (simp add: wp_def live_gp_def)
  then show ?thesis unfolding wp_draw using assms by (simp add: gpr.wp_pick)
qed

lemma wp_live_fp [wp_draws]:
  assumes "fp_ok (fps s)" and "\<And>r ws. r \<in> fp_live (fps s) \<Longrightarrow> Q r (s\<lparr>words := ws\<rparr>)"
  shows "wp live_fp Q s"
proof -
  have "wp live_fp Q s = wp (draw (fp_random_live (fps s))) Q s" by (simp add: wp_def live_fp_def)
  then show ?thesis unfolding wp_draw using assms by (simp add: fpr.wp_pick)
qed

lemma wp_mark_gp [wp_simps]: "wp (mark_gp rd) Q = (\<lambda>s. Q () (s\<lparr>gps := gp_write rd (gps s)\<rparr>))"
  by (simp add: mark_gp_def wp_simps)

lemma wp_mark_fp [wp_simps]: "wp (mark_fp rd) Q = (\<lambda>s. Q () (s\<lparr>fps := fp_write rd (fps s)\<rparr>))"
  by (simp add: mark_fp_def wp_simps)

lemma gp_write_live [simp]: "gp_ok g \<Longrightarrow> gp_live (gp_write rd g) = insert rd (gp_live g)"
  by (rule gpr.live_mark)

lemma gp_write_ok [simp]: "gp_ok g \<Longrightarrow> gp_ok (gp_write rd g)"
  by (rule gpr.ok_mark)

lemma fp_write_ok [simp]: "fp_ok f \<Longrightarrow> fp_ok (fp_write rd f)"
  by (rule fpr.ok_mark)

text \<open>Encoder calls on registers and in-range immediates return the text of the abstract instruction.\<close>

named_theorems call_simps "encoder calls on well-typed operands"

lemma gp_asm_reg [simp]: "gp_asm name (OReg r) = Inr (reg_asm r)"
  by (simp add: gp_asm_def gp_def)

lemma fp_asm_freg [simp]: "fp_asm name (OFReg r) = Inr (freg_asm r)"
  by (simp add: fp_asm_def fp_def)

lemma as_int_OInt [simp]: "as_int (OInt i) = Inr i"
  by (simp add: as_int_def)

lemma check_simm_12 [simp]: "- 2048 \<le> imm \<Longrightarrow> imm \<le> 2047 \<Longrightarrow> check_simm imm 12 name = Inr ()"
  by (simp add: check_simm_def)

lemma check_uimm_6 [simp]: "0 \<le> imm \<Longrightarrow> imm \<le> 63 \<Longrightarrow> check_uimm imm 6 name = Inr ()"
  by (simp add: check_uimm_def)

lemma check_uimm_20 [simp]: "0 \<le> imm \<Longrightarrow> imm < 1048576 \<Longrightarrow> check_uimm imm 20 name = Inr ()"
  by (simp add: check_uimm_def)

lemmas r_encoder_defs = r_type_def add_i_def sub_i_def sll_i_def srl_i_def sra_i_def mul_i_def div_i_def
  divu_i_def rem_i_def remu_i_def

lemmas mem_encoder_defs = load_instr_def lb_i_def lh_i_def lw_i_def ld_i_def store_instr_def sb_i_def sh_i_def
  sw_i_def sd_i_def

lemmas branch_encoder_defs = branch_def beq_i_def bne_i_def blt_i_def bge_i_def bltu_i_def bgeu_i_def

lemma call3_r [call_simps]:
  "e \<in> set r_encoders \<Longrightarrow> call3 e (OReg a) (OReg b) (OReg c) = Inr (text_of (RI e a b c))"
  by (auto simp: r_encoders_def r_encoder_defs)

lemma call3_i [call_simps]:
  "encodable (II e a b imm) \<Longrightarrow> call3 e (OReg a) (OReg b) (OInt imm) = Inr (text_of (II e a b imm))"
  by (auto simp: shift_encoders_def addi_i_def slli_i_def srli_i_def srai_i_def)

lemma call3_load [call_simps]:
  "encodable (LDI e a b off) \<Longrightarrow> call3 e (OReg a) (OReg b) (OInt off) = Inr (text_of (LDI e a b off))"
  by (auto simp: load_encoders_def mem_encoder_defs)

lemma call3_store [call_simps]:
  "encodable (STI e a b off) \<Longrightarrow> call3 e (OReg a) (OReg b) (OInt off) = Inr (text_of (STI e a b off))"
  by (auto simp: store_encoders_def mem_encoder_defs)

lemma call3_branch [call_simps]:
  "e \<in> set branch_encoders \<Longrightarrow> call3 e (OReg a) (OReg b) (OStr l) = Inr (text_of (BRI e a b l))"
  by (auto simp: branch_encoders_def branch_encoder_defs)

lemma lui_i_ok [call_simps]:
  "0 \<le> imm \<Longrightarrow> imm < 2 ^ 20 \<Longrightarrow> lui_i (OReg a) imm = Inr (text_of (LUI a imm))"
  by (simp add: lui_i_def)

lemma wp_emit3 [wp_simps]:
  "wp (emit3 e a b c) Q = (\<lambda>s. case call3 e (OReg a) (OReg b) c of Inl x \<Rightarrow> False | Inr i \<Rightarrow> Q i s)"
  by (simp add: emit3_def wp_simps)

text \<open>
  The same as introduction rules, one per statement form: \<open>intro wp_intros\<close> walks a generator from
  its first draw to its last emission and leaves the side conditions.
\<close>

named_theorems wp_intros "introduction rules for the preconditions of generator statements"

lemmas [wp_intros] = wp_live_gp wp_live_fp wp_choice wp_randint wp_random_unit wp_choices1

lemma wp_fp_random_writable [wp_intros]: "(\<And>r ws. Q r ws) \<Longrightarrow> wp fp_random_writable Q ws"
  unfolding fp_random_writable_def by (rule wp_choice) (simp_all add: all_fregs_def)

lemma wp_bindI [wp_intros]: "wp m (\<lambda>x. wp (f x) Q) s \<Longrightarrow> wp (bindM m f) Q s"
  by (simp add: wp_simps)

lemma wp_retI [wp_intros]: "Q x s \<Longrightarrow> wp (retM x) Q s"
  by (simp add: wp_simps)

lemma wp_getI [wp_intros]: "Q s s \<Longrightarrow> wp getM Q s"
  by (simp add: wp_simps)

lemma wp_ifI [wp_intros]: "(c \<Longrightarrow> wp m Q s) \<Longrightarrow> (\<not> c \<Longrightarrow> wp m' Q s) \<Longrightarrow> wp (if c then m else m') Q s"
  by simp

lemma wp_splitI [wp_intros]: "wp (f x y) Q s \<Longrightarrow> wp (case (x, y) of (x, y) \<Rightarrow> f x y) Q s"
  by simp

lemma wp_drawI [wp_intros]: "wp m (\<lambda>x ws. Q x (s\<lparr>words := ws\<rparr>)) (words s) \<Longrightarrow> wp (draw m) Q s"
  by (simp add: wp_simps)

lemma wp_mark_gpI [wp_intros]: "Q () (s\<lparr>gps := gp_write rd (gps s)\<rparr>) \<Longrightarrow> wp (mark_gp rd) Q s"
  by (simp add: wp_simps)

lemma wp_mark_fpI [wp_intros]: "Q () (s\<lparr>fps := fp_write rd (fps s)\<rparr>) \<Longrightarrow> wp (mark_fp rd) Q s"
  by (simp add: wp_simps)

lemma wp_emit_r [wp_intros]:
  "e \<in> set r_encoders \<Longrightarrow> Q (text_of (RI e a b c)) s \<Longrightarrow> wp (emit3 e a b (OReg c)) Q s"
  by (simp add: wp_simps call_simps)

lemma wp_emit_branch [wp_intros]:
  "e \<in> set branch_encoders \<Longrightarrow> Q (text_of (BRI e a b l)) s \<Longrightarrow> wp (emit3 e a b (OStr l)) Q s"
  by (simp add: wp_simps call_simps)

lemma wp_emit_i: "encodable (II e a b v) \<Longrightarrow> Q (text_of (II e a b v)) s \<Longrightarrow> wp (emit3 e a b (OInt v)) Q s"
  by (simp add: wp_simps call3_i)

lemma wp_emit_load: "encodable (LDI e a b v) \<Longrightarrow> Q (text_of (LDI e a b v)) s \<Longrightarrow> wp (emit3 e a b (OInt v)) Q s"
  by (simp add: wp_simps call3_load)

lemma wp_emit_store: "encodable (STI e a b v) \<Longrightarrow> Q (text_of (STI e a b v)) s \<Longrightarrow> wp (emit3 e a b (OInt v)) Q s"
  by (simp add: wp_simps call3_store)

text \<open>Floating point calls on floating point registers.\<close>

primrec fp3_mnem :: "fp_binary \<Rightarrow> string" where
  "fp3_mnem Fadd_s = ''fadd.s''"
| "fp3_mnem Fadd_d = ''fadd.d''"
| "fp3_mnem Fsub_s = ''fsub.s''"
| "fp3_mnem Fsub_d = ''fsub.d''"
| "fp3_mnem Fmul_s = ''fmul.s''"
| "fp3_mnem Fmul_d = ''fmul.d''"

primrec fp4_mnem :: "fp_ternary \<Rightarrow> string" where
  "fp4_mnem Fmadd_s = ''fmadd.s''"
| "fp4_mnem Fmadd_d = ''fmadd.d''"

lemma fp_op3_text: "fp_op3 m (OFReg a) (OFReg b) (OFReg c) rm = Inr (text_of (FPI m [a, b, c] rm))"
  by (simp add: fp_op3_def rm_suffix_def)

lemma fp_op4_text: "fp_op4 m (OFReg a) (OFReg b) (OFReg c) (OFReg d) rm = Inr (text_of (FPI m [a, b, c, d] rm))"
  by (simp add: fp_op4_def rm_suffix_def)

lemma fsqrt_text:
  "fsqrt_s (OFReg a) (OFReg b) rm = Inr (text_of (FPI ''fsqrt.s'' [a, b] rm))"
  "fsqrt_d (OFReg a) (OFReg b) rm = Inr (text_of (FPI ''fsqrt.d'' [a, b] rm))"
  by (simp_all add: fsqrt_s_def fsqrt_d_def rm_suffix_def)

lemma call_fp3_text: "call_fp3 op (OFReg a) (OFReg b) (OFReg c) rm = Inr (text_of (FPI (fp3_mnem op) [a, b, c] rm))"
  by (cases op) (simp_all add: fadd_s_def fadd_d_def fsub_s_def fsub_d_def fmul_s_def fmul_d_def fp_op3_text)

lemma call_fp4_text:
  "call_fp4 op (OFReg a) (OFReg b) (OFReg c) (OFReg d) rm = Inr (text_of (FPI (fp4_mnem op) [a, b, c, d] rm))"
  by (cases op) (simp_all add: fmadd_s_def fmadd_d_def fp_op4_text)

lemma fp_mnem_ok [simp]:
  "fp3_mnem op \<in> set (fp_mnemonics 3)" "fp4_mnem op' \<in> set (fp_mnemonics 4)"
  by (cases op; simp add: fp_mnemonics_def) (cases op'; simp add: fp_mnemonics_def)

lemma wp_lift_InrI: "r = Inr x \<Longrightarrow> Q x s \<Longrightarrow> wp (liftM r) Q s"
  by (simp add: wp_simps)

lemmas [wp_intros] = wp_lift_InrI [OF call_fp3_text] wp_lift_InrI [OF call_fp4_text]
  wp_lift_InrI [OF fsqrt_text(1)] wp_lift_InrI [OF fsqrt_text(2)]

text \<open>Integer immediates: the constructor is known from the encoder.\<close>

lemmas [wp_intros] = wp_emit_load [of Lb] wp_emit_load [of Lh] wp_emit_load [of Lw] wp_emit_load [of Ld]
  wp_emit_store [of Sb] wp_emit_store [of Sh] wp_emit_store [of Sw] wp_emit_store [of Sd]
  wp_emit_i [of Addi]

text \<open>
  The postcondition of a statement that emits one instruction, seen from the state before it;
  \<open>P\<close> is what the scenario adds about the instruction.
\<close>

definition step_ok ::
  "(reg \<rightharpoonup> 64 word) \<Rightarrow> reg set \<Rightarrow> (instr \<Rightarrow> bool) \<Rightarrow> gen_state \<Rightarrow> asm_instr \<Rightarrow> gen_state \<Rightarrow> bool" where
  "step_ok ptrs R P s i s' \<longleftrightarrow> (\<exists>a. i = text_of a \<and> emitted ptrs R a s s' \<and> P a)"

lemma step_okI: "emitted ptrs R a s s' \<Longrightarrow> P a \<Longrightarrow> step_ok ptrs R P s (text_of a) s'"
  by (auto simp: step_ok_def)

lemma step_ok_pairI:
  "emitted ptrs R a s s' \<Longrightarrow> P r a \<Longrightarrow> (case (text_of a, r) of (i, r) \<Rightarrow> step_ok ptrs R (P r) s i) s'"
  by (simp add: step_okI)

lemmas emitted_simps = emitted_def keeps_def r_encoders_def shift_encoders_def
  branch_encoders_def load_encoders_def store_encoders_def fp_mnemonics_def

text \<open>An access at a register that holds the base of a region, by an aligned offset inside it.\<close>

definition pointers :: "(reg \<rightharpoonup> 64 word)" where
  "pointers = [X10 \<mapsto> word_of_int DATA_BASE]"

lemma access_ok_pointer:
  assumes k: "k b = Some (word_of_int (base r))" and r: "r = DATA \<or> r = ATOMIC"
    and off: "0 \<le> off" "off + n \<le> 4096" "0 < n" and n: "off mod n = 0" "base r mod n = 0"
  shows "access_ok k (b, off, n)"
proof -
  have small: "0 \<le> base r" "base r + off < 2 ^ 64" "size r = 4096"
    using r off by (auto simp: layout_defs)
  have "uint (word_of_int (base r) + word_of_int off :: 64 word) = base r + off"
    using small off by (simp add: uint_word_ariths uint_word_of_int mod_simps)
  moreover have "(base r + off) mod n = 0" using n by (simp add: mod_add_eq [of "base r" n off, symmetric])
  ultimately show ?thesis using k r off small by (auto simp: access_ok_def inside_def)
qed

lemma dom_pointers [simp]: "dom pointers = {X10}"
  by (simp add: pointers_def)

lemma pointers_SomeD: "pointers r = Some v \<Longrightarrow> r = X10"
  by (simp add: pointers_def split: if_splits)

lemma pointer_access:
  "0 \<le> k \<Longrightarrow> k \<le> 255 \<Longrightarrow> e \<in> set [Lw, Ld, Sw, Sd] \<Longrightarrow> access_ok pointers (X10, k * 8, access_size e)"
  by (rule access_ok_pointer [where r = DATA])
    (auto simp: pointers_def layout_defs access_size_def mod_mult_right_eq)

section \<open>The contract of a scenario\<close>

text \<open>
  The output denotes a safe program that starts from the given live registers, leaves \<open>x0\<close>, the return
  address and the stack pointer alone and consists of instructions of the scenario's kind.
\<close>

definition safe_text :: "reg set \<Rightarrow> (instr \<Rightarrow> bool) \<Rightarrow> asm_instr list \<Rightarrow> bool" where
  "safe_text live kind out \<longleftrightarrow> (\<exists>prog. out = map text_of prog \<and> safe_prog (static_init live) prog
     \<and> list_all (\<lambda>i. keeps {X0, X1, X2} i \<and> kind i) prog)"

text \<open>The rounding mode an assembler reads from a line; an absent mode is the dynamic one.\<close>

definition is_fp :: "asm_instr \<Rightarrow> bool" where
  "is_fp i \<longleftrightarrow> mnemonic i \<noteq> [] \<and> hd (mnemonic i) = CHR ''f''"

definition text_rm :: "asm_instr \<Rightarrow> string" where
  "text_rm i = (let o' = last (operands i) in
     if o' \<in> set [''rne'', ''rtz'', ''rdn'', ''rup'', ''rmm''] then o' else ''dyn'')"

lemma freg_asm_not_rm: "freg_asm r \<notin> set [''rne'', ''rtz'', ''rdn'', ''rup'', ''rmm'']"
  by (simp add: freg_asm_def)

lemma text_rm_FPI: "rs \<noteq> [] \<Longrightarrow> text_rm (text_of (FPI m rs rm)) = rm_asm rm"
  using freg_asm_not_rm [of "last rs"]
  by (cases rm) (simp_all add: text_rm_def mk_instr_def rm_suffix_def last_map)

definition gen_init :: "rng \<Rightarrow> gen_state" where
  "gen_init ws = \<lparr>words = ws, gps = gp_init, fps = fp_init\<rparr>"

lemma gen_init_simps [simp]:
  "gp_ok (gps (gen_init ws))" "fp_ok (fps (gen_init ws))" "gp_live (gps (gen_init ws)) = {X0, X2}"
  by (simp_all add: gen_init_def) (simp add: gp_init_def)

text \<open>The invariant of a body's loop: \<open>out\<close> denotes a safe program the generator's state tracks.\<close>

definition progress ::
  "static \<Rightarrow> (reg \<rightharpoonup> 64 word) \<Rightarrow> (instr \<Rightarrow> bool) \<Rightarrow> asm_instr list \<Rightarrow> gen_state \<Rightarrow> bool" where
  "progress st ptrs kind out s \<longleftrightarrow> (\<exists>prog. out = map text_of prog \<and> tracks st ptrs prog s
     \<and> list_all (\<lambda>i. keeps {X0, X1, X2} i \<and> kind i) prog)"

lemma progress_ready: "progress st ptrs kind out s \<Longrightarrow> ready ptrs s"
  by (auto simp: progress_def tracks_def)

lemma progress_safe: "progress (static_init live) ptrs kind out s \<Longrightarrow> safe_text live kind out"
  by (auto simp: progress_def tracks_def safe_text_def)

lemma progress_step:
  assumes "progress st ptrs kind out s" and "emitted ptrs R i s s'" and "kind i"
    and "dom ptrs \<union> {X0, X1, X2} \<subseteq> R"
  shows "progress st ptrs kind (out @ [text_of i]) s'"
proof -
  from assms(1) obtain prog where p: "out = map text_of prog" "tracks st ptrs prog s"
    "list_all (\<lambda>i. keeps {X0, X1, X2} i \<and> kind i) prog" by (auto simp: progress_def)
  have "keeps {X0, X1, X2} i" using assms(2,4) by (auto simp: emitted_def keeps_def split: option.splits)
  with p assms(3) tracks_step [OF p(2) assms(2)] assms(4)
  show ?thesis unfolding progress_def by (intro exI [of _ "prog @ [i]"]) simp
qed

lemma progress_kind_mono:
  "progress st ptrs kind out s \<Longrightarrow> (\<And>i. kind i \<Longrightarrow> kind' i) \<Longrightarrow> progress st ptrs kind' out s"
  by (auto simp: progress_def list_all_iff)

text \<open>Changing the random source alone affects neither.\<close>

lemma emitted_words [simp]: "emitted ptrs R i (s\<lparr>words := ws\<rparr>) s' = emitted ptrs R i s s'"
  by (simp add: emitted_def)

lemma emitted_words' [simp]: "emitted ptrs R i s (s'\<lparr>words := ws\<rparr>) = emitted ptrs R i s s'"
  by (simp add: emitted_def)

lemma progress_words [simp]: "progress st ptrs kind out (s\<lparr>words := ws\<rparr>) = progress st ptrs kind out s"
  by (simp add: progress_def tracks_def ready_def)

lemma ready_words [simp]: "ready ptrs (s\<lparr>words := ws\<rparr>) = ready ptrs s"
  by (simp add: ready_def)

lemma emitted_ready: "ready ptrs s \<Longrightarrow> emitted ptrs R i s s' \<Longrightarrow> ready ptrs s'"
  by (auto simp: ready_def emitted_def gp_ok_def)

text \<open>What holds after a statement that emits one instruction.\<close>

lemma wp_step:
  assumes "wp m (step_ok ptrs R P s) s"
    and "\<And>i s'. emitted ptrs R i s s' \<Longrightarrow> P i \<Longrightarrow> Q (text_of i) s'"
  shows "wp m Q s"
  by (rule wp_mono [OF assms(1)]) (auto simp: step_ok_def intro: assms(2))

text \<open>
  The loop keeps the invariant together with a property \<open>J\<close> of its local variables, and stops between
  the target and the target plus what one pass may append beyond its first instruction.
\<close>

lemma while_progress:
  assumes pass: "\<And>v out s. progress st ptrs kind out s \<Longrightarrow> J v out \<Longrightarrow>
      wp (pass v out) (\<lambda>(is, v') s'. progress st ptrs kind (out @ is) s' \<and> J v' (out @ is) \<and> is \<noteq> [] \<and> length is \<le> Suc k) s"
    and init: "progress st ptrs kind out s" "J v out"
    and post: "\<And>out' v' s'. progress st ptrs kind out' s' \<Longrightarrow> J v' out' \<Longrightarrow> length out \<le> length out' \<Longrightarrow>
      target \<le> int (length out') \<Longrightarrow> length out' = length out \<or> int (length out') \<le> target + int k \<Longrightarrow>
      Q (out', v') s'"
  shows "wp (while_short target pass v out) Q s"
proof (rule wp_mono)
  let ?I = "\<lambda>v out' s'. progress st ptrs kind out' s' \<and> J v out' \<and> length out \<le> length out'"
  show "wp (while_short target pass v out) (\<lambda>(out', v') s'. ?I v' out' s' \<and> target \<le> int (length out')
      \<and> (length out' \<le> length out \<or> int (length out') \<le> target + int k)) s"
    by (rule while_short_wp) (use init in \<open>auto intro!: wp_mono [OF pass]\<close>)
qed (auto intro: post)

text \<open>
  The two instructions that load the base of a region into a pointer register, as the source
  computes them from the address.
\<close>

lemma load_address:
  "lui_value (drop_bit 12 DATA_BASE AND 0xFFFFF) = word_of_int DATA_BASE"
  "lui_value (drop_bit 12 ATOMIC_BASE AND 0xFFFFF) = word_of_int ATOMIC_BASE"
  by (simp_all add: lui_value_def layout_defs)

text \<open>
  The contract: whatever the random source, the requested length and a sound register state,
  \<open>generate\<close> returns, its output has at least the requested length, and it is safe from the live registers
  and those the scenario's own prologue sets (\<open>extra\<close>).
\<close>

locale scenario =
  fixes generate :: "int \<Rightarrow> (gen_state, asm_instr list) sem"
    and extra :: "reg set"
    and kind :: "instr \<Rightarrow> bool"
  assumes generates: "gp_ok (gps s) \<Longrightarrow> fp_ok (fps s) \<Longrightarrow>
    wp (generate len) (\<lambda>out _. safe_text (extra \<union> gp_live (gps s)) kind out \<and> len \<le> int (length out)) s"
begin

lemma generate_returns: "gp_ok (gps s) \<Longrightarrow> fp_ok (fps s) \<Longrightarrow> no_raise (generate len s)"
  using generates by (fold wp_True_iff) (rule wp_mono, auto)

lemma generate_init:
  "wp (generate len) (\<lambda>out _. safe_text (extra \<union> {X0, X2}) kind out \<and> len \<le> int (length out)) (gen_init ws)"
  using generates [of "gen_init ws" len] by simp

lemma generate_init_cases:
  obtains out s' where "generate len (gen_init ws) = Inr (out, s')"
    and "safe_text (extra \<union> {X0, X2}) kind out" and "len \<le> int (length out)"
  using generate_init [of len ws] by (auto elim!: wpD)

end

end
