(* ===== verification/Int_Hazards.thy ===== *)
theory Int_Hazards
  imports Crv_Scenario
begin

text \<open>
  The scenario tools/crv/scenarios/int_hazards.py: register-dependency chains of integer
  instructions and accesses to the data region. The definitions carry the prefix \<open>ih_\<close>. The loop
  variable \<open>recent_writes\<close> is the accumulator of \<open>ih_pass\<close>. The properties: the scenario never
  raises and its program is safe, and a dependent source is one of the last four destinations.
\<close>

section \<open>Definitions\<close>

definition ih_ALU_R :: "encoder list" where
  "ih_ALU_R = [Add, Sub, Sll, Srl, Sra]"

definition ih_ALU_I :: "encoder list" where
  "ih_ALU_I = [Addi, Slli, Srli, Srai]"

definition ih_RESERVED :: "reg list" where
  "ih_RESERVED = [X0, X1, X2, X10]"

definition ih_WRITABLE :: "reg list" where
  "ih_WRITABLE = filter (\<lambda>r. r \<notin> set ih_RESERVED) all_regs"

definition ih_random_writable :: "(gen_state, reg) sem" where
  "ih_random_writable = draw (choice ih_WRITABLE)"

definition ih_pick_dependent_source :: "reg list \<Rightarrow> (gen_state, reg) sem" where
  "ih_pick_dependent_source recent_writes =
     bindM getM (\<lambda>s. let candidates = filter (\<lambda>r. gp_is_live (gps s) r \<and> r \<noteq> X0) (last_n 4 recent_writes) in
       if candidates \<noteq> [] then draw (choice candidates) else live_gp)"

definition ih_emit_alu_r :: "bool \<Rightarrow> reg list \<Rightarrow> (gen_state, asm_instr) sem" where
  "ih_emit_alu_r dep recent_writes =
     bindM (draw (choice ih_ALU_R)) (\<lambda>op.
     bindM ih_random_writable (\<lambda>rd.
     bindM (if dep then ih_pick_dependent_source recent_writes else live_gp) (\<lambda>rs1.
     bindM live_gp (\<lambda>rs2.
     bindM (mark_gp rd) (\<lambda>_.
       emit3 op rd rs1 (OReg rs2))))))"

definition ih_emit_alu_i :: "bool \<Rightarrow> reg list \<Rightarrow> (gen_state, asm_instr) sem" where
  "ih_emit_alu_i dep recent_writes =
     bindM (draw (choice ih_ALU_I)) (\<lambda>op.
     bindM ih_random_writable (\<lambda>rd.
     bindM (if dep then ih_pick_dependent_source recent_writes else live_gp) (\<lambda>rs1.
     bindM (if op \<in> set [Slli, Srli, Srai] then draw (randint 0 63) else draw (randint (- 2048) 2047)) (\<lambda>imm.
     bindM (mark_gp rd) (\<lambda>_.
       emit3 op rd rs1 (OInt imm))))))"

text \<open>\<open>_setup_data_pointer\<close>: the instructions and the pointer register.\<close>

definition ih_setup_data_pointer :: "(gen_state, asm_instr list \<times> reg) sem" where
  "ih_setup_data_pointer =
     (let base = X10;
          upper = drop_bit 12 DATA_BASE AND 0xFFFFF;
          lower = DATA_BASE AND 0xFFF;
          (upper, lower) = (if lower AND 0x800 \<noteq> 0 then ((upper + 1) AND 0xFFFFF, lower - 0x1000)
                            else (upper, lower))
      in bindM (liftM (lui_i (OReg base) upper)) (\<lambda>i.
         bindM (liftM (addi_i (OReg base) (OReg base) lower)) (\<lambda>j.
         bindM (mark_gp base) (\<lambda>_. retM ([i, j], base)))))"

definition ih_MAX_MEM_OFFSET :: int where
  "ih_MAX_MEM_OFFSET = (min (size DATA) 2048 div 8 - 1) * 8"

definition ih_emit_mem :: "reg \<Rightarrow> bool \<Rightarrow> reg list \<Rightarrow> (gen_state, asm_instr) sem" where
  "ih_emit_mem ptr_reg dep recent_writes =
     bindM (draw (choice [''lw'', ''ld'', ''sw'', ''sd''])) (\<lambda>op_choice.
     bindM (draw (randint 0 (ih_MAX_MEM_OFFSET div 8))) (\<lambda>k. let offset = k * 8 in
       if op_choice = ''lw'' then
         bindM ih_random_writable (\<lambda>rd. bindM (mark_gp rd) (\<lambda>_. emit3 Lw rd ptr_reg (OInt offset)))
       else if op_choice = ''ld'' then
         bindM ih_random_writable (\<lambda>rd. bindM (mark_gp rd) (\<lambda>_. emit3 Ld rd ptr_reg (OInt offset)))
       else if op_choice = ''sw'' then
         bindM (if dep then ih_pick_dependent_source recent_writes else live_gp) (\<lambda>rs2.
           emit3 Sw rs2 ptr_reg (OInt offset))
       else
         bindM (if dep then ih_pick_dependent_source recent_writes else live_gp) (\<lambda>rs2.
           emit3 Sd rs2 ptr_reg (OInt offset))))"

text \<open>The end of the loop body: the destination is read back from the text of the instruction.\<close>

definition ih_note_write :: "asm_instr \<Rightarrow> reg list \<Rightarrow> reg list result" where
  "ih_note_write instr recent_writes =
     (if mnemonic instr \<in> set [''add'', ''sub'', ''sll'', ''srl'', ''sra'', ''addi'', ''slli'', ''srli'', ''srai'', ''lw'', ''ld'']
      then case operands instr of
             [] \<Rightarrow> Inl (IndexError ''tuple index out of range'')
           | rd_str # _ \<Rightarrow>
               bindR (py_int (drop 1 rd_str)) (\<lambda>rd_idx.
               bindR (reg_of_value rd_idx) (\<lambda>rd.
                 Inr (last_n 8 (recent_writes @ [rd]))))
      else Inr recent_writes)"

definition ih_pass :: "reg \<Rightarrow> reg list \<Rightarrow> (gen_state, asm_instr list \<times> reg list) sem" where
  "ih_pass ptr recent_writes =
     bindM (draw random_unit) (\<lambda>u. let dep = u < fl (70 / 100) in
     bindM (draw (choices1 [''alu_r'', ''alu_i'', ''mem''] [35, 25, 40])) (\<lambda>kind.
     bindM (if kind = ''alu_r'' then ih_emit_alu_r dep recent_writes
            else if kind = ''alu_i'' then ih_emit_alu_i dep recent_writes
            else ih_emit_mem ptr dep recent_writes) (\<lambda>instr.
     bindM (liftM (ih_note_write instr recent_writes)) (\<lambda>recent_writes'.
       retM ([instr], recent_writes')))))"

definition ih_generate :: "int \<Rightarrow> (gen_state, asm_instr list) sem" where
  "ih_generate len =
     bindM ih_setup_data_pointer (\<lambda>(setup, ptr).
     bindM (while_short (len + int (length setup)) (\<lambda>recent_writes out. ih_pass ptr recent_writes) [] setup) (\<lambda>(out, _).
       retM out))"

section \<open>Every emitted instruction is safe\<close>

text \<open>The instructions of the scenario: no floating point, atomic, multiply, divide or branch.\<close>

primrec ih_kind :: "instr \<Rightarrow> bool" where
  "ih_kind (RI e rd rs1 rs2) = (e \<in> set ih_ALU_R)"
| "ih_kind (II e rd rs1 imm) = (e \<in> set ih_ALU_I)"
| "ih_kind (LUI rd imm) = True"
| "ih_kind (LDI e rd b off) = (e \<in> set [Lw, Ld])"
| "ih_kind (STI e rs2 b off) = (e \<in> set [Sw, Sd])"
| "ih_kind (BRI e rs1 rs2 l) = False"
| "ih_kind (FPI m rs rm) = False"
| "ih_kind (SYS m) = False"
| "ih_kind (LIT line) = False"

lemma ih_writable: "r \<in> set ih_WRITABLE \<longleftrightarrow> r \<notin> {X0, X1, X2, X10}"
  by (simp add: ih_WRITABLE_def ih_RESERVED_def)

lemma ih_writable_nonempty: "ih_WRITABLE \<noteq> []"
  using ih_writable [of X5] by auto

lemma wp_ih_random_writable [wp_intros]:
  "(\<And>r ws. r \<notin> {X0, X1, X2, X10} \<Longrightarrow> Q r (s\<lparr>words := ws\<rparr>)) \<Longrightarrow> wp ih_random_writable Q s"
  unfolding ih_random_writable_def
  by (intro wp_intros ih_writable_nonempty) (simp add: ih_writable)

lemma wp_ih_pick [wp_intros]:
  assumes "gp_ok (gps s)" and "\<And>r ws. r \<in> gp_live (gps s) \<Longrightarrow> Q r (s\<lparr>words := ws\<rparr>)"
  shows "wp (ih_pick_dependent_source recent) Q s"
  unfolding ih_pick_dependent_source_def Let_def
  by (intro wp_intros) (auto simp: gp_is_live_def assms)

lemma ih_emit_alu_r_ok:
  "ready pointers s \<Longrightarrow> wp (ih_emit_alu_r dep recent) (step_ok pointers {X0, X1, X2, X10} ih_kind s) s"
  unfolding ih_emit_alu_r_def
  by (intro wp_intros step_okI) (auto simp: ready_def emitted_simps ih_ALU_R_def)

lemma ih_emit_alu_i_ok:
  "ready pointers s \<Longrightarrow> wp (ih_emit_alu_i dep recent) (step_ok pointers {X0, X1, X2, X10} ih_kind s) s"
  unfolding ih_emit_alu_i_def
  by (intro wp_intros wp_emit_i step_okI) (auto simp: ready_def emitted_simps ih_ALU_I_def)

lemma ih_emit_mem_ok:
  "ready pointers s \<Longrightarrow> wp (ih_emit_mem X10 dep recent) (step_ok pointers {X0, X1, X2, X10} ih_kind s) s"
  unfolding ih_emit_mem_def Let_def ih_MAX_MEM_OFFSET_def
  by (intro wp_intros step_okI)
    (auto simp: ready_def emitted_simps pointer_access layout_defs)

text \<open>The destination that is read back from the text is the destination of the instruction.\<close>

lemma ih_note_write_text:
  "ih_kind i \<Longrightarrow> encodable i \<Longrightarrow> keeps {X0} i \<Longrightarrow> (\<forall>rd imm. i \<noteq> LUI rd imm) \<Longrightarrow>
     ih_note_write (text_of i) recent
       = Inr (case dest i of Some rd \<Rightarrow> last_n 8 (recent @ [rd]) | None \<Rightarrow> recent)"
  by (cases i) (auto simp: ih_note_write_def ih_ALU_R_def ih_ALU_I_def mk_instr_def reg_asm_def)


text \<open>The two instructions that set up the pointer, and the loop that follows them.\<close>

definition pointer_prog :: "instr list" where
  "pointer_prog = [LUI X10 0x14, II Addi X10 X10 0]"

lemma pointer_setup:
  assumes "gp_ok (gps s)" and "fp_ok (fps s)" and "list_all kind pointer_prog"
  shows "wp ih_setup_data_pointer (\<lambda>(setup, ptr) s'. setup = map text_of pointer_prog \<and> ptr = X10
    \<and> progress (static_init (gp_live (gps s))) pointers kind (map text_of pointer_prog) s') s"
proof -
  let ?st = "static_init (gp_live (gps s))"
  let ?s = "s\<lparr>gps := gp_write X10 (gps s)\<rparr>"
  have "tracks ?st pointers pointer_prog ?s"
    using assms(1,2)
    by (auto simp: tracks_def ready_def safe_instr_def static_init_def exec_static_def pointers_def
        layout_defs lui_value_def map_le_def pointer_prog_def)
  then have "progress ?st pointers kind (map text_of pointer_prog) ?s"
    unfolding progress_def using assms(3)
    by (intro exI [of _ pointer_prog]) (simp add: keeps_def pointer_prog_def)
  then show ?thesis
    by (simp add: ih_setup_data_pointer_def layout_defs Let_def wp_simps lui_i_def addi_i_def pointer_prog_def)
qed

lemma pointer_loop:
  assumes "gp_ok (gps s)" and "fp_ok (fps s)" and "list_all kind pointer_prog"
    and "J v (map text_of pointer_prog)"
    and pass: "\<And>v out s'. progress (static_init (gp_live (gps s))) pointers kind out s' \<Longrightarrow> J v out \<Longrightarrow>
      wp (pass X10 v out) (\<lambda>(is, v') s''. progress (static_init (gp_live (gps s))) pointers kind (out @ is) s''
        \<and> J v' (out @ is) \<and> is \<noteq> [] \<and> length is \<le> Suc k) s'"
    and post: "\<And>out v. safe_text (gp_live (gps s)) kind out \<Longrightarrow> J v out \<Longrightarrow> max len 0 + 2 \<le> int (length out) \<Longrightarrow>
      int (length out) \<le> max len 0 + 2 + int k \<Longrightarrow> Q out"
  shows "wp (bindM ih_setup_data_pointer (\<lambda>(setup, ptr).
      bindM (while_short (len + int (length setup)) (pass ptr) v setup) (\<lambda>(out, _). retM out))) (\<lambda>out _. Q out) s"
proof (rule wp_bindI, rule wp_mono [OF pointer_setup [OF assms(1-3)]], clarsimp, rule wp_bindI, rule while_progress)
  fix v out s'
  assume "progress (static_init (gp_live (gps s))) pointers kind out s'" and "J v out"
  then show "wp (pass X10 v out) (\<lambda>(is, v') s''. progress (static_init (gp_live (gps s))) pointers kind (out @ is) s''
        \<and> J v' (out @ is) \<and> is \<noteq> [] \<and> length is \<le> Suc k) s'" by (rule pass)
next
  show "J v (map text_of pointer_prog)" by (rule assms)
qed (auto simp: wp_simps pointer_prog_def intro!: post elim: progress_safe)

text \<open>One pass: the emit function is chosen by the weighted draw, then the destination is noted.\<close>

lemma wp_ih_note_write:
  assumes "emitted pointers {X0, X1, X2, X10} i s s'" and "ih_kind i" and "\<And>recent'. Q recent' s'"
  shows "wp (liftM (ih_note_write (text_of i) recent)) Q s'"
proof (cases i)
  case (LUI rd imm)
  then show ?thesis by (simp add: ih_note_write_def mk_instr_def wp_simps assms)
next
qed (use assms ih_note_write_text [of i recent] in \<open>auto simp: emitted_def keeps_def wp_simps\<close>)

lemmas ih_emit_steps = wp_step [OF ih_emit_alu_r_ok] wp_step [OF ih_emit_alu_i_ok] wp_step [OF ih_emit_mem_ok]

lemma ih_pass_ok:
  assumes "progress st pointers ih_kind out s"
  shows "wp (ih_pass X10 recent)
    (\<lambda>(is, recent') s'. progress st pointers ih_kind (out @ is) s' \<and> True \<and> is \<noteq> [] \<and> length is \<le> Suc 0) s"
  using progress_ready [OF assms] unfolding ih_pass_def Let_def
  by (intro wp_bindI wp_ifI wp_drawI wp_random_unit wp_choices1 ih_emit_steps wp_ih_note_write wp_retI)
    (auto intro!: progress_step [OF assms] dest: pointers_SomeD)

lemma ih_generate_ok:
  assumes "gp_ok (gps s)" and "fp_ok (fps s)"
  shows "wp (ih_generate len) (\<lambda>out _. safe_text (gp_live (gps s)) ih_kind out
    \<and> int (length out) = max len 0 + 2) s"
  unfolding ih_generate_def
  by (rule pointer_loop [OF assms, where J = "\<lambda>_ _. True" and k = 0])
    (auto simp: pointer_prog_def ih_ALU_I_def intro!: wp_mono [OF ih_pass_ok])

interpretation ih: scenario ih_generate "{}" ih_kind
  by unfold_locales (auto intro: wp_mono [OF ih_generate_ok])

section \<open>Properties\<close>

text \<open>
  C6. For every seed and length, the scenario \<open>int_hazards\<close> returns, and the program it emits is two
  pointer instructions and the requested number of others, all of the scenario's kind. It is safe:
  every immediate fits its field, every source register has been written before (or is \<open>x0\<close> or the
  stack pointer), every access goes through a register holding the base of the data region and is
  aligned and inside the region, and \<open>x0\<close>, \<open>ra\<close> and \<open>sp\<close> are never written.
\<close>

theorem ih_generate_safe:
  "wp (ih_generate len) (\<lambda>out _. safe_text {X0, X2} ih_kind out \<and> int (length out) = max len 0 + 2)
     (gen_init ws)"
  using ih_generate_ok [of "gen_init ws" len] by simp

text \<open>
  A dependent source is one of the last four destinations: when the recent writes are live and
  not \<open>x0\<close>, as the loop keeps them, \<open>_pick_dependent_source\<close> returns one of the last four of them.
\<close>

lemma ih_dependent_source:
  assumes "recent \<noteq> []" and "list_all (\<lambda>r. gp_is_live (gps s) r \<and> r \<noteq> X0) recent"
  shows "wp (ih_pick_dependent_source recent) (\<lambda>r _. r \<in> set (last_n 4 recent) \<and> r \<noteq> X0) s"
proof -
  have "filter (\<lambda>r. gp_is_live (gps s) r \<and> r \<noteq> X0) (last_n 4 recent) = last_n 4 recent"
    using assms(2) last_n_subset [of 4 recent] by (intro filter_True) (auto simp: list_all_iff)
  moreover have "last_n 4 recent \<noteq> []" using assms(1) by (simp flip: length_greater_0_conv)
  moreover have "X0 \<notin> set (last_n 4 recent)"
    using assms(2) last_n_subset [of 4 recent] by (auto simp: list_all_iff)
  ultimately show ?thesis
    unfolding ih_pick_dependent_source_def by (auto intro!: wp_intros simp: Let_def)
qed

lemma ih_dependent_source_witness:
  "wp (ih_pick_dependent_source [X5, X6, X7, X8, X9])
     (\<lambda>r _. r \<in> set (last_n 4 [X5, X6, X7, X8, X9]) \<and> r \<noteq> X0)
     (\<lparr>words = [7], gps = \<lparr>gp_live = {X0, X2, X5, X6, X7, X8, X9}\<rparr>, fps = fp_init\<rparr>)"
  by (rule ih_dependent_source) (simp_all add: gp_is_live_def)

end
