(* ===== verification/Muldiv_Interleave.thy ===== *)
theory Muldiv_Interleave
  imports Int_Hazards
begin

text \<open>
  The scenario tools/crv/scenarios/muldiv_interleave.py, with the prefix \<open>md_\<close>: multiplications and
  divisions followed by dependent consumers, between loads and other integer instructions. The
  scenario works around two hangs of the core it tests, and those workarounds are the properties: no
  operand of a multiply or divide is \<open>x0\<close>, at least four instructions separate two of them, and there
  are never more than two loads in a row.
\<close>

section \<open>Definitions\<close>

definition md_MULDIV_OPS :: "encoder list" where
  "md_MULDIV_OPS = [Mul, Div, Divu, Rem, Remu]"

definition md_ALU_R :: "encoder list" where
  "md_ALU_R = [Add, Sub, Sll, Srl]"

definition md_ALU_I :: "encoder list" where
  "md_ALU_I = [Addi, Slli, Srli, Srai]"

definition md_RESERVED :: "reg list" where
  "md_RESERVED = [X0, X1, X2, X10]"

definition md_WRITABLE :: "reg list" where
  "md_WRITABLE = filter (\<lambda>r. r \<notin> set md_RESERVED) all_regs"

definition md_MAX_MEM_OFFSET :: int where
  "md_MAX_MEM_OFFSET = 2040"

definition md_random_writable :: "(gen_state, reg) sem" where
  "md_random_writable = draw (choice md_WRITABLE)"

text \<open>The list \<open>live_nonzero\<close> of \<open>_emit_muldiv\<close>, as the set it is sorted from.\<close>

definition md_live_nonzero :: "gp_state \<Rightarrow> reg set" where
  "md_live_nonzero g =
     (let live_nonzero = Set.filter (\<lambda>r. r \<noteq> X0) (gp_live g) in
      if live_nonzero = {} then {X2} else live_nonzero)"

definition md_emit_muldiv :: "(gen_state, asm_instr \<times> reg) sem" where
  "md_emit_muldiv =
     bindM (draw (choice md_MULDIV_OPS)) (\<lambda>op.
     bindM md_random_writable (\<lambda>rd.
     bindM getM (\<lambda>s.
     bindM (draw (choice (sorted_list_of_set (md_live_nonzero (gps s))))) (\<lambda>rs1.
     bindM (draw (choice (sorted_list_of_set (md_live_nonzero (gps s))))) (\<lambda>rs2.
     bindM (mark_gp rd) (\<lambda>_.
     bindM (emit3 op rd rs1 (OReg rs2)) (\<lambda>i. retM (i, rd))))))))"

definition md_emit_dependent_consumer :: "reg \<Rightarrow> (gen_state, asm_instr) sem" where
  "md_emit_dependent_consumer src =
     bindM (draw (choice md_ALU_R)) (\<lambda>op.
     bindM md_random_writable (\<lambda>rd.
     bindM live_gp (\<lambda>rs2.
     bindM (mark_gp rd) (\<lambda>_.
       emit3 op rd src (OReg rs2)))))"

definition md_emit_alu :: "(gen_state, asm_instr) sem" where
  "md_emit_alu =
     bindM (draw (choice (md_ALU_R @ md_ALU_I))) (\<lambda>op.
     bindM md_random_writable (\<lambda>rd.
     bindM live_gp (\<lambda>rs1.
       if op \<in> set md_ALU_I then
         bindM (if op \<in> set [Slli, Srli, Srai] then draw (randint 0 63) else draw (randint (- 2048) 2047)) (\<lambda>imm.
         bindM (mark_gp rd) (\<lambda>_. emit3 op rd rs1 (OInt imm)))
       else
         bindM live_gp (\<lambda>rs2. bindM (mark_gp rd) (\<lambda>_. emit3 op rd rs1 (OReg rs2))))))"

definition md_emit_mem :: "reg \<Rightarrow> (gen_state, asm_instr) sem" where
  "md_emit_mem ptr =
     bindM (draw (randint 0 (md_MAX_MEM_OFFSET div 8))) (\<lambda>k. let offset = k * 8 in
     bindM (draw (choice [''lw'', ''ld''])) (\<lambda>op_choice.
       if op_choice = ''lw'' then
         bindM md_random_writable (\<lambda>rd. bindM (mark_gp rd) (\<lambda>_. emit3 Lw rd ptr (OInt offset)))
       else
         bindM md_random_writable (\<lambda>rd. bindM (mark_gp rd) (\<lambda>_. emit3 Ld rd ptr (OInt offset)))))"

text \<open>The loop \<open>for _ in range(n_consumers)\<close>: the consumers it appends.\<close>

primrec md_consumers :: "nat \<Rightarrow> reg \<Rightarrow> (gen_state, asm_instr list) sem" where
  "md_consumers 0 rd = retM []"
| "md_consumers (Suc n) rd =
     bindM (md_emit_dependent_consumer rd) (\<lambda>i. bindM (md_consumers n rd) (\<lambda>is. retM (i # is)))"

text \<open>One pass; the local variables are \<open>consec_mem\<close> and \<open>since_muldiv\<close>.\<close>

definition md_pass :: "reg \<Rightarrow> nat \<times> nat \<Rightarrow> (gen_state, asm_instr list \<times> nat \<times> nat) sem" where
  "md_pass ptr = (\<lambda>(consec_mem, since_muldiv).
     if consec_mem \<ge> 2 then
       bindM md_emit_alu (\<lambda>i. retM ([i], 0, since_muldiv + 1))
     else
       bindM (draw (choices1 [''muldiv'', ''alu'', ''mem''] [30, 30, 40])) (\<lambda>kind.
         let kind = (if kind = ''muldiv'' \<and> since_muldiv < 4 then ''alu'' else kind) in
         if kind = ''muldiv'' then
           bindM md_emit_muldiv (\<lambda>(i, rd).
           bindM (draw (randint 1 3)) (\<lambda>n_consumers.
           bindM (md_consumers (nat n_consumers) rd) (\<lambda>is. retM (i # is, 0, 0 + length is))))
         else if kind = ''alu'' then
           bindM md_emit_alu (\<lambda>i. retM ([i], 0, since_muldiv + 1))
         else
           bindM (md_emit_mem ptr) (\<lambda>i. retM ([i], consec_mem + 1, since_muldiv + 1))))"

definition md_generate :: "int \<Rightarrow> (gen_state, asm_instr list) sem" where
  "md_generate len =
     bindM ih_setup_data_pointer (\<lambda>(setup, ptr).
     bindM (while_short (len + int (length setup)) (\<lambda>v out. md_pass ptr v) (0, 99) setup) (\<lambda>(out, _). retM out))"

section \<open>Every emitted instruction is safe\<close>

text \<open>The instructions of the scenario; a multiply or divide has no \<open>x0\<close> operand.\<close>

primrec md_kind :: "instr \<Rightarrow> bool" where
  "md_kind (RI e rd rs1 rs2) =
     (e \<in> set md_ALU_R \<or> e \<in> set md_MULDIV_OPS \<and> rs1 \<noteq> X0 \<and> rs2 \<noteq> X0)"
| "md_kind (II e rd rs1 imm) = (e \<in> set md_ALU_I)"
| "md_kind (LUI rd imm) = True"
| "md_kind (LDI e rd b off) = (e \<in> set [Lw, Ld])"
| "md_kind (STI e rs2 b off) = False"
| "md_kind (BRI e rs1 rs2 l) = False"
| "md_kind (FPI m rs rm) = False"
| "md_kind (SYS m) = False"
| "md_kind (LIT line) = False"

definition is_muldiv :: "asm_instr \<Rightarrow> bool" where
  "is_muldiv i \<longleftrightarrow> mnemonic i \<in> set [''mul'', ''div'', ''divu'', ''rem'', ''remu'']"

definition is_load :: "asm_instr \<Rightarrow> bool" where
  "is_load i \<longleftrightarrow> mnemonic i \<in> set [''lw'', ''ld'']"

lemma md_writable: "r \<in> set md_WRITABLE \<longleftrightarrow> r \<notin> {X0, X1, X2, X10}"
  by (simp add: md_WRITABLE_def md_RESERVED_def)

lemma md_writable_nonempty: "md_WRITABLE \<noteq> []"
  using md_writable [of X5] by auto

lemma wp_md_random_writable [wp_intros]:
  "(\<And>r ws. r \<notin> {X0, X1, X2, X10} \<Longrightarrow> Q r (s\<lparr>words := ws\<rparr>)) \<Longrightarrow> wp md_random_writable Q s"
  unfolding md_random_writable_def by (intro wp_intros md_writable_nonempty) (simp add: md_writable)

text \<open>What each emit function adds to the invariant, by the class of the instruction.\<close>

definition md_plain :: "instr \<Rightarrow> bool" where
  "md_plain i \<longleftrightarrow> md_kind i \<and> \<not> is_muldiv (text_of i) \<and> \<not> is_load (text_of i)"

definition md_load :: "instr \<Rightarrow> bool" where
  "md_load i \<longleftrightarrow> md_kind i \<and> \<not> is_muldiv (text_of i) \<and> is_load (text_of i)"

lemmas md_class_defs = md_plain_def md_load_def is_muldiv_def is_load_def mk_instr_def
  md_ALU_R_def md_ALU_I_def md_MULDIV_OPS_def

lemma md_emit_alu_ok:
  "ready pointers s \<Longrightarrow> wp md_emit_alu (step_ok pointers {X0, X1, X2, X10} md_plain s) s"
  unfolding md_emit_alu_def
  by (intro wp_intros wp_emit_i step_okI) (auto simp: ready_def emitted_simps md_class_defs)

lemma md_emit_mem_ok:
  "ready pointers s \<Longrightarrow> wp (md_emit_mem X10) (step_ok pointers {X0, X1, X2, X10} md_load s) s"
  unfolding md_emit_mem_def Let_def md_MAX_MEM_OFFSET_def
  by (intro wp_intros step_okI) (auto simp: ready_def emitted_simps md_class_defs pointer_access)

lemma md_emit_dependent_consumer_ok:
  "ready pointers s \<Longrightarrow> src \<in> gp_live (gps s) \<Longrightarrow>
     wp (md_emit_dependent_consumer src) (step_ok pointers {X0, X1, X2, X10} md_plain s) s"
  unfolding md_emit_dependent_consumer_def
  by (intro wp_intros step_okI) (auto simp: ready_def emitted_simps md_class_defs)

lemma md_live_nonzero_iff:
  "X10 \<in> gp_live g \<Longrightarrow> r \<in> md_live_nonzero g \<longleftrightarrow> r \<in> gp_live g \<and> r \<noteq> X0"
  by (auto simp: md_live_nonzero_def Let_def)

lemma md_live_nonzero_nonempty [simp]: "md_live_nonzero g \<noteq> {}"
  by (auto simp: md_live_nonzero_def Let_def)

definition md_muldiv :: "reg \<Rightarrow> instr \<Rightarrow> bool" where
  "md_muldiv rd i \<longleftrightarrow> md_kind i \<and> is_muldiv (text_of i) \<and> \<not> is_load (text_of i) \<and> dest i = Some rd"

lemma md_emit_muldiv_ok:
  assumes "ready pointers s"
  shows "wp md_emit_muldiv (\<lambda>(i, rd). step_ok pointers {X0, X1, X2, X10} (md_muldiv rd) s i) s"
  unfolding md_emit_muldiv_def Let_def
  by (intro wp_intros step_ok_pairI)
    (use assms in \<open>auto simp: ready_def emitted_simps md_class_defs md_muldiv_def md_live_nonzero_iff\<close>)


lemma wp_md_emit_muldiv:
  assumes "ready pointers s"
    and "\<And>i rd s'. emitted pointers {X0, X1, X2, X10} i s s' \<Longrightarrow> md_muldiv rd i \<Longrightarrow> Q (text_of i, rd) s'"
  shows "wp md_emit_muldiv Q s"
  by (rule wp_mono [OF md_emit_muldiv_ok [OF assms(1)]]) (auto simp: step_ok_def intro: assms(2))

lemma progress_md_step:
  "progress st pointers md_kind out s \<Longrightarrow> emitted pointers {X0, X1, X2, X10} i s s' \<Longrightarrow> md_kind i \<Longrightarrow>
     progress st pointers md_kind (out @ [text_of i]) s'"
  by (rule progress_step) auto

lemma md_consumers_ok:
  assumes "progress st pointers md_kind out s" and "rd \<in> gp_live (gps s)"
  shows "wp (md_consumers n rd) (\<lambda>is s'. progress st pointers md_kind (out @ is) s' \<and> length is = n
    \<and> list_all (\<lambda>i. \<not> is_muldiv i \<and> \<not> is_load i) is) s"
  using assms
proof (induction n arbitrary: out s)
  case 0
  then show ?case by (simp add: wp_simps)
next
  case (Suc n)
  show ?case
    unfolding md_consumers.simps
  proof (intro wp_bindI, rule wp_step [OF md_emit_dependent_consumer_ok])
    fix i s'
    assume e: "emitted pointers {X0, X1, X2, X10} i s s'" and k: "md_plain i"
    then have "progress st pointers md_kind (out @ [text_of i]) s'"
      using Suc.prems(1) by (intro progress_md_step) (auto simp: md_plain_def)
    moreover have "rd \<in> gp_live (gps s')" using e Suc.prems(2) by (auto simp: emitted_def)
    ultimately have "wp (md_consumers n rd) (\<lambda>is s'. progress st pointers md_kind ((out @ [text_of i]) @ is) s'
        \<and> length is = n \<and> list_all (\<lambda>i. \<not> is_muldiv i \<and> \<not> is_load i) is) s'" by (rule Suc.IH)
    then show "wp (bindM (md_consumers n rd) (\<lambda>is. retM (text_of i # is))) (\<lambda>is s'. progress st pointers md_kind (out @ is) s'
        \<and> length is = Suc n \<and> list_all (\<lambda>i. \<not> is_muldiv i \<and> \<not> is_load i) is) s'"
      by (intro wp_bindI, elim wp_mono) (use k in \<open>auto simp: wp_simps md_plain_def\<close>)
  qed (use Suc.prems progress_ready in auto)
qed

text \<open>The loop's local variables count what the workarounds need.\<close>

definition md_counts :: "nat \<times> nat \<Rightarrow> asm_instr list \<Rightarrow> bool" where
  "md_counts = (\<lambda>(consec_mem, since_muldiv) out.
     spaced is_muldiv 4 0 out \<and> gap_after is_muldiv 4 0 out = 4 - since_muldiv
     \<and> runs is_load 2 0 out \<and> run_after is_load 0 out = consec_mem)"

lemma md_pass_ok:
  assumes p: "progress st pointers md_kind out s" and J: "md_counts v out"
  shows "wp (md_pass X10 v) (\<lambda>(is, v') s'. progress st pointers md_kind (out @ is) s'
    \<and> md_counts v' (out @ is) \<and> is \<noteq> [] \<and> length is \<le> Suc 3) s"
proof -
  obtain consec since where v: "v = (consec, since)" by fastforce
  note ready = progress_ready [OF p]
  have plain: "progress st pointers md_kind (out @ [text_of i]) s'
      \<and> md_counts (0, Suc since) (out @ [text_of i])"
    if "emitted pointers {X0, X1, X2, X10} i s s'" "md_plain i" for i s'
    using progress_md_step [OF p that(1)] that(2) J by (simp add: v md_counts_def md_plain_def)
  have load: "progress st pointers md_kind (out @ [text_of i]) s'
      \<and> md_counts (Suc consec, Suc since) (out @ [text_of i])"
    if "emitted pointers {X0, X1, X2, X10} i s s'" "md_load i" "\<not> 2 \<le> consec" for i s'
    using progress_md_step [OF p that(1)] that(2,3) J by (simp add: v md_counts_def md_load_def)
  have muldiv: "wp (md_consumers (nat n) rd) (\<lambda>is s'. progress st pointers md_kind (out @ text_of i # is) s'
      \<and> md_counts (0, length is) (out @ text_of i # is) \<and> length is \<le> 3) s'"
    if e: "emitted pointers {X0, X1, X2, X10} i s s'" "md_muldiv rd i" and "4 \<le> since" "1 \<le> n" "n \<le> 3" for i s' n rd
  proof -
    have "progress st pointers md_kind (out @ [text_of i]) s'" using e by (intro progress_md_step [OF p]) (auto simp: md_muldiv_def)
    moreover have "rd \<in> gp_live (gps s')" using e by (auto simp: emitted_def md_muldiv_def)
    ultimately show ?thesis
      by (rule wp_mono [OF md_consumers_ok])
        (use e(2) that(3-5) J in \<open>auto simp: v md_counts_def md_muldiv_def scan_none list_all_conj\<close>)
  qed
  show ?thesis
    unfolding v md_pass_def prod.case Let_def
    by (intro wp_ifI wp_bindI wp_drawI wp_choices1 wp_retI wp_splitI wp_randint
        wp_step [OF md_emit_alu_ok] wp_step [OF md_emit_mem_ok] wp_md_emit_muldiv)
      (use plain load muldiv in \<open>auto simp: ready wp_simps split: if_splits\<close>)
qed

lemma md_generate_ok:
  assumes "gp_ok (gps s)" and "fp_ok (fps s)"
  shows "wp (md_generate len) (\<lambda>out _. safe_text (gp_live (gps s)) md_kind out
    \<and> spaced is_muldiv 4 0 out \<and> runs is_load 2 0 out
    \<and> max len 0 + 2 \<le> int (length out) \<and> int (length out) \<le> max len 0 + 5) s"
  unfolding md_generate_def
proof (rule pointer_loop [OF assms, where J = md_counts and k = 3])
  show "list_all md_kind pointer_prog" by (simp add: pointer_prog_def md_ALU_I_def)
  show "md_counts (0, 99) (map text_of pointer_prog)"
    by (simp add: md_counts_def pointer_prog_def is_muldiv_def is_load_def mk_instr_def)
qed (rule md_pass_ok, auto simp: md_counts_def)

interpretation md: scenario md_generate "{}" md_kind
  by unfold_locales (auto intro: wp_mono [OF md_generate_ok])

section \<open>Properties\<close>

text \<open>
  C8. For every seed and length, the scenario \<open>muldiv_interleave\<close> returns a safe program (as for
  \<open>int_hazards\<close>) in which no multiply or divide reads \<open>x0\<close>; it exceeds the requested length by the two
  pointer instructions and at most three consumers.
\<close>

theorem md_generate_safe:
  "wp (md_generate len) (\<lambda>out _. safe_text {X0, X2} md_kind out
     \<and> max len 0 + 2 \<le> int (length out) \<and> int (length out) \<le> max len 0 + 5) (gen_init ws)"
  by (rule wp_mono [OF md_generate_ok]) simp_all

text \<open>
  C7. The workarounds for the hangs of the core hold in every generated program: two multiply or
  divide instructions at positions \<open>j < k\<close> have at least four instructions between them, and no three
  loads follow one another.
\<close>

theorem md_generate_spaced:
  "wp (md_generate len) (\<lambda>out _. spaced is_muldiv 4 0 out \<and> runs is_load 2 0 out) (gen_init ws)"
  by (rule wp_mono [OF md_generate_ok]) simp_all

end
