(* ===== verification/Mem_Ordering.thy ===== *)
theory Mem_Ordering
  imports Crv_Scenario
begin

text \<open>
  The scenario tools/crv/scenarios/mem_ordering.py, with the prefix \<open>mo_\<close>: aligned loads and stores to
  the data region through \<open>x10\<close> and to the atomic region through \<open>x11\<close>, with integer filler. The
  properties: the program is safe, and no more than three accesses follow one another.
\<close>

section \<open>Definitions\<close>

definition mo_ALU_R :: "encoder list" where
  "mo_ALU_R = [Add, Sub]"

definition mo_ALU_I :: "encoder list" where
  "mo_ALU_I = [Addi, Slli, Srli]"

definition mo_RESERVED :: "reg list" where
  "mo_RESERVED = [X0, X1, X2, X10, X11]"

definition mo_WRITABLE :: "reg list" where
  "mo_WRITABLE = filter (\<lambda>r. r \<notin> set mo_RESERVED) all_regs"

definition mo_MAX_OFFSET :: int where
  "mo_MAX_OFFSET = 2040"

definition mo_random_writable :: "(gen_state, reg) sem" where
  "mo_random_writable = draw (choice mo_WRITABLE)"

text \<open>The nested \<open>_load_addr\<close>, then \<open>_setup_pointers\<close> itself.\<close>

definition mo_load_addr :: "reg \<Rightarrow> int \<Rightarrow> (gen_state, asm_instr list) sem" where
  "mo_load_addr r b =
     (let upper = drop_bit 12 b AND 0xFFFFF;
          lower = b AND 0xFFF;
          (upper, lower) = (if lower AND 0x800 \<noteq> 0 then ((upper + 1) AND 0xFFFFF, lower - 0x1000)
                            else (upper, lower))
      in bindM (liftM (lui_i (OReg r) upper)) (\<lambda>i.
         bindM (liftM (addi_i (OReg r) (OReg r) lower)) (\<lambda>j.
         bindM (mark_gp r) (\<lambda>_. retM [i, j]))))"

definition mo_setup_pointers :: "(gen_state, asm_instr list \<times> reg \<times> reg) sem" where
  "mo_setup_pointers =
     bindM (mo_load_addr X10 DATA_BASE) (\<lambda>is.
     bindM (mo_load_addr X11 ATOMIC_BASE) (\<lambda>js. retM (is @ js, X10, X11)))"

definition mo_emit_mem :: "reg \<Rightarrow> (gen_state, asm_instr) sem" where
  "mo_emit_mem ptr =
     bindM (draw (randint 0 (mo_MAX_OFFSET div 8))) (\<lambda>k. let offset = k * 8 in
     bindM (draw (choice [''lw'', ''ld'', ''sw'', ''sd''])) (\<lambda>op_choice.
       if op_choice = ''lw'' then
         bindM mo_random_writable (\<lambda>rd. bindM (mark_gp rd) (\<lambda>_. emit3 Lw rd ptr (OInt offset)))
       else if op_choice = ''ld'' then
         bindM mo_random_writable (\<lambda>rd. bindM (mark_gp rd) (\<lambda>_. emit3 Ld rd ptr (OInt offset)))
       else if op_choice = ''sw'' then
         bindM live_gp (\<lambda>rs2. emit3 Sw rs2 ptr (OInt offset))
       else
         bindM live_gp (\<lambda>rs2. emit3 Sd rs2 ptr (OInt offset))))"

definition mo_emit_alu :: "(gen_state, asm_instr) sem" where
  "mo_emit_alu =
     bindM (draw (choice (mo_ALU_R @ mo_ALU_I))) (\<lambda>op.
     bindM mo_random_writable (\<lambda>rd.
     bindM live_gp (\<lambda>rs1.
       if op \<in> set mo_ALU_I then
         bindM (if op \<in> set [Slli, Srli] then draw (randint 0 63) else draw (randint (- 2048) 2047)) (\<lambda>imm.
         bindM (mark_gp rd) (\<lambda>_. emit3 op rd rs1 (OInt imm)))
       else
         bindM live_gp (\<lambda>rs2. bindM (mark_gp rd) (\<lambda>_. emit3 op rd rs1 (OReg rs2))))))"

text \<open>One pass; the local variable is \<open>consec_mem\<close>.\<close>

definition mo_pass :: "reg \<Rightarrow> reg \<Rightarrow> nat \<Rightarrow> (gen_state, asm_instr list \<times> nat) sem" where
  "mo_pass data_ptr atomic_ptr consec_mem =
     (if consec_mem \<ge> 3 then bindM mo_emit_alu (\<lambda>i. retM ([i], 0))
      else
        bindM (draw (choices1 [''data_mem'', ''atomic_mem'', ''alu''] [40, 20, 40])) (\<lambda>kind.
          if kind = ''data_mem'' then bindM (mo_emit_mem data_ptr) (\<lambda>i. retM ([i], consec_mem + 1))
          else if kind = ''atomic_mem'' then bindM (mo_emit_mem atomic_ptr) (\<lambda>i. retM ([i], consec_mem + 1))
          else bindM mo_emit_alu (\<lambda>i. retM ([i], 0))))"

definition mo_generate :: "int \<Rightarrow> (gen_state, asm_instr list) sem" where
  "mo_generate len =
     bindM mo_setup_pointers (\<lambda>(setup, data_ptr, atomic_ptr).
     bindM (while_short (len + int (length setup)) (\<lambda>consec_mem out. mo_pass data_ptr atomic_ptr consec_mem) 0 setup)
       (\<lambda>(out, _). retM out))"

section \<open>Every emitted instruction is safe\<close>

primrec mo_kind :: "instr \<Rightarrow> bool" where
  "mo_kind (RI e rd rs1 rs2) = (e \<in> set mo_ALU_R)"
| "mo_kind (II e rd rs1 imm) = (e \<in> set mo_ALU_I)"
| "mo_kind (LUI rd imm) = True"
| "mo_kind (LDI e rd b off) = (e \<in> set [Lw, Ld] \<and> b \<in> {X10, X11})"
| "mo_kind (STI e rs2 b off) = (e \<in> set [Sw, Sd] \<and> b \<in> {X10, X11})"
| "mo_kind (BRI e rs1 rs2 l) = False"
| "mo_kind (FPI m rs rm) = False"
| "mo_kind (SYS m) = False"
| "mo_kind (LIT line) = False"

definition is_access :: "asm_instr \<Rightarrow> bool" where
  "is_access i \<longleftrightarrow> mnemonic i \<in> set [''lw'', ''ld'', ''sw'', ''sd'']"

definition mo_pointers :: "reg \<rightharpoonup> 64 word" where
  "mo_pointers = [X10 \<mapsto> word_of_int DATA_BASE, X11 \<mapsto> word_of_int ATOMIC_BASE]"

lemma dom_mo_pointers [simp]: "dom mo_pointers = {X10, X11}"
  by (auto simp: mo_pointers_def)

lemma mo_access:
  assumes "0 \<le> k" and "k \<le> 255" and "e \<in> set [Lw, Ld, Sw, Sd]" and "b = X10 \<or> b = X11"
  shows "access_ok mo_pointers (b, k * 8, access_size e)"
  using assms(4)
proof
  assume "b = X10"
  with assms(1-3) show ?thesis
    by (intro access_ok_pointer [where r = DATA])
      (auto simp: mo_pointers_def layout_defs access_size_def mod_mult_right_eq)
next
  assume "b = X11"
  with assms(1-3) show ?thesis
    by (intro access_ok_pointer [where r = ATOMIC])
      (auto simp: mo_pointers_def layout_defs access_size_def mod_mult_right_eq)
qed

lemma mo_writable: "r \<in> set mo_WRITABLE \<longleftrightarrow> r \<notin> {X0, X1, X2, X10, X11}"
  by (simp add: mo_WRITABLE_def mo_RESERVED_def)

lemma mo_writable_nonempty: "mo_WRITABLE \<noteq> []"
  using mo_writable [of X5] by auto

lemma wp_mo_random_writable [wp_intros]:
  "(\<And>r ws. r \<notin> {X0, X1, X2, X10, X11} \<Longrightarrow> Q r (s\<lparr>words := ws\<rparr>)) \<Longrightarrow> wp mo_random_writable Q s"
  unfolding mo_random_writable_def by (intro wp_intros mo_writable_nonempty) (simp add: mo_writable)

abbreviation mo_fixed :: "reg set" where
  "mo_fixed \<equiv> {X0, X1, X2, X10, X11}"

lemma mo_emit_mem_ok:
  "ready mo_pointers s \<Longrightarrow> b = X10 \<or> b = X11 \<Longrightarrow>
     wp (mo_emit_mem b) (step_ok mo_pointers mo_fixed (\<lambda>i. mo_kind i \<and> is_access (text_of i)) s) s"
  unfolding mo_emit_mem_def Let_def mo_MAX_OFFSET_def
  by (intro wp_intros step_okI)
    (auto simp: ready_def emitted_simps mo_access is_access_def mk_instr_def)

lemma mo_emit_alu_ok:
  "ready mo_pointers s \<Longrightarrow>
     wp mo_emit_alu (step_ok mo_pointers mo_fixed (\<lambda>i. mo_kind i \<and> \<not> is_access (text_of i)) s) s"
  unfolding mo_emit_alu_def
  by (intro wp_intros wp_emit_i step_okI)
    (auto simp: ready_def emitted_simps mo_ALU_R_def mo_ALU_I_def is_access_def mk_instr_def)

definition mo_counts :: "nat \<Rightarrow> asm_instr list \<Rightarrow> bool" where
  "mo_counts consec_mem out \<longleftrightarrow> runs is_access 3 0 out \<and> run_after is_access 0 out = consec_mem"

lemma mo_pass_ok:
  assumes p: "progress st mo_pointers mo_kind out s" and J: "mo_counts v out"
  shows "wp (mo_pass X10 X11 v) (\<lambda>(is, v') s'. progress st mo_pointers mo_kind (out @ is) s'
    \<and> mo_counts v' (out @ is) \<and> is \<noteq> [] \<and> length is \<le> Suc 0) s"
proof -
  have step: "progress st mo_pointers mo_kind (out @ [text_of i]) s'"
    if "emitted mo_pointers mo_fixed i s s'" "mo_kind i" for i s'
    using p that by (rule progress_step) auto
  show ?thesis
    unfolding mo_pass_def
    by (intro wp_ifI wp_bindI wp_drawI wp_choices1 wp_retI wp_step [OF mo_emit_alu_ok] wp_step [OF mo_emit_mem_ok])
      (use J progress_ready [OF p] in \<open>auto simp: mo_counts_def step\<close>)
qed

text \<open>The four instructions that set up the pointers.\<close>

definition mo_prog :: "instr list" where
  "mo_prog = [LUI X10 0x14, II Addi X10 X10 0, LUI X11 0x16, II Addi X11 X11 0]"

lemma mo_setup_ok:
  assumes "gp_ok (gps s)" and "fp_ok (fps s)"
  shows "wp mo_setup_pointers (\<lambda>(setup, data_ptr, atomic_ptr) s'. setup = map text_of mo_prog
    \<and> data_ptr = X10 \<and> atomic_ptr = X11
    \<and> progress (static_init (gp_live (gps s))) mo_pointers mo_kind (map text_of mo_prog) s') s"
proof -
  let ?s = "s\<lparr>gps := gp_write X11 (gp_write X10 (gps s))\<rparr>"
  have "tracks (static_init (gp_live (gps s))) mo_pointers mo_prog ?s"
    using assms
    by (auto simp: tracks_def ready_def safe_instr_def static_init_def exec_static_def mo_pointers_def
        layout_defs lui_value_def map_le_def mo_prog_def)
  then have "progress (static_init (gp_live (gps s))) mo_pointers mo_kind (map text_of mo_prog) ?s"
    unfolding progress_def by (intro exI [of _ mo_prog]) (simp add: keeps_def mo_prog_def mo_ALU_I_def)
  then show ?thesis
    by (simp add: mo_setup_pointers_def mo_load_addr_def layout_defs Let_def wp_simps lui_i_def addi_i_def mo_prog_def)
qed

lemma mo_generate_ok:
  assumes "gp_ok (gps s)" and "fp_ok (fps s)"
  shows "wp (mo_generate len) (\<lambda>out _. safe_text (gp_live (gps s)) mo_kind out
    \<and> runs is_access 3 0 out \<and> int (length out) = max len 0 + 4) s"
  unfolding mo_generate_def
proof (rule wp_bindI, rule wp_mono [OF mo_setup_ok [OF assms]], clarsimp, rule wp_bindI, rule while_progress)
  fix v out s'
  assume "progress (static_init (gp_live (gps s))) mo_pointers mo_kind out s'" and "mo_counts v out"
  then show "wp (mo_pass X10 X11 v) (\<lambda>(is, v') s''.
      progress (static_init (gp_live (gps s))) mo_pointers mo_kind (out @ is) s''
      \<and> mo_counts v' (out @ is) \<and> is \<noteq> [] \<and> length is \<le> Suc 0) s'" by (rule mo_pass_ok)
next
  show "mo_counts 0 (map text_of mo_prog)"
    by (simp add: mo_counts_def mo_prog_def is_access_def mk_instr_def)
qed (auto simp: wp_simps mo_prog_def mo_counts_def elim: progress_safe)

interpretation mo: scenario mo_generate "{}" mo_kind
  by unfold_locales (auto intro: wp_mono [OF mo_generate_ok])

section \<open>Properties\<close>

text \<open>
  C12. For every seed and length, the scenario \<open>mem_ordering\<close> returns a safe program of the requested
  length plus four pointer instructions, whose accesses go through the two pointers only, and in
  which no more than three accesses follow one another.
\<close>

theorem mo_generate_safe:
  "wp (mo_generate len) (\<lambda>out _. safe_text {X0, X2} mo_kind out \<and> runs is_access 3 0 out
     \<and> int (length out) = max len 0 + 4) (gen_init ws)"
  using mo_generate_ok [of "gen_init ws" len] by simp

end
