(* ===== verification/Fp_Arith.thy ===== *)
theory Fp_Arith
  imports Crv_Scenario
begin

text \<open>
  The scenario tools/crv/scenarios/fp_arith.py, with the prefix \<open>fa_\<close>: pipelined floating point
  instructions whose rounding mode rotates through all modes, with integer filler. The properties:
  the program is safe, and the \<open>k\<close>-th floating point instruction has the \<open>k\<close>-th mode of the rotation.
\<close>

section \<open>Definitions\<close>

definition fa_ALU_R :: "encoder list" where
  "fa_ALU_R = [Add, Sub]"

definition fa_FP_BINARY_OPS :: "fp_binary list" where
  "fa_FP_BINARY_OPS = [Fadd_s, Fadd_d, Fsub_s, Fsub_d, Fmul_s, Fmul_d]"

definition fa_FP_TERNARY_OPS :: "fp_ternary list" where
  "fa_FP_TERNARY_OPS = [Fmadd_s, Fmadd_d]"

definition fa_RM_CYCLE :: "rounding_mode list" where
  "fa_RM_CYCLE = [RNE, RTZ, RDN, RUP, RMM, DYN]"

definition fa_RESERVED :: "reg list" where
  "fa_RESERVED = [X0, X1, X2]"

definition fa_WRITABLE :: "reg list" where
  "fa_WRITABLE = filter (\<lambda>r. r \<notin> set fa_RESERVED) all_regs"

definition fa_random_writable :: "(gen_state, reg) sem" where
  "fa_random_writable = draw (choice fa_WRITABLE)"

definition fa_emit_fp_binary :: "rounding_mode \<Rightarrow> (gen_state, asm_instr) sem" where
  "fa_emit_fp_binary rm =
     bindM (draw (choice fa_FP_BINARY_OPS)) (\<lambda>op.
     bindM (draw fp_random_writable) (\<lambda>rd.
     bindM live_fp (\<lambda>rs1.
     bindM live_fp (\<lambda>rs2.
     bindM (mark_fp rd) (\<lambda>_.
       liftM (call_fp3 op (OFReg rd) (OFReg rs1) (OFReg rs2) rm))))))"

definition fa_emit_fp_ternary :: "rounding_mode \<Rightarrow> (gen_state, asm_instr) sem" where
  "fa_emit_fp_ternary rm =
     bindM (draw (choice fa_FP_TERNARY_OPS)) (\<lambda>op.
     bindM (draw fp_random_writable) (\<lambda>rd.
     bindM live_fp (\<lambda>rs1.
     bindM live_fp (\<lambda>rs2.
     bindM live_fp (\<lambda>rs3.
     bindM (mark_fp rd) (\<lambda>_.
       liftM (call_fp4 op (OFReg rd) (OFReg rs1) (OFReg rs2) (OFReg rs3) rm)))))))"

definition fa_emit_alu :: "(gen_state, asm_instr) sem" where
  "fa_emit_alu =
     bindM (draw (choice (fa_ALU_R @ [Addi]))) (\<lambda>op.
     bindM fa_random_writable (\<lambda>rd.
     bindM live_gp (\<lambda>rs1.
       if op = Addi then
         bindM (draw (randint (- 2048) 2047)) (\<lambda>imm.
         bindM (mark_gp rd) (\<lambda>_. emit3 Addi rd rs1 (OInt imm)))
       else
         bindM live_gp (\<lambda>rs2. bindM (mark_gp rd) (\<lambda>_. emit3 op rd rs1 (OReg rs2))))))"

text \<open>One pass; the local variable is \<open>rm_idx\<close>.\<close>

definition fa_pass :: "nat \<Rightarrow> (gen_state, asm_instr list \<times> nat) sem" where
  "fa_pass rm_idx =
     (let rm = fa_RM_CYCLE ! (rm_idx mod length fa_RM_CYCLE) in
      bindM (draw (choices1 [''fp_binary'', ''fp_ternary'', ''alu''] [40, 20, 40])) (\<lambda>kind.
        if kind = ''fp_binary'' then bindM (fa_emit_fp_binary rm) (\<lambda>i. retM ([i], rm_idx + 1))
        else if kind = ''fp_ternary'' then bindM (fa_emit_fp_ternary rm) (\<lambda>i. retM ([i], rm_idx + 1))
        else bindM fa_emit_alu (\<lambda>i. retM ([i], rm_idx))))"

definition fa_generate :: "int \<Rightarrow> (gen_state, asm_instr list) sem" where
  "fa_generate len = bindM (while_short len (\<lambda>rm_idx out. fa_pass rm_idx) 0 []) (\<lambda>(out, _). retM out)"

section \<open>Every emitted instruction is safe\<close>

primrec fa_kind :: "instr \<Rightarrow> bool" where
  "fa_kind (RI e rd rs1 rs2) = (e \<in> set fa_ALU_R)"
| "fa_kind (II e rd rs1 imm) = (e = Addi)"
| "fa_kind (LUI rd imm) = False"
| "fa_kind (LDI e rd b off) = False"
| "fa_kind (STI e rs2 b off) = False"
| "fa_kind (BRI e rs1 rs2 l) = False"
| "fa_kind (FPI m rs rm) = (m \<in> fp3_mnem ` set fa_FP_BINARY_OPS \<union> fp4_mnem ` set fa_FP_TERNARY_OPS)"
| "fa_kind (SYS m) = False"
| "fa_kind (LIT line) = False"

lemma fa_writable: "r \<in> set fa_WRITABLE \<longleftrightarrow> r \<notin> {X0, X1, X2}"
  by (simp add: fa_WRITABLE_def fa_RESERVED_def)

lemma fa_writable_nonempty: "fa_WRITABLE \<noteq> []"
  using fa_writable [of X5] by auto

lemma wp_fa_random_writable [wp_intros]:
  "(\<And>r ws. r \<notin> {X0, X1, X2} \<Longrightarrow> Q r (s\<lparr>words := ws\<rparr>)) \<Longrightarrow> wp fa_random_writable Q s"
  unfolding fa_random_writable_def by (intro wp_intros fa_writable_nonempty) (simp add: fa_writable)

definition fa_fp :: "rounding_mode \<Rightarrow> instr \<Rightarrow> bool" where
  "fa_fp rm i \<longleftrightarrow> fa_kind i \<and> is_fp (text_of i) \<and> text_rm (text_of i) = rm_asm rm"

lemma fp3_is_fp: "is_fp (text_of (FPI (fp3_mnem op) rs rm))"
  by (cases op) (simp_all add: is_fp_def mk_instr_def)

lemma fp4_is_fp: "is_fp (text_of (FPI (fp4_mnem op) rs rm))"
  by (cases op) (simp_all add: is_fp_def mk_instr_def)

lemma fa_fp_text:
  "op \<in> set fa_FP_BINARY_OPS \<Longrightarrow> fa_fp rm (FPI (fp3_mnem op) [a, b, c] rm)"
  "op' \<in> set fa_FP_TERNARY_OPS \<Longrightarrow> fa_fp rm (FPI (fp4_mnem op') [a, b, c, d] rm)"
  unfolding fa_fp_def by (simp_all add: text_rm_FPI fp3_is_fp fp4_is_fp del: text_of.simps)

lemma fa_emit_fp_binary_ok:
  "ready Map.empty s \<Longrightarrow> wp (fa_emit_fp_binary rm) (step_ok Map.empty {X0, X1, X2} (fa_fp rm) s) s"
  unfolding fa_emit_fp_binary_def
  by (intro wp_intros step_okI)
    (simp_all add: ready_def emitted_simps fa_fp_text, auto simp: fa_FP_BINARY_OPS_def)

lemma fa_emit_fp_ternary_ok:
  "ready Map.empty s \<Longrightarrow> wp (fa_emit_fp_ternary rm) (step_ok Map.empty {X0, X1, X2} (fa_fp rm) s) s"
  unfolding fa_emit_fp_ternary_def
  by (intro wp_intros step_okI)
    (simp_all add: ready_def emitted_simps fa_fp_text, auto simp: fa_FP_TERNARY_OPS_def)

lemma fa_emit_alu_ok:
  "ready Map.empty s \<Longrightarrow>
     wp fa_emit_alu (step_ok Map.empty {X0, X1, X2} (\<lambda>i. fa_kind i \<and> \<not> is_fp (text_of i)) s) s"
  unfolding fa_emit_alu_def
  by (intro wp_intros step_okI) (auto simp: ready_def emitted_simps fa_ALU_R_def is_fp_def mk_instr_def)

text \<open>The rotation: the modes of the floating point instructions so far.\<close>

definition fa_rotates :: "nat \<Rightarrow> asm_instr list \<Rightarrow> bool" where
  "fa_rotates rm_idx out \<longleftrightarrow>
     map text_rm (filter is_fp out) = map (\<lambda>k. rm_asm (fa_RM_CYCLE ! (k mod 6))) [0..<rm_idx]"

lemma fa_pass_ok:
  assumes p: "progress st Map.empty fa_kind out s" and J: "fa_rotates v out"
  shows "wp (fa_pass v) (\<lambda>(is, v') s'. progress st Map.empty fa_kind (out @ is) s'
    \<and> fa_rotates v' (out @ is) \<and> is \<noteq> [] \<and> length is \<le> Suc 0) s"
proof -
  have step: "progress st Map.empty fa_kind (out @ [text_of i]) s'"
    if "emitted Map.empty {X0, X1, X2} i s s'" "fa_kind i" for i s'
    using p that by (rule progress_step) auto
  have len: "length fa_RM_CYCLE = 6" by (simp add: fa_RM_CYCLE_def)
  show ?thesis
    unfolding fa_pass_def Let_def
    by (intro wp_ifI wp_bindI wp_drawI wp_choices1 wp_retI wp_step [OF fa_emit_alu_ok]
        wp_step [OF fa_emit_fp_binary_ok] wp_step [OF fa_emit_fp_ternary_ok])
      (use J progress_ready [OF p] in \<open>auto simp: fa_rotates_def fa_fp_def step len\<close>)
qed

lemma fa_generate_ok:
  assumes "gp_ok (gps s)" and "fp_ok (fps s)"
  shows "wp (fa_generate len) (\<lambda>out _. safe_text (gp_live (gps s)) fa_kind out
    \<and> (\<exists>n. fa_rotates n out) \<and> int (length out) = max len 0) s"
  unfolding fa_generate_def
proof (rule wp_bindI, rule while_progress)
  fix v out s'
  assume "progress (static_init (gp_live (gps s))) Map.empty fa_kind out s'" and "fa_rotates v out"
  then show "wp (fa_pass v) (\<lambda>(is, v') s''.
      progress (static_init (gp_live (gps s))) Map.empty fa_kind (out @ is) s''
      \<and> fa_rotates v' (out @ is) \<and> is \<noteq> [] \<and> length is \<le> Suc 0) s'" by (rule fa_pass_ok)
next
  show "progress (static_init (gp_live (gps s))) Map.empty fa_kind [] s"
    using assms by (simp add: progress_def tracks_def ready_def static_init_def)
qed (auto simp: wp_simps fa_rotates_def elim: progress_safe)

interpretation fa: scenario fa_generate "{}" fa_kind
  by unfold_locales (auto intro: wp_mono [OF fa_generate_ok])

section \<open>Properties\<close>

text \<open>
  C13. For every seed and length, the scenario \<open>fp_arith\<close> returns a safe program of exactly the
  requested length, and its floating point instructions go through the six rounding modes in turn.
\<close>

theorem fa_generate_rotates:
  "wp (fa_generate len) (\<lambda>out _. safe_text {X0, X2} fa_kind out \<and> int (length out) = max len 0
     \<and> map text_rm (filter is_fp out)
         = map (\<lambda>k. rm_asm (fa_RM_CYCLE ! (k mod 6))) [0..<length (filter is_fp out)]) (gen_init ws)"
proof -
  have "map text_rm (filter is_fp out) = map (\<lambda>k. rm_asm (fa_RM_CYCLE ! (k mod 6))) [0..<length (filter is_fp out)]"
    if "fa_rotates n out" for n out
  proof -
    from that have "length (filter is_fp out) = n"
      unfolding fa_rotates_def by (metis length_map length_upt diff_zero)
    with that show ?thesis by (simp add: fa_rotates_def)
  qed
  then show ?thesis by (intro wp_mono [OF fa_generate_ok]) auto
qed

end
