(* ===== verification/Fdiv_Fsqrt.thy ===== *)
theory Fdiv_Fsqrt
  imports Crv_Scenario
begin

text \<open>
  The scenario tools/crv/scenarios/fdiv_fsqrt.py, with the prefix \<open>fd_\<close>: iterative divisions and square
  roots next to pipelined floating point instructions. The property: the program is safe, and the
  iterative instructions round to nearest even.
\<close>

section \<open>Definitions\<close>

definition fd_PIPELINE_OPS :: "fp_binary list" where
  "fd_PIPELINE_OPS = [Fadd_s, Fmul_s]"

definition fd_RESERVED :: "reg list" where
  "fd_RESERVED = [X0, X1, X2]"

definition fd_WRITABLE :: "reg list" where
  "fd_WRITABLE = filter (\<lambda>r. r \<notin> set fd_RESERVED) all_regs"

definition fd_random_writable :: "(gen_state, reg) sem" where
  "fd_random_writable = draw (choice fd_WRITABLE)"

definition fd_emit_iterative :: "(gen_state, asm_instr) sem" where
  "fd_emit_iterative =
     bindM (draw (randint 0 3)) (\<lambda>choice.
     let rm = RNE in
     bindM (draw fp_random_writable) (\<lambda>rd.
     bindM live_fp (\<lambda>rs1.
     bindM (mark_fp rd) (\<lambda>_.
       if choice = 0 then bindM live_fp (\<lambda>rs2. liftM (fdiv_s (OFReg rd) (OFReg rs1) (OFReg rs2) rm))
       else if choice = 1 then bindM live_fp (\<lambda>rs2. liftM (fdiv_d (OFReg rd) (OFReg rs1) (OFReg rs2) rm))
       else if choice = 2 then liftM (fsqrt_s (OFReg rd) (OFReg rs1) rm)
       else liftM (fsqrt_d (OFReg rd) (OFReg rs1) rm)))))"

definition fd_emit_pipelined :: "(gen_state, asm_instr) sem" where
  "fd_emit_pipelined =
     bindM (draw (choice fd_PIPELINE_OPS)) (\<lambda>op.
     bindM (draw fp_random_writable) (\<lambda>rd.
     bindM live_fp (\<lambda>rs1.
     bindM live_fp (\<lambda>rs2.
     bindM (mark_fp rd) (\<lambda>_.
       liftM (call_fp3 op (OFReg rd) (OFReg rs1) (OFReg rs2) DYN))))))"

definition fd_emit_alu :: "(gen_state, asm_instr) sem" where
  "fd_emit_alu =
     bindM fd_random_writable (\<lambda>rd.
     bindM live_gp (\<lambda>rs1.
     bindM (draw random_unit) (\<lambda>u.
       if u < fl (5 / 10) then
         bindM (draw (randint (- 2048) 2047)) (\<lambda>imm.
         bindM (mark_gp rd) (\<lambda>_. emit3 Addi rd rs1 (OInt imm)))
       else
         bindM live_gp (\<lambda>rs2. bindM (mark_gp rd) (\<lambda>_. emit3 Add rd rs1 (OReg rs2))))))"

definition fd_pass :: "(gen_state, asm_instr list \<times> unit) sem" where
  "fd_pass =
     bindM (draw (choices1 [''iterative'', ''pipelined'', ''alu''] [50, 30, 20])) (\<lambda>kind.
       if kind = ''iterative'' then bindM fd_emit_iterative (\<lambda>i. retM ([i], ()))
       else if kind = ''pipelined'' then bindM fd_emit_pipelined (\<lambda>i. retM ([i], ()))
       else bindM fd_emit_alu (\<lambda>i. retM ([i], ())))"

definition fd_generate :: "int \<Rightarrow> (gen_state, asm_instr list) sem" where
  "fd_generate len = bindM (while_short len (\<lambda>_ out. fd_pass) () []) (\<lambda>(out, _). retM out)"

section \<open>Every emitted instruction is safe\<close>

primrec fd_kind :: "instr \<Rightarrow> bool" where
  "fd_kind (RI e rd rs1 rs2) = (e = Add)"
| "fd_kind (II e rd rs1 imm) = (e = Addi)"
| "fd_kind (LUI rd imm) = False"
| "fd_kind (LDI e rd b off) = False"
| "fd_kind (STI e rs2 b off) = False"
| "fd_kind (BRI e rs1 rs2 l) = False"
| "fd_kind (FPI m rs rm) =
     (m \<in> set [''fdiv.s'', ''fdiv.d'', ''fsqrt.s'', ''fsqrt.d''] \<and> rm = RNE
      \<or> m \<in> fp3_mnem ` set fd_PIPELINE_OPS \<and> rm = DYN)"
| "fd_kind (SYS m) = False"
| "fd_kind (LIT line) = False"

lemma fdiv_text:
  "fdiv_s (OFReg a) (OFReg b) (OFReg c) rm = Inr (text_of (FPI ''fdiv.s'' [a, b, c] rm))"
  "fdiv_d (OFReg a) (OFReg b) (OFReg c) rm = Inr (text_of (FPI ''fdiv.d'' [a, b, c] rm))"
  by (simp_all add: fdiv_s_def fdiv_d_def fp_op3_text)

lemmas [wp_intros] = wp_lift_InrI [OF fdiv_text(1)] wp_lift_InrI [OF fdiv_text(2)]

lemma fd_writable: "r \<in> set fd_WRITABLE \<longleftrightarrow> r \<notin> {X0, X1, X2}"
  by (simp add: fd_WRITABLE_def fd_RESERVED_def)

lemma fd_writable_nonempty: "fd_WRITABLE \<noteq> []"
  using fd_writable [of X5] by auto

lemma wp_fd_random_writable [wp_intros]:
  "(\<And>r ws. r \<notin> {X0, X1, X2} \<Longrightarrow> Q r (s\<lparr>words := ws\<rparr>)) \<Longrightarrow> wp fd_random_writable Q s"
  unfolding fd_random_writable_def by (intro wp_intros fd_writable_nonempty) (simp add: fd_writable)

lemma fd_emit_iterative_ok:
  "ready Map.empty s \<Longrightarrow> wp fd_emit_iterative (step_ok Map.empty {X0, X1, X2} fd_kind s) s"
  unfolding fd_emit_iterative_def Let_def
  by (intro wp_intros step_okI) (auto simp: ready_def emitted_simps)

lemma fd_emit_pipelined_ok:
  "ready Map.empty s \<Longrightarrow> wp fd_emit_pipelined (step_ok Map.empty {X0, X1, X2} fd_kind s) s"
  unfolding fd_emit_pipelined_def
  by (intro wp_intros step_okI) (auto simp: ready_def emitted_simps fd_PIPELINE_OPS_def)

lemma fd_emit_alu_ok:
  "ready Map.empty s \<Longrightarrow> wp fd_emit_alu (step_ok Map.empty {X0, X1, X2} fd_kind s) s"
  unfolding fd_emit_alu_def
  by (intro wp_intros step_okI) (auto simp: ready_def emitted_simps)

lemma fd_pass_ok:
  assumes p: "progress st Map.empty fd_kind out s"
  shows "wp fd_pass (\<lambda>(is, v') s'. progress st Map.empty fd_kind (out @ is) s' \<and> True \<and> is \<noteq> [] \<and> length is \<le> Suc 0) s"
proof -
  have step: "progress st Map.empty fd_kind (out @ [text_of i]) s'"
    if "emitted Map.empty {X0, X1, X2} i s s'" "fd_kind i" for i s'
    using p that by (rule progress_step) auto
  show ?thesis
    unfolding fd_pass_def
    by (intro wp_ifI wp_bindI wp_drawI wp_choices1 wp_retI wp_step [OF fd_emit_alu_ok]
        wp_step [OF fd_emit_iterative_ok] wp_step [OF fd_emit_pipelined_ok])
      (use progress_ready [OF p] in \<open>auto simp: step\<close>)
qed

lemma fd_generate_ok:
  assumes "gp_ok (gps s)" and "fp_ok (fps s)"
  shows "wp (fd_generate len) (\<lambda>out _. safe_text (gp_live (gps s)) fd_kind out \<and> int (length out) = max len 0) s"
  unfolding fd_generate_def
proof (rule wp_bindI, rule while_progress [where J = "\<lambda>_ _. True"])
  fix v out s'
  assume "progress (static_init (gp_live (gps s))) Map.empty fd_kind out s'"
  then show "wp fd_pass (\<lambda>(is, v') s''.
      progress (static_init (gp_live (gps s))) Map.empty fd_kind (out @ is) s'' \<and> True \<and> is \<noteq> [] \<and> length is \<le> Suc 0) s'"
    by (rule fd_pass_ok)
next
  show "progress (static_init (gp_live (gps s))) Map.empty fd_kind [] s"
    using assms by (simp add: progress_def tracks_def ready_def static_init_def)
qed (auto simp: wp_simps elim: progress_safe)

interpretation fd: scenario fd_generate "{}" fd_kind
  by unfold_locales (auto intro: wp_mono [OF fd_generate_ok])

definition is_iterative :: "asm_instr \<Rightarrow> bool" where
  "is_iterative i \<longleftrightarrow> mnemonic i \<in> set [''fdiv.s'', ''fdiv.d'', ''fsqrt.s'', ''fsqrt.d'']"

lemma fd_kind_iterative: "fd_kind i \<Longrightarrow> encodable i \<Longrightarrow> is_iterative (text_of i) \<Longrightarrow> text_rm (text_of i) = ''rne''"
proof (cases i)
  case (FPI m rs rm)
  assume "fd_kind i" "encodable i" "is_iterative (text_of i)"
  with FPI have m: "m \<in> set [''fdiv.s'', ''fdiv.d'', ''fsqrt.s'', ''fsqrt.d'']" and "rs \<noteq> []"
    by (auto simp: is_iterative_def mk_instr_def fp_mnemonics_def)
  moreover have "m \<notin> fp3_mnem ` set fd_PIPELINE_OPS" using m by (auto simp: fd_PIPELINE_OPS_def)
  then have "rm = RNE" using \<open>fd_kind i\<close> FPI by simp
  ultimately show ?thesis using text_rm_FPI [of rs m RNE] FPI by simp
qed (auto simp: is_iterative_def mk_instr_def)

lemma fd_safe_iterative:
  assumes "safe_text live fd_kind out"
  shows "list_all (\<lambda>i. text_rm i = ''rne'') (filter is_iterative out)"
  using assms fd_kind_iterative safe_prog_encodable by (fastforce simp: safe_text_def list_all_iff)

section \<open>Properties\<close>

text \<open>
  C14. For every seed and length, the scenario \<open>fdiv_fsqrt\<close> returns a safe program of exactly the
  requested length, and each of its divisions and square roots carries the rounding mode \<open>rne\<close>.
\<close>

theorem fd_generate_safe:
  "wp (fd_generate len) (\<lambda>out _. safe_text {X0, X2} fd_kind out \<and> int (length out) = max len 0
     \<and> list_all (\<lambda>i. text_rm i = ''rne'') (filter is_iterative out)) (gen_init ws)"
  by (rule wp_mono [OF fd_generate_ok]) (auto intro: fd_safe_iterative)

end
