(* ===== verification/Branch_Pred.thy ===== *)
theory Branch_Pred
  imports Crv_Scenario
begin

text \<open>
  The scenario tools/crv/scenarios/branch_pred.py, with the prefix \<open>bp_\<close>. A raw list of instructions is
  built with a schedule of label positions, then the labels are woven in. The properties: the woven
  program is safe, every label is defined once, and every branch jumps forward, so that the program
  cannot loop.
\<close>

section \<open>Definitions\<close>

definition bp_ALU_R :: "encoder list" where
  "bp_ALU_R = [Add, Sub, Sll, Srl, Sra]"

definition bp_ALU_I :: "encoder list" where
  "bp_ALU_I = [Addi, Slli, Srli, Srai]"

definition bp_BRANCH_OPS :: "encoder list" where
  "bp_BRANCH_OPS = [Beq, Bne, Blt, Bge, Bltu, Bgeu]"

definition bp_RESERVED :: "reg list" where
  "bp_RESERVED = [X0, X1, X2]"

definition bp_WRITABLE :: "reg list" where
  "bp_WRITABLE = filter (\<lambda>r. r \<notin> set bp_RESERVED) all_regs"

definition bp_random_writable :: "(gen_state, reg) sem" where
  "bp_random_writable = draw (choice bp_WRITABLE)"

definition bp_emit_alu_r :: "(gen_state, asm_instr) sem" where
  "bp_emit_alu_r =
     bindM (draw (choice bp_ALU_R)) (\<lambda>op.
     bindM bp_random_writable (\<lambda>rd.
     bindM live_gp (\<lambda>rs1.
     bindM live_gp (\<lambda>rs2.
     bindM (mark_gp rd) (\<lambda>_. emit3 op rd rs1 (OReg rs2))))))"

definition bp_emit_alu_i :: "(gen_state, asm_instr) sem" where
  "bp_emit_alu_i =
     bindM (draw (choice bp_ALU_I)) (\<lambda>op.
     bindM bp_random_writable (\<lambda>rd.
     bindM live_gp (\<lambda>rs1.
     bindM (if op \<in> set [Slli, Srli, Srai] then draw (randint 0 63) else draw (randint (- 2048) 2047)) (\<lambda>imm.
     bindM (mark_gp rd) (\<lambda>_. emit3 op rd rs1 (OInt imm))))))"

definition bp_label :: "nat \<Rightarrow> string" where
  "bp_label label_idx = ''.Lbp_'' @ nat_digits 10 label_idx"

text \<open>One pass of step 1; the local variables are \<open>branch_schedule\<close> and \<open>label_idx\<close>.\<close>

definition bp_pass ::
  "(nat \<times> string) list \<times> nat \<Rightarrow> asm_instr list
     \<Rightarrow> (gen_state, asm_instr list \<times> (nat \<times> string) list \<times> nat) sem" where
  "bp_pass = (\<lambda>(branch_schedule, label_idx) raw.
     bindM (draw random_unit) (\<lambda>roll.
       if roll < fl (30 / 100) then
         bindM (draw (choice bp_BRANCH_OPS)) (\<lambda>op.
         let lname = bp_label label_idx in
         bindM (draw (randint 1 5)) (\<lambda>gap.
         let target_pos = length raw + nat gap in
         bindM (draw random_unit) (\<lambda>u.
         bindM (if u < fl (5 / 10) then retM (X0, X0)
                else bindM live_gp (\<lambda>rs1. bindM live_gp (\<lambda>rs2. retM (rs1, rs2)))) (\<lambda>(rs1, rs2).
         bindM (emit3 op rs1 rs2 (OStr lname)) (\<lambda>i.
           retM ([i], branch_schedule @ [(target_pos, lname)], label_idx + 1))))))
       else if roll < fl (70 / 100) then
         bindM bp_emit_alu_r (\<lambda>i. retM ([i], branch_schedule, label_idx))
       else
         bindM bp_emit_alu_i (\<lambda>i. retM ([i], branch_schedule, label_idx))))"

text \<open>Step 2: the dictionary \<open>pos_to_labels\<close>, its lookup with default, and the walk that emits labels.\<close>

definition bp_pos_to_labels :: "nat \<Rightarrow> (nat \<times> string) list \<Rightarrow> nat \<rightharpoonup> string list" where
  "bp_pos_to_labels n branch_schedule =
     foldl (\<lambda>m (pos, lname). let effective = min pos n in
         m(effective \<mapsto> (case m effective of None \<Rightarrow> [] | Some ls \<Rightarrow> ls) @ [lname]))
       Map.empty branch_schedule"

definition bp_labels_at :: "(nat \<rightharpoonup> string list) \<Rightarrow> nat \<Rightarrow> string list" where
  "bp_labels_at m i = (case m i of None \<Rightarrow> [] | Some ls \<Rightarrow> ls)"

definition bp_label_line :: "string \<Rightarrow> asm_instr" where
  "bp_label_line lname = mk_instr [] [lname @ '':'']"

primrec bp_weave :: "(nat \<rightharpoonup> string list) \<Rightarrow> nat \<Rightarrow> asm_instr list \<Rightarrow> asm_instr list" where
  "bp_weave m i [] = map bp_label_line (bp_labels_at m i)"
| "bp_weave m i (instr # raw) = map bp_label_line (bp_labels_at m i) @ instr # bp_weave m (Suc i) raw"

definition bp_generate :: "int \<Rightarrow> (gen_state, asm_instr list) sem" where
  "bp_generate len =
     bindM (liftM (addi_i (OReg X5) (OReg X0) 42)) (\<lambda>first.
     bindM (mark_gp X5) (\<lambda>_.
     bindM (while_short len bp_pass ([], 0) [first]) (\<lambda>(raw, branch_schedule, label_idx).
       retM (bp_weave (bp_pos_to_labels (length raw) branch_schedule) 0 raw))))"

section \<open>Weaving\<close>

lemma bp_labels_at_schedule:
  "bp_labels_at (bp_pos_to_labels n sched) i = map snd (filter (\<lambda>(pos, l). min pos n = i) sched)"
proof (induction sched arbitrary: i rule: rev_induct)
  case Nil
  then show ?case by (simp add: bp_pos_to_labels_def bp_labels_at_def)
next
  case (snoc x sched)
  obtain pos l where x: "x = (pos, l)" by fastforce
  have "bp_pos_to_labels n (sched @ [x])
      = (bp_pos_to_labels n sched)(min pos n \<mapsto> bp_labels_at (bp_pos_to_labels n sched) (min pos n) @ [l])"
    by (simp add: bp_pos_to_labels_def x bp_labels_at_def Let_def)
  with snoc [of i] snoc [of "min pos n"] show ?case by (auto simp: bp_labels_at_def x)
qed

text \<open>The label definitions of an output, and the jump targets.\<close>

definition is_label_line :: "asm_instr \<Rightarrow> bool" where
  "is_label_line i \<longleftrightarrow> mnemonic i = []"

definition is_branch :: "asm_instr \<Rightarrow> bool" where
  "is_branch i \<longleftrightarrow> mnemonic i \<in> set [''beq'', ''bne'', ''blt'', ''bge'', ''bltu'', ''bgeu'']"

definition branch_target :: "asm_instr \<Rightarrow> string" where
  "branch_target i = operands i ! 2"

text \<open>Every branch jumps to a label that is defined later in the list.\<close>

fun forward_only :: "asm_instr list \<Rightarrow> bool" where
  "forward_only [] = True"
| "forward_only (i # is) = ((if is_branch i then bp_label_line (branch_target i) \<in> set is else True) \<and> forward_only is)"

lemma label_line_simps [simp]:
  "is_label_line (bp_label_line l)" "\<not> is_branch (bp_label_line l)"
  "filter is_label_line (map bp_label_line ls) = map bp_label_line ls"
  by (simp_all add: is_label_line_def is_branch_def bp_label_line_def mk_instr_def filter_map comp_def)

lemma weave_labels:
  "list_all (\<lambda>i. \<not> is_label_line i) raw \<Longrightarrow>
     filter is_label_line (bp_weave m i raw)
       = map bp_label_line (concat (map (bp_labels_at m) [i..<Suc (i + length raw)]))"
proof (induction raw arbitrary: i)
  case Nil
  then show ?case by simp
next
  case (Cons x raw)
  then have IH: "filter is_label_line (bp_weave m (Suc i) raw)
      = map bp_label_line (concat (map (bp_labels_at m) [Suc i..<Suc (Suc i + length raw)]))" by simp
  have upt: "[i..<Suc (i + length (x # raw))] = i # [Suc i..<Suc (Suc i + length raw)]"
    by (subst upt_conv_Cons) simp_all
  show ?case
    unfolding upt using Cons.prems
    by (simp add: IH del: upt_Suc)
qed

lemma weave_plain: "filter (\<lambda>i. \<not> is_label_line i) (bp_weave m i raw) = filter (\<lambda>i. \<not> is_label_line i) raw"
  by (induction raw arbitrary: i) (simp_all add: filter_map comp_def is_label_line_def bp_label_line_def mk_instr_def)

lemma weave_label_in:
  "l \<in> set (bp_labels_at m q) \<Longrightarrow> i \<le> q \<Longrightarrow> q \<le> i + length raw \<Longrightarrow> bp_label_line l \<in> set (bp_weave m i raw)"
proof (induction raw arbitrary: i)
  case (Cons x raw)
  then show ?case by (cases "i = q") auto
qed auto

lemma forward_only_skip: "list_all is_label_line ls \<Longrightarrow> forward_only (ls @ is) = forward_only is"
  by (induction ls) (auto simp: is_label_line_def is_branch_def)

lemma weave_forward:
  assumes "\<And>j. j < length raw \<Longrightarrow> is_branch (raw ! j) \<Longrightarrow>
    \<exists>q. i + j < q \<and> q \<le> i + length raw \<and> branch_target (raw ! j) \<in> set (bp_labels_at m q)"
  shows "forward_only (bp_weave m i raw)"
  using assms
proof (induction raw arbitrary: i)
  case Nil
  have "list_all is_label_line (map bp_label_line (bp_labels_at m i))"
    by (simp add: list_all_iff is_label_line_def bp_label_line_def mk_instr_def)
  from forward_only_skip [OF this, of "[]"] show ?case by simp
next
  case (Cons x raw)
  have "forward_only (bp_weave m (Suc i) raw)"
  proof (rule Cons.IH)
    fix j
    assume "j < length raw" and "is_branch (raw ! j)"
    with Cons.prems [of "Suc j"] show "\<exists>q. Suc i + j < q \<and> q \<le> Suc i + length raw \<and> branch_target (raw ! j) \<in> set (bp_labels_at m q)"
      by auto
  qed
  moreover have "bp_label_line (branch_target x) \<in> set (bp_weave m (Suc i) raw)" if "is_branch x"
  proof -
    from that Cons.prems [of 0] obtain q where "i < q" "q \<le> Suc (i + length raw)" "branch_target x \<in> set (bp_labels_at m q)"
      by auto
    then show ?thesis by (intro weave_label_in [of _ m q]) simp_all
  qed
  moreover have "list_all is_label_line (map bp_label_line (bp_labels_at m i))"
    by (simp add: list_all_iff is_label_line_def bp_label_line_def mk_instr_def)
  ultimately show ?case by (simp add: forward_only_skip)
qed

lemma distinct_concat_upt:
  assumes "\<And>i. distinct (F i)" and "\<And>i j. i \<noteq> j \<Longrightarrow> set (F i) \<inter> set (F j) = {}"
  shows "distinct (concat (map F [a..<b]))"
proof (induction b)
  case (Suc b)
  have "set (F b) \<inter> (\<Union>i \<in> {a..<b}. set (F i)) = {}"
  proof -
    have "set (F b) \<inter> set (F i) = {}" if "i < b" for i using that by (intro assms(2)) simp
    then show ?thesis by (auto simp: disjoint_iff)
  qed
  with Suc assms(1) [of b] show ?case by (auto simp: Int_commute)
qed simp

lemma weave_labels_distinct:
  assumes "list_all (\<lambda>i. \<not> is_label_line i) raw" and "distinct (map snd sched)"
  shows "distinct (filter is_label_line (bp_weave (bp_pos_to_labels n sched) i raw))"
proof -
  let ?F = "bp_labels_at (bp_pos_to_labels n sched)"
  have sub: "distinct (map snd (filter P sched))" for P
    using assms(2) by (rule distinct_map_filter)
  have disj: "set (?F a) \<inter> set (?F b) = {}" if "a \<noteq> b" for a b
  proof -
    have at: "\<exists>x \<in> set sched. snd x = l \<and> min (fst x) n = p" if "l \<in> set (?F p)" for l p
      using that unfolding bp_labels_at_schedule by force
    have "x = y" if "x \<in> set sched" "y \<in> set sched" "snd x = snd y" for x y
      using assms(2) that by (auto simp: distinct_map inj_on_def)
    with \<open>a \<noteq> b\<close> at [of _ a] at [of _ b] show ?thesis by (metis disjoint_iff)
  qed
  have "distinct (concat (map ?F [i..<Suc (i + length raw)]))"
  proof (rule distinct_concat_upt)
    show "distinct (?F a)" for a unfolding bp_labels_at_schedule by (rule sub)
    show "set (?F a) \<inter> set (?F b) = {}" if "a \<noteq> b" for a b using that by (rule disj)
  qed
  moreover have "inj bp_label_line" by (auto simp: inj_def bp_label_line_def mk_instr_def)
  ultimately show ?thesis unfolding weave_labels [OF assms(1)] by (metis distinct_map inj_on_subset subset_UNIV)
qed

section \<open>The raw list\<close>

text \<open>The positions and targets of the branches of a raw list.\<close>

definition branch_sites :: "asm_instr list \<Rightarrow> (nat \<times> string) list" where
  "branch_sites raw = map (\<lambda>p. (p, branch_target (raw ! p))) (filter (\<lambda>p. is_branch (raw ! p)) [0..<length raw])"

lemma branch_sites_append:
  "branch_sites (raw @ [i]) = branch_sites raw @ (if is_branch i then [(length raw, branch_target i)] else [])"
proof -
  have "filter (\<lambda>p. is_branch ((raw @ [i]) ! p)) [0..<length raw] = filter (\<lambda>p. is_branch (raw ! p)) [0..<length raw]"
    by (rule filter_cong) (simp_all add: nth_append)
  then show ?thesis by (auto simp: branch_sites_def nth_append)
qed

lemma branch_sites_mem: "p < length raw \<Longrightarrow> is_branch (raw ! p) \<Longrightarrow> (p, branch_target (raw ! p)) \<in> set (branch_sites raw)"
  by (simp add: branch_sites_def)

text \<open>
  The invariant of step 1: one schedule entry per branch, with its label and a later position; the
  labels are numbered in order; no label line yet.
\<close>

definition bp_scheduled :: "(nat \<times> string) list \<times> nat \<Rightarrow> asm_instr list \<Rightarrow> bool" where
  "bp_scheduled = (\<lambda>(sched, idx) raw.
     list_all2 (\<lambda>(p, l) (pos, l'). l = l' \<and> p < pos) (branch_sites raw) sched
     \<and> map snd sched = map bp_label [0..<idx]
     \<and> list_all (\<lambda>i. \<not> is_label_line i) raw)"

lemma bp_label_inject [simp]: "bp_label i = bp_label j \<longleftrightarrow> i = j"
  by (auto simp: bp_label_def dest: arg_cong [of _ _ dec_value])

lemma bp_label_symbol: "symbol (bp_label i)"
  using nat_digits_dec [of i] digit_is_hex hex_is_word
  by (auto simp: bp_label_def symbol_def list_all_iff is_word_char_def)

lemma bp_scheduled_symbols:
  assumes "bp_scheduled (sched, idx) raw"
  shows "list_all symbol (bp_labels_at (bp_pos_to_labels n sched) i)"
proof -
  have "set (bp_labels_at (bp_pos_to_labels n sched) i) \<subseteq> set (map snd sched)"
    unfolding bp_labels_at_schedule by auto
  also have "\<dots> = bp_label ` {0..<idx}" using assms by (simp add: bp_scheduled_def)
  finally show ?thesis using bp_label_symbol by (auto simp: list_all_iff)
qed

lemma bp_scheduled_distinct: "bp_scheduled (sched, idx) raw \<Longrightarrow> distinct (map snd sched)"
  by (auto simp: bp_scheduled_def distinct_map inj_on_def)

lemma bp_scheduled_forward:
  assumes "bp_scheduled (sched, idx) raw"
  shows "forward_only (bp_weave (bp_pos_to_labels (length raw) sched) 0 raw)"
proof (rule weave_forward)
  fix j
  assume j: "j < length raw" and "is_branch (raw ! j)"
  from branch_sites_mem [OF this] assms obtain pos
    where pos: "(pos, branch_target (raw ! j)) \<in> set sched" "j < pos"
    by (fastforce simp: bp_scheduled_def list_all2_conv_all_nth in_set_conv_nth)
  then have "branch_target (raw ! j) \<in> set (bp_labels_at (bp_pos_to_labels (length raw) sched) (min pos (length raw)))"
    unfolding bp_labels_at_schedule by force
  with j pos(2) show "\<exists>q. 0 + j < q \<and> q \<le> 0 + length raw \<and>
      branch_target (raw ! j) \<in> set (bp_labels_at (bp_pos_to_labels (length raw) sched) q)"
    by (intro exI [of _ "min pos (length raw)"]) simp
qed

section \<open>Every emitted instruction is safe\<close>

primrec bp_kind :: "instr \<Rightarrow> bool" where
  "bp_kind (RI e rd rs1 rs2) = (e \<in> set bp_ALU_R)"
| "bp_kind (II e rd rs1 imm) = (e \<in> set bp_ALU_I)"
| "bp_kind (LUI rd imm) = False"
| "bp_kind (LDI e rd b off) = False"
| "bp_kind (STI e rs2 b off) = False"
| "bp_kind (BRI e rs1 rs2 l) = (e \<in> set bp_BRANCH_OPS)"
| "bp_kind (FPI m rs rm) = False"
| "bp_kind (SYS m) = False"
| "bp_kind (LIT x) = (case x of Label l \<Rightarrow> True | _ \<Rightarrow> False)"

lemma bp_writable: "r \<in> set bp_WRITABLE \<longleftrightarrow> r \<notin> {X0, X1, X2}"
  by (simp add: bp_WRITABLE_def bp_RESERVED_def)

lemma bp_writable_nonempty: "bp_WRITABLE \<noteq> []"
  using bp_writable [of X5] by auto

lemma wp_bp_random_writable [wp_intros]:
  "(\<And>r ws. r \<notin> {X0, X1, X2} \<Longrightarrow> Q r (s\<lparr>words := ws\<rparr>)) \<Longrightarrow> wp bp_random_writable Q s"
  unfolding bp_random_writable_def by (intro wp_intros bp_writable_nonempty) (simp add: bp_writable)

definition bp_plain :: "instr \<Rightarrow> bool" where
  "bp_plain i \<longleftrightarrow> bp_kind i \<and> \<not> is_branch (text_of i) \<and> \<not> is_label_line (text_of i)"

lemmas bp_class_defs = bp_plain_def is_branch_def is_label_line_def mk_instr_def bp_ALU_R_def bp_ALU_I_def

lemma bp_emit_alu_r_ok:
  "ready Map.empty s \<Longrightarrow> wp bp_emit_alu_r (step_ok Map.empty {X0, X1, X2} bp_plain s) s"
  unfolding bp_emit_alu_r_def
  by (intro wp_intros step_okI) (auto simp: ready_def emitted_simps bp_class_defs)

lemma bp_emit_alu_i_ok:
  "ready Map.empty s \<Longrightarrow> wp bp_emit_alu_i (step_ok Map.empty {X0, X1, X2} bp_plain s) s"
  unfolding bp_emit_alu_i_def
  by (intro wp_intros wp_emit_i step_okI) (auto simp: ready_def emitted_simps bp_class_defs)

lemma bp_scheduled_step:
  "bp_scheduled (sched, idx) raw \<Longrightarrow> bp_plain i \<Longrightarrow> bp_scheduled (sched, idx) (raw @ [text_of i])"
  "bp_scheduled (sched, idx) raw \<Longrightarrow> e \<in> set bp_BRANCH_OPS \<Longrightarrow> length raw < pos \<Longrightarrow>
     bp_scheduled (sched @ [(pos, bp_label idx)], Suc idx) (raw @ [text_of (BRI e a b (bp_label idx))])"
  by (auto simp: bp_scheduled_def branch_sites_append bp_plain_def list_all2_appendI is_branch_def
      is_label_line_def branch_target_def mk_instr_def bp_BRANCH_OPS_def numeral_2_eq_2)

lemma bp_pass_ok:
  assumes p: "progress st Map.empty bp_kind out s" and J: "bp_scheduled v out"
  shows "wp (bp_pass v out) (\<lambda>(is, v') s'. progress st Map.empty bp_kind (out @ is) s'
    \<and> bp_scheduled v' (out @ is) \<and> is \<noteq> [] \<and> length is \<le> Suc 0) s"
proof -
  obtain sched idx where v: "v = (sched, idx)" by fastforce
  have step: "progress st Map.empty bp_kind (out @ [text_of i]) s'"
    if "emitted Map.empty {X0, X1, X2} i s s'" "bp_kind i" for i s'
    using p that by (rule progress_step) auto
  have branch: "progress st Map.empty bp_kind (out @ [text_of (BRI e a b l)]) s'"
    if "e \<in> set bp_BRANCH_OPS" "a \<in> gp_live (gps s)" "b \<in> gp_live (gps s)" "gps s' = gps s" "fps s' = fps s" for e a b l s'
    using that progress_ready [OF p] by (intro step) (auto simp: emitted_simps ready_def bp_BRANCH_OPS_def)
  show ?thesis
    unfolding v bp_pass_def prod.case Let_def
    by (intro wp_ifI [where m' = "bindM live_gp f" for f] wp_ifI [where m' = "bindM bp_emit_alu_i f" for f]
        wp_ifI [where m' = "if c then x else y" for c x y] wp_bindI wp_drawI wp_random_unit wp_retI wp_choice wp_randint wp_splitI
        wp_live_gp wp_step [OF bp_emit_alu_r_ok] wp_step [OF bp_emit_alu_i_ok] wp_emit_branch)
      (use J progress_ready [OF p] in
        \<open>auto simp: v step branch bp_scheduled_step bp_plain_def ready_def gp_ok_def bp_BRANCH_OPS_def branch_encoders_def
           simp del: text_of.simps\<close>)
qed

text \<open>Weaving labels into a safe program keeps it safe: a label line neither reads nor writes.\<close>

lemma weave_safe:
  assumes "\<And>i. list_all symbol (bp_labels_at m i)"
    and "safe_prog st prog" and "list_all (\<lambda>i. keeps {X0, X1, X2} i \<and> bp_kind i) prog"
  shows "\<exists>woven. bp_weave m i (map text_of prog) = map text_of woven \<and> safe_prog st woven
    \<and> list_all (\<lambda>i. keeps {X0, X1, X2} i \<and> bp_kind i) woven"
  using assms(2,3)
proof (induction prog arbitrary: st i)
  case Nil
  show ?case
    by (rule exI [of _ "map (\<lambda>l. LIT (Label l)) (bp_labels_at m i)"])
      (use assms(1) [of i] in \<open>auto simp: bp_label_line_def list_all_iff keeps_def\<close>)
next
  case (Cons x prog)
  then obtain woven where w: "bp_weave m (Suc i) (map text_of prog) = map text_of woven"
    "safe_prog (exec_static x st) woven" "list_all (\<lambda>i. keeps {X0, X1, X2} i \<and> bp_kind i) woven"
    by fastforce
  show ?case
    by (rule exI [of _ "map (\<lambda>l. LIT (Label l)) (bp_labels_at m i) @ x # woven"])
      (use w Cons.prems assms(1) [of i] in \<open>auto simp: bp_label_line_def list_all_iff keeps_def\<close>)
qed

lemma progress_weave:
  assumes "\<And>i. list_all symbol (bp_labels_at m i)" and "progress (static_init live) Map.empty bp_kind raw s"
  shows "safe_text live bp_kind (bp_weave m i raw)"
proof -
  from assms(2) obtain prog where prog: "raw = map text_of prog" "safe_prog (static_init live) prog"
    "list_all (\<lambda>i. keeps {X0, X1, X2} i \<and> bp_kind i) prog"
    by (auto simp: progress_def tracks_def)
  from weave_safe [OF assms(1) prog(2,3), of i] show ?thesis unfolding safe_text_def prog(1) by simp
qed

text \<open>What the output of the scenario satisfies.\<close>

definition bp_forward :: "asm_instr list \<Rightarrow> bool" where
  "bp_forward out \<longleftrightarrow> forward_only out \<and> distinct (filter is_label_line out)"

lemma bp_woven:
  assumes "bp_scheduled (sched, idx) raw"
  shows "bp_forward (bp_weave (bp_pos_to_labels (length raw) sched) 0 raw)"
    and "length (filter (\<lambda>i. \<not> is_label_line i) (bp_weave (bp_pos_to_labels (length raw) sched) 0 raw)) = length raw"
proof -
  from assms have plain: "list_all (\<lambda>i. \<not> is_label_line i) raw" by (simp add: bp_scheduled_def)
  show "bp_forward (bp_weave (bp_pos_to_labels (length raw) sched) 0 raw)"
    using bp_scheduled_forward [OF assms] weave_labels_distinct [OF plain bp_scheduled_distinct [OF assms]]
    by (simp add: bp_forward_def)
  have "filter (\<lambda>i. \<not> is_label_line i) raw = raw"
    using plain by (intro filter_True) (simp add: list_all_iff)
  then show "length (filter (\<lambda>i. \<not> is_label_line i) (bp_weave (bp_pos_to_labels (length raw) sched) 0 raw)) = length raw"
    by (simp add: weave_plain)
qed

lemma bp_generate_ok:
  assumes "gp_ok (gps s)" and "fp_ok (fps s)"
  shows "wp (bp_generate len) (\<lambda>out _. safe_text (gp_live (gps s)) bp_kind out \<and> bp_forward out
    \<and> int (length (filter (\<lambda>i. \<not> is_label_line i) out)) = max len 1) s"
proof -
  let ?st = "static_init (gp_live (gps s))"
  let ?first = "text_of (II Addi X5 X0 42)"
  have first: "addi_i (OReg X5) (OReg X0) 42 = Inr ?first" by (simp add: addi_i_def)
  have "progress ?st Map.empty bp_kind [] s"
    using assms by (simp add: progress_def tracks_def ready_def static_init_def)
  then have "progress ?st Map.empty bp_kind ([] @ [?first]) (s\<lparr>gps := gp_write X5 (gps s)\<rparr>)"
    by (rule progress_step [where R = "{X0, X1, X2}"])
      (use assms in \<open>auto simp: emitted_simps gp_ok_def bp_ALU_I_def gp_write_def\<close>)
  then have start: "progress ?st Map.empty bp_kind [?first] (s\<lparr>gps := gp_write X5 (gps s)\<rparr>)" by simp
  show ?thesis
    unfolding bp_generate_def
  proof (intro wp_bindI wp_lift_InrI [OF first] wp_mark_gpI, rule while_progress)
    fix v out s'
    assume "progress ?st Map.empty bp_kind out s'" and "bp_scheduled v out"
    then show "wp (bp_pass v out) (\<lambda>(is, v') s''. progress ?st Map.empty bp_kind (out @ is) s''
        \<and> bp_scheduled v' (out @ is) \<and> is \<noteq> [] \<and> length is \<le> Suc 0) s'" by (rule bp_pass_ok)
  next
    show "progress ?st Map.empty bp_kind [?first] (s\<lparr>gps := gp_write X5 (gps s)\<rparr>)" by (rule start)
    show "bp_scheduled ([], 0) [?first]"
      by (simp add: bp_scheduled_def branch_sites_def is_branch_def is_label_line_def mk_instr_def)
  next
    fix raw v s'
    assume *: "progress ?st Map.empty bp_kind raw s'" "bp_scheduled v raw" "length [?first] \<le> length raw"
      "len \<le> int (length raw)" "length raw = length [?first] \<or> int (length raw) \<le> len + int 0"
    obtain sched idx where v: "v = (sched, idx)" by fastforce
    show "wp (case (raw, v) of (raw, branch_schedule, label_idx) \<Rightarrow>
        retM (bp_weave (bp_pos_to_labels (length raw) branch_schedule) 0 raw))
      (\<lambda>out _. safe_text (gp_live (gps s)) bp_kind out \<and> bp_forward out
        \<and> int (length (filter (\<lambda>i. \<not> is_label_line i) out)) = max len 1) s'"
      using progress_weave [OF bp_scheduled_symbols *(1)] bp_woven [of sched idx raw] * by (auto simp: v wp_simps)
  qed
qed

interpretation bp: scenario bp_generate "{}" bp_kind
proof unfold_locales
  fix s :: gen_state and len
  assume "gp_ok (gps s)" and "fp_ok (fps s)"
  from bp_generate_ok [OF this, of len]
  show "wp (bp_generate len) (\<lambda>out _. safe_text ({} \<union> gp_live (gps s)) bp_kind out \<and> len \<le> int (length out)) s"
  proof (rule wp_mono, clarsimp)
    fix out
    assume "int (length (filter (\<lambda>i. \<not> is_label_line i) out)) = max len 1"
    then show "len \<le> int (length out)" using length_filter_le [of "\<lambda>i. \<not> is_label_line i" out] by linarith
  qed
qed

section \<open>Properties\<close>

text \<open>
  C9. For every seed and length, the scenario \<open>branch_pred\<close> returns a safe program whose labels are
  defined once each and in which every branch names a label defined after it. Control can only move
  forward, so the program ends; leaving the label lines out, it has the requested length.
\<close>

theorem bp_generate_forward:
  "wp (bp_generate len) (\<lambda>out _. safe_text {X0, X2} bp_kind out
     \<and> forward_only out \<and> distinct (filter is_label_line out)
     \<and> int (length (filter (\<lambda>i. \<not> is_label_line i) out)) = max len 1) (gen_init ws)"
  by (rule wp_mono [OF bp_generate_ok]) (simp_all add: bp_forward_def)

end
