(* ===== verification/Traps.thy ===== *)
theory Traps
  imports Crv_Scenario
begin

text \<open>
  The scenario tools/crv/scenarios/traps.py, with the prefix \<open>tr_\<close>: a trap handler prologue, then
  integer filler with occasional \<open>ecall\<close> and \<open>ebreak\<close>. The properties: the program is the prologue
  followed by a safe body that leaves the handler's registers alone, and the traps alternate.
\<close>

section \<open>Definitions\<close>

definition tr_ALU_R :: "encoder list" where
  "tr_ALU_R = [Add, Sub]"

definition tr_ALU_I :: "encoder list" where
  "tr_ALU_I = [Addi, Slli, Srli]"

definition tr_RESERVED :: "reg list" where
  "tr_RESERVED = [X0, X1, X2, X5, X6]"

definition tr_WRITABLE :: "reg list" where
  "tr_WRITABLE = filter (\<lambda>r. r \<notin> set tr_RESERVED) all_regs"

definition tr_random_writable :: "(gen_state, reg) sem" where
  "tr_random_writable = draw (choice tr_WRITABLE)"

definition tr_lines :: "string list" where
  "tr_lines =
     [''    .option norvc'',
      ''    la      t0, .Ltrap_handler'',
      ''    csrw    mtvec, t0'',
      ''    j       .Lpost_handler'',
      ''    .align  2'',
      ''.Ltrap_handler:'',
      ''    csrr    t1, mepc'',
      ''    addi    t1, t1, 4'',
      ''    csrw    mepc, t1'',
      ''    mret'',
      ''    .align  2'',
      ''.Lpost_handler:'']"

definition tr_prologue :: "asm_instr list" where
  "tr_prologue = map (\<lambda>line. mk_instr [] [line]) tr_lines"

lemma length_tr_prologue: "length tr_prologue = 12"
  by (simp add: tr_prologue_def tr_lines_def)

text \<open>The \<open>else\<close> branch of the loop body.\<close>

definition tr_emit_alu :: "(gen_state, asm_instr) sem" where
  "tr_emit_alu =
     bindM (draw (choice (tr_ALU_R @ tr_ALU_I))) (\<lambda>op.
     bindM tr_random_writable (\<lambda>rd.
       if op \<in> set tr_ALU_R then
         bindM live_gp (\<lambda>rs1. bindM live_gp (\<lambda>rs2. bindM (mark_gp rd) (\<lambda>_. emit3 op rd rs1 (OReg rs2))))
       else
         bindM live_gp (\<lambda>rs1.
         bindM (if op \<in> set [Slli, Srli] then draw (randint 0 63) else draw (randint (- 2048) 2047)) (\<lambda>imm.
         bindM (mark_gp rd) (\<lambda>_. emit3 op rd rs1 (OInt imm))))))"

text \<open>One pass; the local variable is \<open>trap_toggle\<close>.\<close>

definition tr_pass :: "nat \<Rightarrow> (gen_state, asm_instr list \<times> nat) sem" where
  "tr_pass trap_toggle =
     bindM (draw random_unit) (\<lambda>u.
       if u < fl (10 / 100) then
         bindM (if trap_toggle mod 2 = 0 then liftM ecall_i else liftM ebreak_i) (\<lambda>i.
           retM ([i], trap_toggle + 1))
       else bindM tr_emit_alu (\<lambda>i. retM ([i], trap_toggle)))"

definition tr_generate :: "int \<Rightarrow> (gen_state, asm_instr list) sem" where
  "tr_generate len =
     bindM (mark_gp X5) (\<lambda>_. bindM (mark_gp X6) (\<lambda>_.
     bindM (while_short (len + int (length tr_prologue)) (\<lambda>trap_toggle out. tr_pass trap_toggle) 0 tr_prologue)
       (\<lambda>(out, _). retM out)))"

section \<open>Every emitted instruction is safe\<close>

primrec tr_kind :: "instr \<Rightarrow> bool" where
  "tr_kind (RI e rd rs1 rs2) = (e \<in> set tr_ALU_R \<and> rd \<notin> {X5, X6})"
| "tr_kind (II e rd rs1 imm) = (e \<in> set tr_ALU_I \<and> rd \<notin> {X5, X6})"
| "tr_kind (LUI rd imm) = False"
| "tr_kind (LDI e rd b off) = False"
| "tr_kind (STI e rs2 b off) = False"
| "tr_kind (BRI e rs1 rs2 l) = False"
| "tr_kind (FPI m rs rm) = False"
| "tr_kind (SYS m) = True"
| "tr_kind (LIT x) = (line_of x \<in> set tr_lines)"

definition is_trap :: "asm_instr \<Rightarrow> bool" where
  "is_trap i \<longleftrightarrow> mnemonic i \<in> set [''ecall'', ''ebreak'']"

lemma tr_writable: "r \<in> set tr_WRITABLE \<longleftrightarrow> r \<notin> {X0, X1, X2, X5, X6}"
  by (simp add: tr_WRITABLE_def tr_RESERVED_def)

lemma tr_writable_nonempty: "tr_WRITABLE \<noteq> []"
  using tr_writable [of X7] by auto

lemma wp_tr_random_writable [wp_intros]:
  "(\<And>r ws. r \<notin> {X0, X1, X2, X5, X6} \<Longrightarrow> Q r (s\<lparr>words := ws\<rparr>)) \<Longrightarrow> wp tr_random_writable Q s"
  unfolding tr_random_writable_def by (intro wp_intros tr_writable_nonempty) (simp add: tr_writable)

lemma trap_text: "ecall_i = Inr (text_of (SYS ''ecall''))" "ebreak_i = Inr (text_of (SYS ''ebreak''))"
  by (simp_all add: ecall_i_def ebreak_i_def)

lemma tr_emit_alu_ok:
  "ready Map.empty s \<Longrightarrow>
     wp tr_emit_alu (step_ok Map.empty {X0, X1, X2} (\<lambda>i. tr_kind i \<and> \<not> is_trap (text_of i)) s) s"
  unfolding tr_emit_alu_def
  by (intro wp_intros wp_emit_i step_okI)
    (auto simp: ready_def emitted_simps tr_ALU_R_def tr_ALU_I_def is_trap_def mk_instr_def)

lemma tr_emit_trap_ok:
  "ready Map.empty s \<Longrightarrow>
     wp (if even t then liftM ecall_i else liftM ebreak_i)
       (step_ok Map.empty {X0, X1, X2} (\<lambda>i. tr_kind i \<and> is_trap (text_of i)
          \<and> mnemonic (text_of i) = (if even t then ''ecall'' else ''ebreak'')) s) s"
  by (intro wp_ifI wp_lift_InrI [OF trap_text(1)] wp_lift_InrI [OF trap_text(2)] step_okI)
    (auto simp: ready_def emitted_simps is_trap_def mk_instr_def)

text \<open>What the lines of the prologue are to an assembler: a handler that skips the trapping instruction.\<close>

definition tr_literals :: "literal list" where
  "tr_literals = [Norvc, La X5 ''.Ltrap_handler'', Csrw ''mtvec'' X5, Jump ''.Lpost_handler'', Align 2,
     Label ''.Ltrap_handler'', Csrr X6 ''mepc'', AddiLine X6 X6 4, Csrw ''mepc'' X6, Mret, Align 2, Label ''.Lpost_handler'']"

lemma tr_lines_literals: "tr_lines = map line_of tr_literals"
  by code_simp

lemma tr_literals_keep: "\<forall>x \<in> set tr_literals. keeps {X0, X1, X2} (LIT x)"
  by (simp add: tr_literals_def keeps_def)

lemma tr_literals_safe:
  assumes "{X5, X6} \<subseteq> written st"
  shows "safe_prog st (map LIT tr_literals) \<and> written (static_after st (map LIT tr_literals)) = written st"
proof -
  have "symbol ''.Ltrap_handler''" "symbol ''.Lpost_handler''" by code_simp+
  with assms show ?thesis
    by (auto simp: tr_literals_def safe_instr_def exec_static_written static_after_def)
qed

text \<open>The traps so far alternate, beginning with \<open>ecall\<close>, and the output still begins with the prologue.\<close>

definition tr_alternates :: "nat \<Rightarrow> asm_instr list \<Rightarrow> bool" where
  "tr_alternates n out \<longleftrightarrow>
     map mnemonic (filter is_trap out) = map (\<lambda>k. if even k then ''ecall'' else ''ebreak'') [0..<n]
     \<and> take (length tr_prologue) out = tr_prologue"

lemma tr_alternates_append:
  "tr_alternates n out \<Longrightarrow> \<not> is_trap i \<Longrightarrow> tr_alternates n (out @ [i])"
  "tr_alternates n out \<Longrightarrow> is_trap i \<Longrightarrow> mnemonic i = (if even n then ''ecall'' else ''ebreak'') \<Longrightarrow>
     tr_alternates (Suc n) (out @ [i])"
  by (auto simp: tr_alternates_def min_def split: if_splits dest: arg_cong [of _ _ length])

lemma tr_pass_ok:
  assumes p: "progress st Map.empty tr_kind out s" and J: "tr_alternates v out"
  shows "wp (tr_pass v) (\<lambda>(is, v') s'. progress st Map.empty tr_kind (out @ is) s'
    \<and> tr_alternates v' (out @ is) \<and> is \<noteq> [] \<and> length is \<le> Suc 0) s"
proof -
  have step: "progress st Map.empty tr_kind (out @ [text_of i]) s'"
    if "emitted Map.empty {X0, X1, X2} i s s'" "tr_kind i" for i s'
    using p that by (rule progress_step) auto
  show ?thesis
    unfolding tr_pass_def even_iff_mod_2_eq_zero [symmetric]
    by (intro wp_ifI [where m' = "bindM tr_emit_alu f" for f] wp_bindI wp_drawI wp_random_unit wp_retI
        wp_step [OF tr_emit_alu_ok] wp_step [OF tr_emit_trap_ok])
      (use J progress_ready [OF p] in \<open>auto simp: step tr_alternates_append\<close>)
qed

lemma tr_generate_ok:
  assumes "gp_ok (gps s)" and "fp_ok (fps s)"
  shows "wp (tr_generate len) (\<lambda>out _. safe_text ({X5, X6} \<union> gp_live (gps s)) tr_kind out
    \<and> (\<exists>n. tr_alternates n out) \<and> int (length out) = max len 0 + 12) s"
proof -
  let ?s = "s\<lparr>gps := gp_write X6 (gp_write X5 (gps s))\<rparr>"
  let ?st = "static_init ({X5, X6} \<union> gp_live (gps s))"
  have "safe_prog ?st (map LIT tr_literals) \<and> written (static_after ?st (map LIT tr_literals)) = written ?st"
    by (rule tr_literals_safe) (simp add: static_init_def)
  then have "tracks ?st Map.empty (map LIT tr_literals) ?s"
    using assms by (simp add: tracks_def ready_def static_init_def insert_commute)
  moreover have "list_all (\<lambda>i. keeps {X0, X1, X2} i \<and> tr_kind i) (map LIT tr_literals)"
    using tr_literals_keep by (simp add: tr_lines_literals list_all_iff)
  moreover have "tr_prologue = map text_of (map LIT tr_literals)" by (simp add: tr_prologue_def tr_lines_literals)
  ultimately have prologue: "progress ?st Map.empty tr_kind tr_prologue ?s"
    unfolding progress_def by blast
  show ?thesis
    unfolding tr_generate_def
  proof (intro wp_bindI wp_mark_gpI, rule while_progress)
    fix v out s'
    assume "progress ?st Map.empty tr_kind out s'" and "tr_alternates v out"
    then show "wp (tr_pass v) (\<lambda>(is, v') s''. progress ?st Map.empty tr_kind (out @ is) s''
        \<and> tr_alternates v' (out @ is) \<and> is \<noteq> [] \<and> length is \<le> Suc 0) s'" by (rule tr_pass_ok)
  next
    show "progress ?st Map.empty tr_kind tr_prologue (s\<lparr>gps := gp_write X5 (gps s), gps := gp_write X6 (gps (s\<lparr>gps := gp_write X5 (gps s)\<rparr>))\<rparr>)"
      using prologue by simp
    show "tr_alternates 0 tr_prologue"
      by (simp add: tr_alternates_def tr_prologue_def tr_lines_def is_trap_def mk_instr_def)
  qed (auto simp: wp_simps length_tr_prologue elim: progress_safe)
qed

interpretation tr: scenario tr_generate "{X5, X6}" tr_kind
  by unfold_locales (auto intro: wp_mono [OF tr_generate_ok])

section \<open>Properties\<close>

lemma tr_alternates_prologue: "tr_alternates n out \<Longrightarrow> take 12 out = tr_prologue"
  by (simp add: tr_alternates_def length_tr_prologue)

lemma tr_alternates_traps:
  assumes "tr_alternates n out"
  shows "map mnemonic (filter is_trap out)
    = map (\<lambda>k. if even k then ''ecall'' else ''ebreak'') [0..<length (filter is_trap out)]"
proof -
  from assms have m: "map mnemonic (filter is_trap out) = map (\<lambda>k. if even k then ''ecall'' else ''ebreak'') [0..<n]"
    by (simp only: tr_alternates_def)
  from arg_cong [OF this, of length] have "n = length (filter is_trap out)" by simp
  with m show ?thesis by (simp only:)
qed

text \<open>
  C11. For every seed and length, the scenario \<open>traps\<close> returns the handler prologue followed by the
  requested number of instructions; the traps among them alternate between \<open>ecall\<close> and \<open>ebreak\<close>. The
  program is safe counting the handler's registers \<open>t0\<close> and \<open>t1\<close> as initialised, as the source does,
  and no instruction of the body writes them.
\<close>

theorem tr_generate_alternates:
  "wp (tr_generate len) (\<lambda>out _. safe_text {X0, X2, X5, X6} tr_kind out
     \<and> take 12 out = tr_prologue \<and> int (length out) = max len 0 + 12
     \<and> map mnemonic (filter is_trap out)
         = map (\<lambda>k. if even k then ''ecall'' else ''ebreak'') [0..<length (filter is_trap out)]) (gen_init ws)"
proof (rule wp_mono [OF tr_generate_ok], simp, simp)
  fix out s'
  assume out: "safe_text ({X5, X6} \<union> gp_live (gps (gen_init ws))) tr_kind out
    \<and> (\<exists>n. tr_alternates n out) \<and> int (length out) = max len 0 + 12"
  have live: "{X5, X6} \<union> gp_live (gps (gen_init ws)) = {X0, X2, X5, X6}" by auto
  show "safe_text {X0, X2, X5, X6} tr_kind out
     \<and> take 12 out = tr_prologue \<and> int (length out) = max len 0 + 12
     \<and> map mnemonic (filter is_trap out)
         = map (\<lambda>k. if even k then ''ecall'' else ''ebreak'') [0..<length (filter is_trap out)]"
    using out tr_alternates_prologue tr_alternates_traps unfolding live by blast
qed

end
