(* ===== verification/Raw_Stress.thy ===== *)
theory Raw_Stress
  imports Int_Hazards
begin

text \<open>
  The scenario tools/crv/scenarios/raw_stress.py, with the prefix \<open>rs_\<close>: a store followed at once by a
  load of the same width from the same address. The properties: the program is safe although the
  offset is folded into the range of an immediate, and every pass emits the read-after-write pattern.
\<close>

section \<open>Definitions\<close>

definition rs_RESERVED :: "reg list" where
  "rs_RESERVED = [X0, X1, X2, X10]"

definition rs_WRITABLE :: "reg list" where
  "rs_WRITABLE = filter (\<lambda>r. r \<notin> set rs_RESERVED) all_regs"

definition rs_SIZES :: "(int \<times> encoder \<times> encoder) list" where
  "rs_SIZES = [(1, Sb, Lb), (2, Sh, Lh), (4, Sw, Lw), (8, Sd, Ld)]"

definition rs_HOT_REGION :: int where
  "rs_HOT_REGION = 4096"

definition rs_random_writable :: "(gen_state, reg) sem" where
  "rs_random_writable = draw (choice rs_WRITABLE)"

definition rs_pass :: "(gen_state, asm_instr list \<times> unit) sem" where
  "rs_pass =
     bindM (draw (choice rs_SIZES)) (\<lambda>(sz_bytes, store_op, load_op).
     let max_slots = rs_HOT_REGION div sz_bytes - 1 in
     bindM (draw (randint 0 max_slots)) (\<lambda>k.
     let off = k * sz_bytes;
         off = (if off > 2040 then off mod 2040 div sz_bytes * sz_bytes else off) in
     bindM live_gp (\<lambda>_.
     bindM rs_random_writable (\<lambda>rd.
     bindM (draw (randint (- 2048) 2047)) (\<lambda>val.
     bindM rs_random_writable (\<lambda>rs2.
     bindM (emit3 Addi rs2 X0 (OInt val)) (\<lambda>i.
     bindM (mark_gp rs2) (\<lambda>_.
     bindM (emit3 store_op rs2 X10 (OInt off)) (\<lambda>st.
     bindM (emit3 load_op rd X10 (OInt off)) (\<lambda>ld.
     bindM (mark_gp rd) (\<lambda>_. retM ([i, st, ld], ()))))))))))))"

definition rs_generate :: "int \<Rightarrow> (gen_state, asm_instr list) sem" where
  "rs_generate len =
     (let upper = drop_bit 12 DATA_BASE AND 0xFFFFF;
          lower = DATA_BASE AND 0xFFF;
          (upper, lower) = (if lower AND 0x800 \<noteq> 0 then ((upper + 1) AND 0xFFFFF, lower - 0x1000)
                            else (upper, lower))
      in bindM (liftM (lui_i (OReg X10) upper)) (\<lambda>i.
         bindM (liftM (addi_i (OReg X10) (OReg X10) lower)) (\<lambda>j.
         bindM (mark_gp X10) (\<lambda>_.
         bindM (while_short (len + 2) (\<lambda>_ out. rs_pass) () [i, j]) (\<lambda>(out, _). retM out)))))"

section \<open>Every emitted instruction is safe\<close>

primrec rs_kind :: "instr \<Rightarrow> bool" where
  "rs_kind (RI e rd rs1 rs2) = False"
| "rs_kind (II e rd rs1 imm) = (e = Addi)"
| "rs_kind (LUI rd imm) = True"
| "rs_kind (LDI e rd b off) = (b = X10)"
| "rs_kind (STI e rs2 b off) = (b = X10)"
| "rs_kind (BRI e rs1 rs2 l) = False"
| "rs_kind (FPI m rs rm) = False"
| "rs_kind (SYS m) = False"
| "rs_kind (LIT line) = False"

lemma rs_writable: "r \<in> set rs_WRITABLE \<longleftrightarrow> r \<notin> {X0, X1, X2, X10}"
  by (simp add: rs_WRITABLE_def rs_RESERVED_def)

lemma rs_writable_nonempty: "rs_WRITABLE \<noteq> []"
  using rs_writable [of X5] by auto

lemma wp_rs_random_writable [wp_intros]:
  "(\<And>r ws. r \<notin> {X0, X1, X2, X10} \<Longrightarrow> Q r (s\<lparr>words := ws\<rparr>)) \<Longrightarrow> wp rs_random_writable Q s"
  unfolding rs_random_writable_def by (intro wp_intros rs_writable_nonempty) (simp add: rs_writable)

text \<open>The offset after folding: aligned, and small enough for the access to end below 2048.\<close>

definition rs_offset :: "int \<Rightarrow> int \<Rightarrow> int" where
  "rs_offset sz k = (let off = k * sz in if off > 2040 then off mod 2040 div sz * sz else off)"

lemma rs_offset_ok:
  assumes "sz \<in> {1, 2, 4, 8}" and "0 \<le> k"
  shows "0 \<le> rs_offset sz k \<and> rs_offset sz k + sz \<le> 2048 \<and> rs_offset sz k mod sz = 0"
proof -
  have sz: "0 < sz" "sz \<le> 8" using assms(1) by auto
  show ?thesis
  proof (cases "k * sz > 2040")
    case True
    have "k * sz mod 2040 div sz * sz \<le> k * sz mod 2040"
      using sz div_mult_mod_eq [of "k * sz mod 2040" sz] pos_mod_sign [of sz "k * sz mod 2040"] by linarith
    moreover have "k * sz mod 2040 < 2040" by simp
    ultimately show ?thesis using True sz by (simp add: rs_offset_def Let_def pos_imp_zdiv_nonneg_iff)
  next
    case False
    with sz assms(2) show ?thesis by (simp add: rs_offset_def Let_def)
  qed
qed

text \<open>The three instructions of a pass.\<close>

type_synonym rs_choice = "(int \<times> encoder \<times> encoder) \<times> int \<times> int \<times> reg \<times> reg"

definition rs_triple :: "rs_choice \<Rightarrow> instr list" where
  "rs_triple = (\<lambda>((sz, store_op, load_op), off, val, rs2, rd).
     [II Addi rs2 X0 val, STI store_op rs2 X10 off, LDI load_op rd X10 off])"

definition rs_choice_ok :: "rs_choice \<Rightarrow> bool" where
  "rs_choice_ok = (\<lambda>((sz, store_op, load_op), off, val, rs2, rd).
     (sz, store_op, load_op) \<in> set rs_SIZES \<and> 0 \<le> off \<and> off + sz \<le> 2048 \<and> off mod sz = 0
     \<and> - 2048 \<le> val \<and> val \<le> 2047 \<and> rs2 \<notin> {X0, X1, X2, X10} \<and> rd \<notin> {X0, X1, X2, X10})"

lemma rs_sizes_sound:
  assumes "(sz, st, ld) \<in> set rs_SIZES"
  shows "sz \<in> {1, 2, 4, 8} \<and> st \<in> set store_encoders \<and> ld \<in> set load_encoders
    \<and> access_size st = sz \<and> access_size ld = sz"
  using assms by (auto simp: rs_SIZES_def store_encoders_def load_encoders_def access_size_def)

lemma rs_access:
  assumes "rs_choice_ok ((sz, st, ld), off, val, rs2, rd)"
  shows "access_ok pointers (X10, off, sz)"
  using assms rs_sizes_sound [of sz st ld]
  by (intro access_ok_pointer [where r = DATA]) (auto simp: rs_choice_ok_def pointers_def layout_defs)

lemma rs_triple_safe:
  assumes c: "rs_choice_ok c" and p: "progress st pointers rs_kind out s"
    and live: "gp_live (gps s') = set_option (dest (rs_triple c ! 2)) \<union> set_option (dest (rs_triple c ! 0)) \<union> gp_live (gps s)"
    and fp: "fp_ok (fps s')"
  shows "progress st pointers rs_kind (out @ map text_of (rs_triple c)) s'"
proof -
  obtain sz store_op load_op off val rs2 rd where c_eq: "c = ((sz, store_op, load_op), off, val, rs2, rd)" by (cases c) auto
  note sizes = rs_sizes_sound [of sz store_op load_op]
  note acc = rs_access [OF c [unfolded c_eq]]
  from c have ok: "(sz, store_op, load_op) \<in> set rs_SIZES" "0 \<le> off" "off + sz \<le> 2048" "- 2048 \<le> val" "val \<le> 2047"
    "rs2 \<notin> {X0, X1, X2, X10}" "rd \<notin> {X0, X1, X2, X10}" by (simp_all add: c_eq rs_choice_ok_def)
  let ?m = "\<lambda>s. s\<lparr>gps := gp_write rs2 (gps s)\<rparr>"
  from progress_ready [OF p] have r: "gp_ok (gps s)" "fp_ok (fps s)" "X10 \<in> gp_live (gps s)" "X0 \<in> gp_live (gps s)"
    by (auto simp: ready_def gp_ok_def)
  have "progress st pointers rs_kind (out @ [text_of (II Addi rs2 X0 val)]) (?m s)"
    by (rule progress_step [OF p, where R = "{X0, X1, X2, X10}"]) (use ok r in \<open>auto simp: emitted_simps\<close>)
  then have "progress st pointers rs_kind ((out @ [text_of (II Addi rs2 X0 val)]) @ [text_of (STI store_op rs2 X10 off)]) (?m s)"
    by (rule progress_step [where R = "{X0, X1, X2, X10}"])
      (use ok r acc sizes in \<open>auto simp: emitted_simps\<close>)
  then have "progress st pointers rs_kind (((out @ [text_of (II Addi rs2 X0 val)]) @ [text_of (STI store_op rs2 X10 off)])
      @ [text_of (LDI load_op rd X10 off)]) s'"
    by (rule progress_step [where R = "{X0, X1, X2, X10}"])
      (use ok r acc sizes live fp in \<open>auto simp: emitted_simps c_eq rs_triple_def\<close>)
  then show ?thesis by (simp add: c_eq rs_triple_def)
qed


lemma wp_rs_pass:
  assumes "ready pointers s"
    and "\<And>c s'. rs_choice_ok c \<Longrightarrow>
      gp_live (gps s') = set_option (dest (rs_triple c ! 2)) \<union> set_option (dest (rs_triple c ! 0)) \<union> gp_live (gps s) \<Longrightarrow>
      fp_ok (fps s') \<Longrightarrow> Q (map text_of (rs_triple c), ()) s'"
  shows "wp rs_pass Q s"
  unfolding rs_pass_def
proof (intro wp_bindI wp_drawI wp_choice)
  fix entry ws
  assume "entry \<in> set rs_SIZES"
  then obtain sz st ld where entry: "entry = (sz, st, ld)" "(sz, st, ld) \<in> set rs_SIZES"
    by (metis prod_cases3)
  note sizes = rs_sizes_sound [OF entry(2)]
  then have enc: "encodable (STI st rs2 X10 (rs_offset sz k))" "encodable (LDI ld rd X10 (rs_offset sz k))"
    if "0 \<le> k" for rs2 rd k
    using that rs_offset_ok [of sz k] by auto
  have slots: "0 \<le> rs_HOT_REGION div sz - 1" using sizes by (auto simp: rs_HOT_REGION_def)
  have Q: "Q ([text_of (II Addi rs2 X0 val), text_of (STI st rs2 X10 (rs_offset sz k)), text_of (LDI ld rd X10 (rs_offset sz k))], ()) s'"
    if "0 \<le> k" "- 2048 \<le> val" "val \<le> 2047" "rs2 \<notin> {X0, X1, X2, X10}" "rd \<notin> {X0, X1, X2, X10}"
      "gp_live (gps s') = insert rd (insert rs2 (gp_live (gps s)))" "fp_ok (fps s')" for k val rs2 rd s'
    using assms(2) [of "((sz, st, ld), rs_offset sz k, val, rs2, rd)" s'] that rs_offset_ok [of sz k] sizes entry(2)
    by (simp add: rs_choice_ok_def rs_triple_def insert_commute)
  show "wp (case entry of (sz_bytes, store_op, load_op) \<Rightarrow>
     let max_slots = rs_HOT_REGION div sz_bytes - 1 in
     bindM (draw (randint 0 max_slots)) (\<lambda>k.
     let off = k * sz_bytes;
         off = (if off > 2040 then off mod 2040 div sz_bytes * sz_bytes else off) in
     bindM live_gp (\<lambda>_.
     bindM rs_random_writable (\<lambda>rd.
     bindM (draw (randint (- 2048) 2047)) (\<lambda>val.
     bindM rs_random_writable (\<lambda>rs2.
     bindM (emit3 Addi rs2 X0 (OInt val)) (\<lambda>i.
     bindM (mark_gp rs2) (\<lambda>_.
     bindM (emit3 store_op rs2 X10 (OInt off)) (\<lambda>st.
     bindM (emit3 load_op rd X10 (OInt off)) (\<lambda>ld.
     bindM (mark_gp rd) (\<lambda>_. retM ([i, st, ld], ()))))))))))))
    Q (s\<lparr>words := ws\<rparr>)"
    unfolding entry(1) prod.case Let_def rs_offset_def [unfolded Let_def, symmetric]
    by (intro wp_intros wp_emit_store [of st] wp_emit_load [of ld] enc Q)
      (use assms(1) slots in \<open>simp_all add: ready_def\<close>)
qed (simp add: rs_SIZES_def)


text \<open>The output so far is the pointer setup and one triple for each choice made.\<close>

definition rs_pattern :: "asm_instr list \<Rightarrow> bool" where
  "rs_pattern out \<longleftrightarrow> (\<exists>cs. out = map text_of (pointer_prog @ concat (map rs_triple cs)) \<and> list_all rs_choice_ok cs)"

lemma rs_pattern_step: "rs_pattern out \<Longrightarrow> rs_choice_ok c \<Longrightarrow> rs_pattern (out @ map text_of (rs_triple c))"
proof -
  assume "rs_pattern out" and c: "rs_choice_ok c"
  then obtain cs where cs: "out = map text_of (pointer_prog @ concat (map rs_triple cs))" "list_all rs_choice_ok cs"
    by (auto simp: rs_pattern_def)
  show ?thesis
    unfolding rs_pattern_def by (rule exI [of _ "cs @ [c]"]) (use cs c in simp)
qed

lemma rs_pass_ok:
  assumes p: "progress st pointers rs_kind out s" and J: "rs_pattern out"
  shows "wp rs_pass (\<lambda>(is, v') s'. progress st pointers rs_kind (out @ is) s'
    \<and> rs_pattern (out @ is) \<and> is \<noteq> [] \<and> length is \<le> Suc 2) s"
proof (rule wp_rs_pass [OF progress_ready [OF p]])
  fix c and s' :: gen_state
  assume "rs_choice_ok c" and "gp_live (gps s') = set_option (dest (rs_triple c ! 2)) \<union> set_option (dest (rs_triple c ! 0)) \<union> gp_live (gps s)"
    and "fp_ok (fps s')"
  from rs_triple_safe [OF this(1) p this(2,3)] rs_pattern_step [OF J this(1)]
  show "(case (map text_of (rs_triple c), ()) of
      (is, v') \<Rightarrow> \<lambda>s'. progress st pointers rs_kind (out @ is) s' \<and> rs_pattern (out @ is) \<and> is \<noteq> [] \<and> length is \<le> Suc 2) s'"
    by (cases c) (auto simp: rs_triple_def)
qed

lemma rs_generate_setup:
  "rs_generate len = bindM ih_setup_data_pointer (\<lambda>(setup, ptr).
     bindM (while_short (len + int (length setup)) (\<lambda>_ out. rs_pass) () setup) (\<lambda>(out, _). retM out))"
  by (simp add: rs_generate_def ih_setup_data_pointer_def layout_defs Let_def lui_i_def addi_i_def fun_eq_iff
      bindM_def liftM_def retM_def mark_gp_def modifyM_def)

lemma rs_generate_ok:
  assumes "gp_ok (gps s)" and "fp_ok (fps s)"
  shows "wp (rs_generate len) (\<lambda>out _. safe_text (gp_live (gps s)) rs_kind out \<and> rs_pattern out
    \<and> max len 0 + 2 \<le> int (length out) \<and> int (length out) \<le> max len 0 + 4) s"
  unfolding rs_generate_setup
proof (rule pointer_loop [OF assms, where J = "\<lambda>_ out. rs_pattern out" and k = 2 and pass = "\<lambda>_ _ _. rs_pass"])
  show "list_all rs_kind pointer_prog" by (simp add: pointer_prog_def)
  show "rs_pattern (map text_of pointer_prog)"
    unfolding rs_pattern_def by (rule exI [of _ "[]"]) simp
qed (rule rs_pass_ok, auto)

interpretation rs: scenario rs_generate "{}" rs_kind
  by unfold_locales (auto intro: wp_mono [OF rs_generate_ok])

section \<open>Properties\<close>

text \<open>
  C10. For every seed and length, the scenario \<open>raw_stress\<close> returns, and its output is the pointer setup
  followed by triples of instructions: a fresh value, a store of it and, with nothing in between, a
  load of the same width from the same aligned address below the first 2048 bytes of the data region
  (so the folding of large offsets never breaks alignment or the immediate's range).
\<close>

theorem rs_generate_pattern:
  "wp (rs_generate len) (\<lambda>out _. safe_text {X0, X2} rs_kind out \<and> rs_pattern out
     \<and> max len 0 + 2 \<le> int (length out) \<and> int (length out) \<le> max len 0 + 4) (gen_init ws)"
  by (rule wp_mono [OF rs_generate_ok]) simp_all

end
