(* ===== verification/Crv_Generator.thy ===== *)
theory Crv_Generator
  imports Py_Argparse Muldiv_Interleave Mem_Ordering Fp_Arith Fdiv_Fsqrt Branch_Pred Traps Raw_Stress
begin

text \<open>
  The scenario registry, tools/crv/scenarios/__init__.py, and the program writer,
  tools/crv/generator.py. The random generator's outputs for a seed are the parameter \<open>twister\<close>.
\<close>

section \<open>The registry\<close>

definition all_scenarios :: "string list" where
  "all_scenarios =
     [''int_hazards'', ''muldiv_interleave'', ''mem_ordering'', ''fp_arith'', ''fdiv_fsqrt'', ''branch_pred'',
      ''traps'', ''raw_stress'']"

definition scenario_table :: "(string \<times> (int \<Rightarrow> (gen_state, asm_instr list) sem)) list" where
  "scenario_table =
     [(''int_hazards'', ih_generate), (''muldiv_interleave'', md_generate), (''mem_ordering'', mo_generate),
      (''fp_arith'', fa_generate), (''fdiv_fsqrt'', fd_generate), (''branch_pred'', bp_generate),
      (''traps'', tr_generate), (''raw_stress'', rs_generate)]"

definition get_scenario :: "string \<Rightarrow> (int \<Rightarrow> (gen_state, asm_instr list) sem) result" where
  "get_scenario name =
     (case map_of scenario_table name of
        None \<Rightarrow> Inl (KeyError (''unknown scenario '' @ repr_str name @ ''; available: '' @ repr_list (sort (map fst scenario_table))))
      | Some generate \<Rightarrow> Inr generate)"

section \<open>Writing a program\<close>

definition header :: "string \<Rightarrow> int \<Rightarrow> int \<Rightarrow> string" where
  "header name seed len = unlines
     [''# Auto-generated by tools/crv/generator.py'',
      ''# scenario='' @ name @ '' seed='' @ str_int seed @ '' length='' @ str_int len,
      ''# Re-run: make run-s5-crv_'' @ name @ ''_'' @ str_int seed,
      [],
      ''.section .text'',
      ''.global main'',
      ''main:'',
      ''    addi    sp, sp, -16'',
      ''    sd      ra, 0(sp)'']"

definition footer :: string where
  "footer = unlines
     [''ld      ra, 0(sp)'',
      ''addi    sp, sp, 16'',
      ''li      a0, 0           # CRV programs always pass at the asm level;'',
      ''                        # divergence is detected by trace_diff.py.'',
      ''ret'']"

text \<open>The line written for one instruction; a literal line is its first operand.\<close>

definition program_line :: "asm_instr \<Rightarrow> string result" where
  "program_line i =
     (if mnemonic i = [] then
        (case operands i of [] \<Rightarrow> Inl (IndexError ''tuple index out of range'') | line # _ \<Rightarrow> Inr line)
      else Inr (''        '' @ to_asm i))"

text \<open>The text of the program, then \<open>generate_program\<close>, which writes it.\<close>

definition program_text :: "string \<Rightarrow> int \<Rightarrow> int \<Rightarrow> asm_instr list \<Rightarrow> string result" where
  "program_text name seed len body =
     bindR (mapR program_line body) (\<lambda>ls. Inr (header name seed len @ unlines ls @ footer))"

definition generate_program ::
  "(int \<Rightarrow> rng) \<Rightarrow> string \<Rightarrow> int \<Rightarrow> int \<Rightarrow> string \<Rightarrow> files \<Rightarrow> files result" where
  "generate_program twister name seed len out fs =
     bindR (get_scenario name) (\<lambda>fn.
     bindR (fn len \<lparr>words = twister seed, gps = gp_init, fps = fp_init\<rparr>) (\<lambda>(body, _).
     bindR (program_text name seed len body) (\<lambda>text.
       Inr (fs(out \<mapsto> text)))))"

text \<open>The command line.\<close>

definition GENERATOR_ARGS :: cli where
  "GENERATOR_ARGS = \<lparr>c_opts = [(needs_opt ''--scenario'' To_Str)\<lparr>o_choices := Some all_scenarios\<rparr>, needs_opt ''--seed'' To_Int,
     (takes_opt ''--length'' To_Int)\<lparr>o_default := AInt 200\<rparr>, needs_opt ''--out'' To_Path], c_pos = []\<rparr>"

definition generator_main :: "(string list \<Rightarrow> string) \<Rightarrow> (int \<Rightarrow> rng) \<Rightarrow> string list \<Rightarrow> unit io" where
  "generator_main says twister argv = bindI (parse_argsI says GENERATOR_ARGS argv) (\<lambda>ns w.
     case generate_program twister (str_arg ns ''--scenario'') (int_arg ns ''--seed'') (int_arg ns ''--length'')
            (str_arg ns ''--out'') (w_files w) of
       Inl e \<Rightarrow> (Inl e, w)
     | Inr fs \<Rightarrow> (Inr (), w\<lparr>w_files := fs\<rparr>))"

section \<open>Every scenario meets the contract\<close>

text \<open>The registers a scenario's own prologue initialises, by name.\<close>

definition scenario_extra :: "string \<Rightarrow> reg set" where
  "scenario_extra name = (if name = ''traps'' then {X5, X6} else {})"

lemma scenario_lookup:
  "map_of scenario_table ''int_hazards'' = Some ih_generate"
  "map_of scenario_table ''muldiv_interleave'' = Some md_generate"
  "map_of scenario_table ''mem_ordering'' = Some mo_generate"
  "map_of scenario_table ''fp_arith'' = Some fa_generate"
  "map_of scenario_table ''fdiv_fsqrt'' = Some fd_generate"
  "map_of scenario_table ''branch_pred'' = Some bp_generate"
  "map_of scenario_table ''traps'' = Some tr_generate"
  "map_of scenario_table ''raw_stress'' = Some rs_generate"
  by (simp_all add: scenario_table_def)

text \<open>The instructions each scenario emits, by name.\<close>

definition kind_table :: "(string \<times> (instr \<Rightarrow> bool)) list" where
  "kind_table =
     [(''int_hazards'', ih_kind),
      (''muldiv_interleave'', md_kind),
      (''mem_ordering'', mo_kind),
      (''fp_arith'', fa_kind),
      (''fdiv_fsqrt'', fd_kind),
      (''branch_pred'', bp_kind),
      (''traps'', tr_kind),
      (''raw_stress'', rs_kind)]"

definition scenario_kind :: "string \<Rightarrow> instr \<Rightarrow> bool" where
  "scenario_kind name i = (case map_of kind_table name of None \<Rightarrow> False | Some kind \<Rightarrow> kind i)"

lemma kind_lookup:
  "scenario_kind ''int_hazards'' = ih_kind"
  "scenario_kind ''muldiv_interleave'' = md_kind"
  "scenario_kind ''mem_ordering'' = mo_kind"
  "scenario_kind ''fp_arith'' = fa_kind"
  "scenario_kind ''fdiv_fsqrt'' = fd_kind"
  "scenario_kind ''branch_pred'' = bp_kind"
  "scenario_kind ''traps'' = tr_kind"
  "scenario_kind ''raw_stress'' = rs_kind"
  by (simp_all add: scenario_kind_def kind_table_def fun_eq_iff)

text \<open>What the body of a program is: returned by the registered function, safe, of the requested length.\<close>

definition body_ok :: "string \<Rightarrow> int \<Rightarrow> asm_instr list \<Rightarrow> bool" where
  "body_ok name len body \<longleftrightarrow> safe_text (scenario_extra name \<union> {X0, X2}) (scenario_kind name) body \<and> len \<le> int (length body)"

lemma table_entry:
  assumes "name = n" and "map_of scenario_table n = Some fn" and "scenario_kind n = kind"
    and "\<And>len ws. wp (fn len) (\<lambda>out _. safe_text (ex \<union> {X0, X2}) kind out \<and> len \<le> int (length out)) (gen_init ws)"
    and "scenario_extra n = ex"
  shows "\<exists>fn. map_of scenario_table name = Some fn \<and> (\<forall>len ws. wp (fn len) (\<lambda>out _. body_ok name len out) (gen_init ws))"
  unfolding assms(1) body_ok_def using assms(2-5) by simp

lemma table_safe:
  assumes "name \<in> set all_scenarios"
  shows "\<exists>fn. map_of scenario_table name = Some fn \<and> (\<forall>len ws. wp (fn len) (\<lambda>out _. body_ok name len out) (gen_init ws))"
proof -
  from assms have "name = ''int_hazards'' \<or> name = ''muldiv_interleave'' \<or> name = ''mem_ordering''
    \<or> name = ''fp_arith'' \<or> name = ''fdiv_fsqrt'' \<or> name = ''branch_pred'' \<or> name = ''traps''
    \<or> name = ''raw_stress''"
    by (simp only: all_scenarios_def list.set insert_iff empty_iff simp_thms)
  then show ?thesis
  proof (elim disjE, goal_cases)
    case 1
    show ?thesis
      by (rule table_entry [OF 1 scenario_lookup(1) kind_lookup(1) ih.generate_init]) (simp add: scenario_extra_def)
  next
    case 2
    show ?thesis
      by (rule table_entry [OF 2 scenario_lookup(2) kind_lookup(2) md.generate_init]) (simp add: scenario_extra_def)
  next
    case 3
    show ?thesis
      by (rule table_entry [OF 3 scenario_lookup(3) kind_lookup(3) mo.generate_init]) (simp add: scenario_extra_def)
  next
    case 4
    show ?thesis
      by (rule table_entry [OF 4 scenario_lookup(4) kind_lookup(4) fa.generate_init]) (simp add: scenario_extra_def)
  next
    case 5
    show ?thesis
      by (rule table_entry [OF 5 scenario_lookup(5) kind_lookup(5) fd.generate_init]) (simp add: scenario_extra_def)
  next
    case 6
    show ?thesis
      by (rule table_entry [OF 6 scenario_lookup(6) kind_lookup(6) bp.generate_init]) (simp add: scenario_extra_def)
  next
    case 7
    show ?thesis
      by (rule table_entry [OF 7 scenario_lookup(7) kind_lookup(7) tr.generate_init]) (simp add: scenario_extra_def)
  next
    case 8
    show ?thesis
      by (rule table_entry [OF 8 scenario_lookup(8) kind_lookup(8) rs.generate_init]) (simp add: scenario_extra_def)
  qed
qed

text \<open>A known scenario's program: the lookup, the body and its lines all succeed.\<close>

lemma known_program:
  assumes "name \<in> set all_scenarios"
  obtains fn body s' where "get_scenario name = Inr fn" and "fn len (gen_init (twister seed)) = Inr (body, s')"
    and "body_ok name len body"
proof -
  from table_safe [OF assms] obtain fn where fn: "map_of scenario_table name = Some fn"
    and safe: "wp (fn len) (\<lambda>out _. body_ok name len out) (gen_init (twister seed))"
    by blast
  have "get_scenario name = Inr fn" by (simp add: get_scenario_def fn)
  moreover from safe obtain body s' where "fn len (gen_init (twister seed)) = Inr (body, s')" "body_ok name len body" by (rule wpD)
  ultimately show thesis by (rule that)
qed

lemma body_lines:
  assumes "body_ok name len out"
  shows "\<exists>ls. mapR program_line out = Inr ls"
proof -
  from assms obtain prog st where out: "out = map text_of prog" and safe: "safe_prog st prog"
    by (auto simp: body_ok_def safe_text_def)
  have line: "\<exists>l. program_line (text_of i) = Inr l" if "encodable i" for i
    using that by (cases i) (auto simp: program_line_def mk_instr_def fp_mnemonics_def split: if_splits)
  have lines: "\<exists>ls. mapR program_line (map text_of p) = Inr ls" if "\<forall>i \<in> set p. encodable i" for p
    using that
  proof (induction p)
    case (Cons i p)
    then obtain l ls where "program_line (text_of i) = Inr l" "mapR program_line (map text_of p) = Inr ls"
      using line [of i] by fastforce
    then show ?case by simp
  qed simp
  have "\<forall>i \<in> set prog. encodable i" using safe_prog_encodable [OF safe] by blast
  from lines [OF this] show ?thesis by (simp add: out)
qed

lemma generate_program_files:
  assumes "name \<in> set all_scenarios"
  shows "\<exists>fn body s' ls. get_scenario name = Inr fn \<and> fn len (gen_init (twister seed)) = Inr (body, s')
    \<and> safe_text (scenario_extra name \<union> {X0, X2}) (scenario_kind name) body \<and> len \<le> int (length body)
    \<and> mapR program_line body = Inr ls
    \<and> generate_program twister name seed len out fs = Inr (fs(out \<mapsto> header name seed len @ unlines ls @ footer))"
proof -
  obtain fn body s' where fn: "get_scenario name = Inr fn"
    and body: "fn len (gen_init (twister seed)) = Inr (body, s')" "body_ok name len body"
    by (rule known_program [OF assms])
  from body_lines [OF body(2)] obtain ls where ls: "mapR program_line body = Inr ls" ..
  have "generate_program twister name seed len out fs = Inr (fs(out \<mapsto> header name seed len @ unlines ls @ footer))"
    using body(1) by (simp add: generate_program_def program_text_def fn gen_init_def ls)
  with fn body ls show ?thesis unfolding body_ok_def by blast
qed

section \<open>Properties\<close>

text \<open>
  C5. For every registered scenario, seed and length, \<open>generate_program\<close> never raises; it writes the
  one output file, whose text is the header, one line for each instruction that the registered scenario
  returns for this seed and length, and the footer. Those instructions are at least as many as requested, all of the
  scenario's kind, and safe: every operand is encodable, every source register initialised, every access
  aligned and inside its region, and \<open>x0\<close>, the return address and the stack pointer are never written.
\<close>

theorem generate_program_writes:
  assumes "name \<in> set all_scenarios"
  shows "\<exists>fn body s' ls. get_scenario name = Inr fn \<and> fn len (gen_init (twister seed)) = Inr (body, s')
    \<and> safe_text (scenario_extra name \<union> {X0, X2}) (scenario_kind name) body \<and> len \<le> int (length body)
    \<and> mapR program_line body = Inr ls
    \<and> generate_program twister name seed len out fs = Inr (fs(out \<mapsto> header name seed len @ unlines ls @ footer))"
  using assms by (rule generate_program_files)

theorem generate_program_writes_witness:
  "\<exists>fn body s' ls. get_scenario ''traps'' = Inr fn \<and> fn 5 (gen_init [1, 2, 3]) = Inr (body, s')
    \<and> safe_text (scenario_extra ''traps'' \<union> {X0, X2}) (scenario_kind ''traps'') body \<and> 5 \<le> int (length body)
    \<and> mapR program_line body = Inr ls
    \<and> generate_program (\<lambda>_. [1, 2, 3]) ''traps'' 0 5 ''prog.S'' Map.empty
      = Inr (Map.empty(''prog.S'' \<mapsto> header ''traps'' 0 5 @ unlines ls @ footer))"
  by (rule generate_program_writes [where twister = "\<lambda>_. [1, 2, 3]" and seed = 0]) (simp add: all_scenarios_def)

text \<open>
  The registry knows exactly the scenarios of \<open>all_scenarios\<close>: for a known name \<open>generate_program\<close>
  succeeds, whatever the seed, and for any other it raises the \<open>KeyError\<close> that lists the known names in order.
\<close>

lemma generate_program_unknown:
  "if name \<in> set all_scenarios then \<exists>fs'. generate_program twister name seed len out fs = Inr fs'
   else generate_program twister name seed len out fs
     = Inl (KeyError (''unknown scenario '' @ repr_str name @ ''; available: '' @ repr_list (sort all_scenarios)))"
proof (cases "name \<in> set all_scenarios")
  case True
  obtain fn body s' where fn: "get_scenario name = Inr fn"
    and body: "fn len (gen_init (twister seed)) = Inr (body, s')" "body_ok name len body"
    by (rule known_program [OF True])
  from body_lines [OF body(2)] obtain ls where ls: "mapR program_line body = Inr ls" ..
  show ?thesis
    using True body(1) by (simp add: generate_program_def program_text_def fn gen_init_def ls)
next
  case False
  then have "map_of scenario_table name = None"
    by (auto simp: map_of_eq_None_iff scenario_table_def all_scenarios_def)
  moreover have "map fst scenario_table = all_scenarios" by (simp add: scenario_table_def all_scenarios_def)
  ultimately show ?thesis using False by (simp add: generate_program_def get_scenario_def)
qed

text \<open>The command line, with the options in the documented order.\<close>

definition generator_argv :: "string \<Rightarrow> int \<Rightarrow> int \<Rightarrow> string \<Rightarrow> string list" where
  "generator_argv name seed len out =
     [''--scenario'', name, ''--seed'', str_int seed, ''--length'', str_int len, ''--out'', out]"

lemma generator_long: "long_options GENERATOR_ARGS"
  by (simp add: long_options_def GENERATOR_ARGS_def takes_opt_def needs_opt_def starts_with_def)

lemma generator_tokens:
  assumes "plain_arg name" and "plain_arg out"
  shows "arg_tokens GENERATOR_ARGS (generator_argv name seed len out) = Inr
    [Option (c_opts GENERATOR_ARGS ! 0) None, Given name, Option (c_opts GENERATOR_ARGS ! 1) None, Given (str_int seed),
     Option (c_opts GENERATOR_ARGS ! 2) None, Given (str_int len), Option (c_opts GENERATOR_ARGS ! 3) None, Given out]"
proof -
  have f: "find_opt GENERATOR_ARGS ''--scenario'' None = Some (Option (c_opts GENERATOR_ARGS ! 0) None)"
    "find_opt GENERATOR_ARGS ''--seed'' None = Some (Option (c_opts GENERATOR_ARGS ! 1) None)"
    "find_opt GENERATOR_ARGS ''--length'' None = Some (Option (c_opts GENERATOR_ARGS ! 2) None)"
    "find_opt GENERATOR_ARGS ''--out'' None = Some (Option (c_opts GENERATOR_ARGS ! 3) None)"
    by (simp_all add: find_opt_def GENERATOR_ARGS_def takes_opt_def needs_opt_def)
  show ?thesis unfolding generator_argv_def
    by (simp add: tokens_option [OF f(1)] tokens_option [OF f(2)] tokens_option [OF f(3)] tokens_option [OF f(4)]
        tokens_int [OF generator_long] assms del: arg_tokens.simps(2))
qed

lemma generator_parse:
  assumes "plain_arg name" and "plain_path out"
  shows "parse_args GENERATOR_ARGS (generator_argv name seed len out) =
    (if name \<in> set all_scenarios
     then Inr ([(''--out'', AStr out), (''--length'', AInt len), (''--seed'', AInt seed), (''--scenario'', AStr name)]
       @ map (\<lambda>o'. (o_name o', o_default o')) (c_opts GENERATOR_ARGS))
     else arg_error)"
proof -
  have p: "plain_arg out" "path_norm out = out" using assms(2) by (simp_all add: plain_path_def)
  define o1 o2 o3 o4 where os: "o1 = c_opts GENERATOR_ARGS ! 0" "o2 = c_opts GENERATOR_ARGS ! 1"
    "o3 = c_opts GENERATOR_ARGS ! 2" "o4 = c_opts GENERATOR_ARGS ! 3"
  have o: "o_takes o1 = Some To_Str" "o_takes o2 = Some To_Int" "o_takes o3 = Some To_Int" "o_takes o4 = Some To_Path"
    "o_choices o1 = Some all_scenarios" "o_choices o2 = None" "o_choices o3 = None" "o_choices o4 = None"
    "o_name o1 = ''--scenario''" "o_name o2 = ''--seed''" "o_name o3 = ''--length''" "o_name o4 = ''--out''"
    by (simp_all add: os GENERATOR_ARGS_def takes_opt_def needs_opt_def)
  have i: "str_int i \<noteq> ''--''" for i using str_int_classify [OF generator_long] by simp
  have all: "o_required o' \<longrightarrow> o_name o' \<in> {''--out'', ''--length'', ''--seed'', ''--scenario''}"
    if "o' \<in> set (c_opts GENERATOR_ARGS)" for o'
    using that by (auto simp: GENERATOR_ARGS_def takes_opt_def needs_opt_def)
  show ?thesis
    unfolding parse_args_def generator_tokens [OF assms(1) p(1), folded os] bindR.simps
    using assms(1) p all
    by (auto simp: loop_option o loop_end one_value_plain i convert_arg_def arg_error_def GENERATOR_ARGS_def [THEN arg_cong, of c_pos]
        list_ex_iff image_iff)
qed

text \<open>
  C15. The command line of the generator, with the options in the documented order: for a registered scenario
  it writes the program made of the instructions that the scenario returns for the seed and the length, whatever they
  are, negative ones included, and the program is safe as in the previous property; any other name is refused
  by the choices of the option with exit code 2, before any file is touched.
\<close>

theorem generator_command_line:
  assumes "plain_arg name" and "plain_path out"
  shows "if name \<in> set all_scenarios
    then \<exists>fn body s' ls. get_scenario name = Inr fn \<and> fn len (gen_init (twister seed)) = Inr (body, s')
      \<and> safe_text (scenario_extra name \<union> {X0, X2}) (scenario_kind name) body \<and> len \<le> int (length body)
      \<and> mapR program_line body = Inr ls
      \<and> generator_main says twister (generator_argv name seed len out) w
        = (Inr (), w\<lparr>w_files := (w_files w)(out \<mapsto> header name seed len @ unlines ls @ footer)\<rparr>)
    else generator_main says twister (generator_argv name seed len out) w
      = (Inl (SystemExit 2), w\<lparr>w_err := w_err w @ says (generator_argv name seed len out)\<rparr>)"
proof (cases "name \<in> set all_scenarios")
  case True
  from generate_program_files [OF True, of len twister seed out "w_files w"] obtain fn body s' ls
    where g: "get_scenario name = Inr fn" "fn len (gen_init (twister seed)) = Inr (body, s')"
      "safe_text (scenario_extra name \<union> {X0, X2}) (scenario_kind name) body" "len \<le> int (length body)" "mapR program_line body = Inr ls"
      and p: "generate_program twister name seed len out (w_files w) = Inr ((w_files w)(out \<mapsto> header name seed len @ unlines ls @ footer))"
    by blast
  from p generator_parse [OF assms, of seed len] True
  have "generator_main says twister (generator_argv name seed len out) w
      = (Inr (), w\<lparr>w_files := (w_files w)(out \<mapsto> header name seed len @ unlines ls @ footer)\<rparr>)"
    by (simp add: generator_main_def parse_argsI_def bindI_ret str_arg_def int_arg_def arg_of_def)
  with g True show ?thesis by auto
next
  case False
  with generator_parse [OF assms, of seed len] show ?thesis
    by (simp add: generator_main_def parse_argsI_def arg_error_def bindI_def errI_def raiseI_def)
qed

theorem generator_command_line_witness:
  "\<exists>fn body s' ls. get_scenario ''traps'' = Inr fn \<and> fn 9 (gen_init [7]) = Inr (body, s')
     \<and> safe_text (scenario_extra ''traps'' \<union> {X0, X2}) (scenario_kind ''traps'') body \<and> mapR program_line body = Inr ls
     \<and> generator_main (\<lambda>_. ''usage'') (\<lambda>_. [7]) [''--scenario'', ''traps'', ''--seed'', str_int (- 3), ''--length'', str_int 9, ''--out'', ''b/p.S'']
       \<lparr>w_files = Map.empty, w_out = [], w_err = []\<rparr>
     = (Inr (), \<lparr>w_files = Map.empty(''b/p.S'' \<mapsto> header ''traps'' (- 3) 9 @ unlines ls @ footer), w_out = [], w_err = []\<rparr>)"
proof -
  have "plain_arg ''traps''" "plain_path ''b/p.S''"
    by (simp add: plain_arg_def) code_simp
  from generator_command_line [OF this, of 9 "\<lambda>_. [7]" "- 3" "\<lambda>_. ''usage''" "\<lparr>w_files = Map.empty, w_out = [], w_err = []\<rparr>"]
  show ?thesis by (simp add: generator_argv_def all_scenarios_def) blast
qed

section \<open>The loops of the bodies\<close>

text \<open>Every pass that returns has appended an instruction, from whatever state; a triple in raw_stress.\<close>

lemma ih_pass_appends: "ih_pass ptr v s = Inr ((is, v'), s') \<Longrightarrow> Suc 0 \<le> length is"
  unfolding ih_pass_def Let_def by (auto simp: bindM_eq_Inr retM_eq_Inr)

lemma md_pass_appends: "md_pass ptr v s = Inr ((is, v'), s') \<Longrightarrow> Suc 0 \<le> length is"
  unfolding md_pass_def Let_def by (auto simp: bindM_eq_Inr retM_eq_Inr split: prod.splits if_splits)

lemma mo_pass_appends: "mo_pass ptr ptr' v s = Inr ((is, v'), s') \<Longrightarrow> Suc 0 \<le> length is"
  unfolding mo_pass_def Let_def by (auto simp: bindM_eq_Inr retM_eq_Inr split: if_splits)

lemma fa_pass_appends: "fa_pass v s = Inr ((is, v'), s') \<Longrightarrow> Suc 0 \<le> length is"
  unfolding fa_pass_def Let_def by (auto simp: bindM_eq_Inr retM_eq_Inr split: if_splits)

lemma fd_pass_appends: "fd_pass s = Inr ((is, v'), s') \<Longrightarrow> Suc 0 \<le> length is"
  unfolding fd_pass_def Let_def by (auto simp: bindM_eq_Inr retM_eq_Inr split: if_splits)

lemma bp_pass_appends: "bp_pass v out s = Inr ((is, v'), s') \<Longrightarrow> Suc 0 \<le> length is"
  unfolding bp_pass_def Let_def by (auto simp: bindM_eq_Inr retM_eq_Inr split: prod.splits if_splits)

lemma tr_pass_appends: "tr_pass v s = Inr ((is, v'), s') \<Longrightarrow> Suc 0 \<le> length is"
  unfolding tr_pass_def Let_def by (auto simp: bindM_eq_Inr retM_eq_Inr split: if_splits)

lemma rs_pass_appends: "rs_pass s = Inr ((is, v'), s') \<Longrightarrow> 3 \<le> length is"
  unfolding rs_pass_def Let_def by (auto simp: bindM_eq_Inr retM_eq_Inr split: prod.splits)

lemmas pass_appends = ih_pass_appends md_pass_appends mo_pass_appends fa_pass_appends fd_pass_appends
  bp_pass_appends tr_pass_appends

text \<open>
  C17. The \<open>while len(out) < ...\<close> loop of every scenario ends, for every requested length (negative ones
  included), every random source and every register state it starts in: after at most one pass per requested
  instruction, and one per three instructions in raw_stress. A pass could append nothing and the loop go on for ever;
  no pass does, on any branch, and those of raw_stress append a triple. \<open>setup\<close>, \<open>marker\<close>,
  \<open>i\<close> and \<open>j\<close> are the instructions a scenario emits before its loop.
\<close>

theorem scenario_loops_end:
  "ends_within (max len 0) (len + int (length setup)) (\<lambda>recent_writes out. ih_pass ptr recent_writes) [] setup
   \<and> ends_within (max len 0) (len + int (length setup)) (\<lambda>v out. md_pass ptr v) (0, 99) setup
   \<and> ends_within (max len 0) (len + int (length setup)) (\<lambda>consec_mem out. mo_pass ptr atomic_ptr consec_mem) 0 setup
   \<and> ends_within (max len 0) len (\<lambda>rm_idx out. fa_pass rm_idx) 0 []
   \<and> ends_within (max len 0) len (\<lambda>_ out. fd_pass) () []
   \<and> ends_within (max (len - 1) 0) len bp_pass ([], 0) [marker]
   \<and> ends_within (max len 0) (len + int (length tr_prologue)) (\<lambda>trap_toggle out. tr_pass trap_toggle) 0 tr_prologue
   \<and> ends_within ((max len 0 + 2) div 3) (len + 2) (\<lambda>_ out. rs_pass) () [i, j]"
proof (intro conjI)
  show "ends_within ((max len 0 + 2) div 3) (len + 2) (\<lambda>_ out. rs_pass) () [i, j]"
    by (rule while_short_ends [where c = 3]) (auto dest: rs_pass_appends)
qed (rule while_short_ends [where c = 1], auto dest: pass_appends)+

end
