(* ===== verification/Diff_Child.thy ===== *)
theory Diff_Child
  imports Py_IO Trace_Diff
begin

text \<open>
  The comparison tool run by another tool as a child process: what the two runners assume when their
  diff script is \<open>tools/trace_diff.py\<close>, and what a successful run of it then says about the traces.
\<close>

text \<open>
  A child process that is the comparison tool itself: it runs \<open>trace_diff_main\<close> and leaves the files
  alone; an uncaught exception gives exit code 1.
\<close>

definition runs_trace_diff :: "exec \<Rightarrow> string list \<Rightarrow> bool" where
  "runs_trace_diff exec cmd \<longleftrightarrow> (\<forall>fs. exec cmd [] None fs =
     (Exited (case trace_diff_main cmd fs of Inr c \<Rightarrow> c | Inl e \<Rightarrow> \<lparr>returncode = 1, stdout = [], stderr = []\<rparr>), fs))"

text \<open>Its exit code is 0 exactly when both traces load and agree.\<close>

lemma diff_child_iff:
  assumes "runs_trace_diff exec (diff_argv script sn k s)" and "k \<noteq> ''--strip-noeffect''" and "s \<noteq> ''--strip-noeffect''"
  shows "returncode (result_of exec (diff_argv script sn k s) [] None fs) = 0
    \<longleftrightarrow> (\<exists>a b. load_trace fs k sn = Inr a \<and> load_trace fs s sn = Inr b \<and> agrees a b)"
proof -
  from assms(1) have "result_of exec (diff_argv script sn k s) [] None fs
      = (case trace_diff_main (diff_argv script sn k s) fs of Inr c \<Rightarrow> c | Inl e \<Rightarrow> \<lparr>returncode = 1, stdout = [], stderr = []\<rparr>)"
    by (simp add: runs_trace_diff_def result_of_def)
  then show ?thesis
    unfolding trace_diff_main_files [OF assms(2,3)] using compare_traces_iff
    by (cases "load_trace fs k sn"; cases "load_trace fs s sn") auto
qed

lemma diff_child_files: "runs_trace_diff exec cmd \<Longrightarrow> files_of exec cmd [] None fs = fs"
  by (simp add: runs_trace_diff_def files_of_def)

end
