(* ===== verification/Crv_Runner.thy ===== *)
theory Crv_Runner
  imports Crv_Generator Diff_Child
begin

text \<open>
  \<open>tools/crv/runner.py\<close>: one random program from generation to verdict. The program is generated,
  compiled and converted, run on the core and on the reference model, and the traces are compared by
  the diff script; every tool is a child process. Paths are strings, joined by \<open>path_join\<close>.
\<close>

section \<open>The commands\<close>

record crv_job =
  scen :: string
  seed :: int
  prog_len :: int
  build_dir :: string
  kronos_bin :: string
  link_script :: string
  common_s :: string
  sail_script :: string
  diff_script :: string

definition job_name :: "crv_job \<Rightarrow> string" where
  "job_name j = scen j @ ''_'' @ str_int (seed j)"

definition artefact :: "crv_job \<Rightarrow> string \<Rightarrow> string" where
  "artefact j f = path_join (path_join (build_dir j) (job_name j)) f"

definition gcc_cmd :: "crv_job \<Rightarrow> string list" where
  "gcc_cmd j = [''riscv64-unknown-elf-gcc'', ''-march=rv64imafdc_zicsr'', ''-mabi=lp64'', ''-nostdlib'', ''-static'',
     ''-T'' @ link_script j, artefact j ''prog.S'', common_s j, ''-o'', artefact j ''prog.elf'']"

definition objcopy_cmd :: "crv_job \<Rightarrow> string list" where
  "objcopy_cmd j = [''riscv64-unknown-elf-objcopy'', ''-O'', ''ihex'', artefact j ''prog.elf'', artefact j ''prog.hex'']"

definition vmem_cmd :: "crv_job \<Rightarrow> string list" where
  "vmem_cmd j = [''riscv64-unknown-elf-objcopy'', ''-O'', ''verilog'', ''--verilog-data-width'', ''4'',
     artefact j ''prog.elf'', artefact j ''prog.vmem'']"

definition kronos_cmd :: "crv_job \<Rightarrow> string list" where
  "kronos_cmd j = [kronos_bin j, artefact j ''prog.hex'']"

definition sail_cmd :: "crv_job \<Rightarrow> string list" where
  "sail_cmd j = [sail_script j, artefact j ''prog.elf'']"

definition diff_cmd :: "crv_job \<Rightarrow> string list" where
  "diff_cmd j = [diff_script j, artefact j ''kronos.trace'', artefact j ''sail.trace'']"

section \<open>The run\<close>

text \<open>\<open>generate_program\<close> on the files of the world.\<close>

definition generateI :: "(int \<Rightarrow> rng) \<Rightarrow> crv_job \<Rightarrow> unit io" where
  "generateI twister j = (\<lambda>w. case generate_program twister (scen j) (seed j) (prog_len j) (artefact j ''prog.S'') (w_files w) of
      Inl e \<Rightarrow> (Inl e, w)
    | Inr fs \<Rightarrow> (Inr (), w\<lparr>w_files := fs\<rparr>))"

text \<open>A step of the build: on failure the message and the child's error output, and exit code 2.\<close>

definition failI :: "crv_job \<Rightarrow> string \<Rightarrow> string \<Rightarrow> int io" where
  "failI j what err = bindI (errI (''[crv-runner] '' @ what @ '' failed for '' @ job_name j @ '':'' @ [CHR 0x0A] @ err @ [CHR 0x0A]))
     (\<lambda>_. retI 2)"

definition crv_run :: "exec \<Rightarrow> (int \<Rightarrow> rng) \<Rightarrow> crv_job \<Rightarrow> int io" where
  "crv_run exec twister j =
     bindI (generateI twister j) (\<lambda>_.
     bindI (runI exec (gcc_cmd j) [] None) (\<lambda>rc.
     if returncode rc \<noteq> 0 then failI j ''gcc'' (stderr rc)
     else bindI (runI exec (objcopy_cmd j) [] None) (\<lambda>rc.
     if returncode rc \<noteq> 0 then failI j ''objcopy'' (stderr rc)
     else bindI (runI exec (vmem_cmd j) [] None) (\<lambda>rc.
     if returncode rc \<noteq> 0 then failI j ''objcopy (vmem)'' (stderr rc)
     else bindI (runI exec (kronos_cmd j) [(''SIM_TRACE'', artefact j ''kronos.trace'')] None) (\<lambda>rc.
     if returncode rc \<noteq> 0 then failI j ''kronos run'' (take 500 (stderr rc))
     else bindI (runI exec (sail_cmd j) [] None) (\<lambda>sail_out.
     if returncode sail_out \<noteq> 0 then failI j ''sail run'' (take 500 (stderr sail_out))
     else bindI (writeI (artefact j ''sail.trace'') (stdout sail_out)) (\<lambda>_.
     bindI (runI exec (diff_cmd j) [] None) (\<lambda>diff.
     bindI (writeI (artefact j ''diff.txt'') (stdout diff @ [CHR 0x0A] @ ''--- stderr ---'' @ [CHR 0x0A] @ stderr diff)) (\<lambda>_.
     if returncode diff \<noteq> 0
     then bindI (errI (unlines [''[crv-runner] DIVERGENCE in '' @ job_name j])) (\<lambda>_.
          bindI (errI (unlines [''  artefacts: '' @ path_join (build_dir j) (job_name j)])) (\<lambda>_. retI 1))
     else bindI (eachI (\<lambda>f. unlinkI (artefact j f)) [''kronos.trace'', ''sail.trace'', ''diff.txt'']) (\<lambda>_. retI 0))))))))))"

text \<open>\<open>main\<close> exits with the code of the run.\<close>

definition crv_main :: "exec \<Rightarrow> (int \<Rightarrow> rng) \<Rightarrow> crv_job \<Rightarrow> unit io" where
  "crv_main exec twister j = bindI (crv_run exec twister j) (\<lambda>rc. raiseI (SystemExit rc))"

text \<open>The command line.\<close>

definition RUNNER_ARGS :: cli where
  "RUNNER_ARGS = \<lparr>c_opts = [needs_opt ''--scenario'' To_Str, needs_opt ''--seed'' To_Int,
     (takes_opt ''--length'' To_Int)\<lparr>o_default := AInt 200\<rparr>, needs_opt ''--build-dir'' To_Path, needs_opt ''--kronos-bin'' To_Path,
     needs_opt ''--link-script'' To_Path, needs_opt ''--common-s'' To_Path, needs_opt ''--sail-trace-script'' To_Path,
     needs_opt ''--diff-script'' To_Path], c_pos = []\<rparr>"

definition job_of :: "namespace \<Rightarrow> crv_job" where
  "job_of ns = \<lparr>scen = str_arg ns ''--scenario'', seed = int_arg ns ''--seed'', prog_len = int_arg ns ''--length'',
     build_dir = str_arg ns ''--build-dir'', kronos_bin = str_arg ns ''--kronos-bin'', link_script = str_arg ns ''--link-script'',
     common_s = str_arg ns ''--common-s'', sail_script = str_arg ns ''--sail-trace-script'', diff_script = str_arg ns ''--diff-script''\<rparr>"

definition crv_cli :: "(string list \<Rightarrow> string) \<Rightarrow> exec \<Rightarrow> (int \<Rightarrow> rng) \<Rightarrow> string list \<Rightarrow> unit io" where
  "crv_cli says exec twister argv = bindI (parse_argsI says RUNNER_ARGS argv) (\<lambda>ns. crv_main exec twister (job_of ns))"

section \<open>The stages\<close>

text \<open>The commands before the comparison, with their environments, in order.\<close>

definition stages :: "crv_job \<Rightarrow> (string list \<times> (string \<times> string) list) list" where
  "stages j = [(gcc_cmd j, []), (objcopy_cmd j, []), (vmem_cmd j, []),
     (kronos_cmd j, [(''SIM_TRACE'', artefact j ''kronos.trace'')]), (sail_cmd j, [])]"

text \<open>
  The specification of the pipeline: run the commands until one fails; the last result, the files after
  it, and whether all succeeded.
\<close>

fun pipeline :: "exec \<Rightarrow> (string list \<times> (string \<times> string) list) list \<Rightarrow> files \<Rightarrow> bool \<times> completed \<times> files" where
  "pipeline exec [] fs = (True, \<lparr>returncode = 0, stdout = [], stderr = []\<rparr>, fs)"
| "pipeline exec ((cmd, env) # cs) fs =
     (let c = result_of exec cmd env None fs; fs' = files_of exec cmd env None fs in
      if returncode c \<noteq> 0 then (False, c, fs') else if cs = [] then (True, c, fs') else pipeline exec cs fs')"

lemma generateI_known:
  assumes "scen j \<in> set all_scenarios"
  obtains ls where "generate_program twister (scen j) (seed j) (prog_len j) (artefact j ''prog.S'') (w_files w)
      = Inr ((w_files w)(artefact j ''prog.S'' \<mapsto> header (scen j) (seed j) (prog_len j) @ unlines ls @ footer))"
    and "generateI twister j w = (Inr (), w\<lparr>w_files := (w_files w)(artefact j ''prog.S'' \<mapsto>
           header (scen j) (seed j) (prog_len j) @ unlines ls @ footer)\<rparr>)"
  using generate_program_files [OF assms, of "prog_len j" twister "seed j" "artefact j ''prog.S''" "w_files w"]
  by (auto simp: generateI_def)

definition diff_text :: "completed \<Rightarrow> string" where
  "diff_text d = stdout d @ [CHR 0x0A] @ ''--- stderr ---'' @ [CHR 0x0A] @ stderr d"

text \<open>What a run amounts to, in terms of the pipeline of commands and the comparison after it.\<close>

lemma crv_run_stages:
  assumes fin: "finishes exec" and "scen j \<in> set all_scenarios"
  shows "\<exists>ls rc w'. crv_run exec twister j w = (Inr rc, w') \<and>
    generate_program twister (scen j) (seed j) (prog_len j) (artefact j ''prog.S'') (w_files w)
      = Inr ((w_files w)(artefact j ''prog.S'' \<mapsto> header (scen j) (seed j) (prog_len j) @ unlines ls @ footer)) \<and>
    (case pipeline exec (stages j) ((w_files w)(artefact j ''prog.S'' \<mapsto> header (scen j) (seed j) (prog_len j) @ unlines ls @ footer)) of
       (ok, c, fs1) \<Rightarrow>
         (let fs2 = fs1(artefact j ''sail.trace'' \<mapsto> stdout c); d = result_of exec (diff_cmd j) [] None fs2 in
          rc = (if \<not> ok then 2 else if returncode d \<noteq> 0 then 1 else 0) \<and>
          (rc = 1 \<longrightarrow> w_files w' = (files_of exec (diff_cmd j) [] None fs2)(artefact j ''diff.txt'' \<mapsto> diff_text d)) \<and>
          (rc = 1 \<longrightarrow> w_files w' (artefact j ''diff.txt'') = Some (diff_text d)) \<and>
          (rc = 0 \<longrightarrow> (\<forall>f \<in> set [''kronos.trace'', ''sail.trace'', ''diff.txt'']. w_files w' (artefact j f) = None))))"
proof -
  obtain ls where gen: "generate_program twister (scen j) (seed j) (prog_len j) (artefact j ''prog.S'') (w_files w)
      = Inr ((w_files w)(artefact j ''prog.S'' \<mapsto> header (scen j) (seed j) (prog_len j) @ unlines ls @ footer))"
    "generateI twister j w = (Inr (), w\<lparr>w_files := (w_files w)(artefact j ''prog.S'' \<mapsto>
           header (scen j) (seed j) (prog_len j) @ unlines ls @ footer)\<rparr>)"
    by (rule generateI_known [OF assms(2)])
  show ?thesis
    unfolding crv_run_def bindI_done [of "generateI twister j" w, OF gen(2)]
    by (rule exI [of _ ls])
       (simp add: gen(1) runI_finishes [OF fin] stages_def failI_def diff_text_def Let_def io_simps unlink_def)
qed

lemma artefact_not_flag: "f \<noteq> ''--strip-noeffect'' \<Longrightarrow> artefact j f \<noteq> ''--strip-noeffect''"
  unfolding artefact_def using path_join_slash [of "path_join (build_dir j) (job_name j)" f] by auto

lemma diff_cmd_argv: "diff_cmd j = diff_argv (diff_script j) False (artefact j ''kronos.trace'') (artefact j ''sail.trace'')"
  by (simp add: diff_cmd_def diff_argv_def)

text \<open>The exit code 0 of a run, when its files and its commands are given.\<close>

lemma crv_run_zero:
  assumes "finishes exec" and "scen j \<in> set all_scenarios"
    and "generate_program twister (scen j) (seed j) (prog_len j) (artefact j ''prog.S'') (w_files w) = Inr fs0"
    and "pipeline exec (stages j) fs0 = (ok, c, fs1)"
  shows "fst (crv_run exec twister j w) = Inr 0
    \<longleftrightarrow> ok \<and> returncode (result_of exec (diff_cmd j) [] None (fs1(artefact j ''sail.trace'' \<mapsto> stdout c))) = 0"
proof -
  from crv_run_stages [OF assms(1,2), of twister w] show ?thesis
  proof (elim exE conjE, goal_cases)
    case (1 ls rc w')
    from 1(2) assms(3) have "(w_files w)(artefact j ''prog.S'' \<mapsto> header (scen j) (seed j) (prog_len j) @ unlines ls @ footer) = fs0" by simp
    from 1(3) [unfolded this assms(4)] 1(1) show ?case by (simp add: Let_def)
  qed
qed

section \<open>Properties\<close>

text \<open>
  C22. For a known scenario, with tools that run to completion, the runner never raises. It generates the
  program for the seed and the length and runs the commands on it: it exits 2 when
  a command before the comparison fails, 1 when the comparison fails, keeping its output and every file the
  tools have left, the traces among them, and 0 otherwise, removing the traces and the comparison's output.
\<close>

theorem crv_run_exit_code:
  assumes "finishes exec" and "scen j \<in> set all_scenarios"
  shows "\<exists>ls rc w'. crv_run exec twister j w = (Inr rc, w') \<and>
    generate_program twister (scen j) (seed j) (prog_len j) (artefact j ''prog.S'') (w_files w)
      = Inr ((w_files w)(artefact j ''prog.S'' \<mapsto> header (scen j) (seed j) (prog_len j) @ unlines ls @ footer)) \<and>
    (case pipeline exec (stages j) ((w_files w)(artefact j ''prog.S'' \<mapsto> header (scen j) (seed j) (prog_len j) @ unlines ls @ footer)) of
       (ok, c, fs1) \<Rightarrow>
         (let fs2 = fs1(artefact j ''sail.trace'' \<mapsto> stdout c); d = result_of exec (diff_cmd j) [] None fs2 in
          rc = (if \<not> ok then 2 else if returncode d \<noteq> 0 then 1 else 0) \<and>
          (rc = 1 \<longrightarrow> w_files w' = (files_of exec (diff_cmd j) [] None fs2)(artefact j ''diff.txt'' \<mapsto> diff_text d)) \<and>
          (rc = 1 \<longrightarrow> w_files w' (artefact j ''diff.txt'') = Some (diff_text d)) \<and>
          (rc = 0 \<longrightarrow> (\<forall>f \<in> set [''kronos.trace'', ''sail.trace'', ''diff.txt'']. w_files w' (artefact j f) = None))))"
  using assms by (rule crv_run_stages)

definition demo_job :: crv_job where
  "demo_job = \<lparr>scen = ''traps'', seed = 1, prog_len = 10, build_dir = ''b'', kronos_bin = ''k'', link_script = ''l'',
     common_s = ''c'', sail_script = ''s'', diff_script = ''d''\<rparr>"

definition idle_exec :: exec where
  "idle_exec cmd env limit fs = (Exited \<lparr>returncode = 0, stdout = [], stderr = []\<rparr>, fs)"

lemma idle_finishes: "finishes idle_exec"
  by (simp add: finishes_def idle_exec_def)

theorem crv_run_exit_code_witness:
  "\<exists>ls rc w'. crv_run idle_exec (\<lambda>_. [1, 2]) demo_job \<lparr>w_files = Map.empty, w_out = [], w_err = []\<rparr> = (Inr rc, w') \<and>
    generate_program (\<lambda>_. [1, 2]) (scen demo_job) (seed demo_job) (prog_len demo_job) (artefact demo_job ''prog.S'') (w_files \<lparr>w_files = Map.empty, w_out = [], w_err = []\<rparr>)
      = Inr ((w_files \<lparr>w_files = Map.empty, w_out = [], w_err = []\<rparr>)(artefact demo_job ''prog.S'' \<mapsto> header (scen demo_job) (seed demo_job) (prog_len demo_job) @ unlines ls @ footer)) \<and>
    (case pipeline idle_exec (stages demo_job) ((w_files \<lparr>w_files = Map.empty, w_out = [], w_err = []\<rparr>)(artefact demo_job ''prog.S'' \<mapsto> header (scen demo_job) (seed demo_job) (prog_len demo_job) @ unlines ls @ footer)) of
       (ok, c, fs1) \<Rightarrow>
         (let fs2 = fs1(artefact demo_job ''sail.trace'' \<mapsto> stdout c); d = result_of idle_exec (diff_cmd demo_job) [] None fs2 in
          rc = (if \<not> ok then 2 else if returncode d \<noteq> 0 then 1 else 0) \<and>
          (rc = 1 \<longrightarrow> w_files w' = (files_of idle_exec (diff_cmd demo_job) [] None fs2)(artefact demo_job ''diff.txt'' \<mapsto> diff_text d)) \<and>
          (rc = 1 \<longrightarrow> w_files w' (artefact demo_job ''diff.txt'') = Some (diff_text d)) \<and>
          (rc = 0 \<longrightarrow> (\<forall>f \<in> set [''kronos.trace'', ''sail.trace'', ''diff.txt'']. w_files w' (artefact demo_job f) = None))))"
  by (rule crv_run_exit_code [OF idle_finishes]) (simp add: demo_job_def all_scenarios_def)

text \<open>
  C23. When the diff script is \<open>trace_diff.py\<close>, exit code 0 means exactly that the traces of this run agree: run on
  the files with the generated program, the build, the core and the reference model all succeed, and
  the files they leave, with the reference model's output saved, hold two traces that load and agree, the core's lines
  being an aligned final segment of the reference's.
\<close>

theorem crv_pass_agrees:
  assumes "finishes exec" and "scen j \<in> set all_scenarios" and "runs_trace_diff exec (diff_cmd j)"
    and "generate_program twister (scen j) (seed j) (prog_len j) (artefact j ''prog.S'') (w_files w) = Inr fs0"
    and "pipeline exec (stages j) fs0 = (ok, sail, fs1)" and "fs2 = fs1(artefact j ''sail.trace'' \<mapsto> stdout sail)"
  shows "fst (crv_run exec twister j w) = Inr 0 \<longleftrightarrow> ok \<and>
    (\<exists>a b. load_trace fs2 (artefact j ''kronos.trace'') False = Inr a
      \<and> load_trace fs2 (artefact j ''sail.trace'') False = Inr b \<and> agrees a b)"
  unfolding crv_run_zero [OF assms(1,2,4,5)] assms(6) [symmetric]
  unfolding diff_cmd_argv diff_child_iff [OF assms(3) [unfolded diff_cmd_argv] artefact_not_flag artefact_not_flag, simplified] by blast

text \<open>Tools for the example: every command prints one trace line, and the core's run leaves it in its file.\<close>

definition demo_exec :: exec where
  "demo_exec cmd env limit fs =
     (if cmd = diff_cmd demo_job
      then (Exited (case trace_diff_main cmd fs of Inr c \<Rightarrow> c | Inl e \<Rightarrow> \<lparr>returncode = 1, stdout = [], stderr = []\<rparr>), fs)
      else (Exited \<lparr>returncode = 0, stdout = ''1:13'', stderr = []\<rparr>,
            if cmd = kronos_cmd demo_job then fs(artefact demo_job ''kronos.trace'' \<mapsto> ''1:13'') else fs))"

lemma demo_exec_runs: "finishes demo_exec" "runs_trace_diff demo_exec (diff_cmd demo_job)"
  by (simp_all add: finishes_def runs_trace_diff_def demo_exec_def)

lemma demo_pipeline:
  "\<exists>fs1. pipeline demo_exec (stages demo_job) fs = (True, \<lparr>returncode = 0, stdout = ''1:13'', stderr = []\<rparr>, fs1)
      \<and> fs1 (artefact demo_job ''kronos.trace'') = Some ''1:13''"
proof -
  have "gcc_cmd demo_job \<noteq> diff_cmd demo_job" "objcopy_cmd demo_job \<noteq> diff_cmd demo_job"
    "vmem_cmd demo_job \<noteq> diff_cmd demo_job" "kronos_cmd demo_job \<noteq> diff_cmd demo_job"
    "sail_cmd demo_job \<noteq> diff_cmd demo_job" "sail_cmd demo_job \<noteq> kronos_cmd demo_job"
    "gcc_cmd demo_job \<noteq> kronos_cmd demo_job" "objcopy_cmd demo_job \<noteq> kronos_cmd demo_job"
    "vmem_cmd demo_job \<noteq> kronos_cmd demo_job"
    by (simp_all add: gcc_cmd_def objcopy_cmd_def vmem_cmd_def kronos_cmd_def sail_cmd_def diff_cmd_def demo_job_def)
  then show ?thesis by (simp add: stages_def demo_exec_def result_of_def files_of_def Let_def)
qed

theorem crv_pass_agrees_witness:
  "\<exists>fs0 sail fs1 a b. generate_program (\<lambda>_. [1, 2]) ''traps'' 1 10 (artefact demo_job ''prog.S'') Map.empty = Inr fs0
    \<and> pipeline demo_exec (stages demo_job) fs0 = (True, sail, fs1)
    \<and> load_trace (fs1(artefact demo_job ''sail.trace'' \<mapsto> stdout sail)) (artefact demo_job ''kronos.trace'') False = Inr a
    \<and> load_trace (fs1(artefact demo_job ''sail.trace'' \<mapsto> stdout sail)) (artefact demo_job ''sail.trace'') False = Inr b \<and> agrees a b
    \<and> fst (crv_run demo_exec (\<lambda>_. [1, 2]) demo_job \<lparr>w_files = Map.empty, w_out = [], w_err = []\<rparr>) = Inr 0"
proof -
  let ?w = "\<lparr>w_files = Map.empty, w_out = [], w_err = []\<rparr> :: world"
  have known: "scen demo_job \<in> set all_scenarios" by (simp add: demo_job_def all_scenarios_def)
  have job: "scen demo_job = ''traps''" "seed demo_job = 1" "prog_len demo_job = 10" by (simp_all add: demo_job_def)
  obtain ls where gen: "generate_program (\<lambda>_. [1, 2]) (scen demo_job) (seed demo_job) (prog_len demo_job) (artefact demo_job ''prog.S'') (w_files ?w)
      = Inr ((w_files ?w)(artefact demo_job ''prog.S'' \<mapsto> header (scen demo_job) (seed demo_job) (prog_len demo_job) @ unlines ls @ footer))"
    by (rule generateI_known [OF known])
  then obtain fs0 where gen: "generate_program (\<lambda>_. [1, 2]) (scen demo_job) (seed demo_job) (prog_len demo_job) (artefact demo_job ''prog.S'') (w_files ?w)
      = Inr fs0" by blast
  obtain fs1 where pipe: "pipeline demo_exec (stages demo_job) fs0 = (True, \<lparr>returncode = 0, stdout = ''1:13'', stderr = []\<rparr>, fs1)"
    and k: "fs1 (artefact demo_job ''kronos.trace'') = Some ''1:13''" using demo_pipeline by blast
  have traces: "artefact demo_job ''kronos.trace'' \<noteq> artefact demo_job ''sail.trace''" by (simp add: artefact_def path_join_def)
  have "load_lines False (splitlines (universal_newlines ''1:13'')) = [''1:13'']" by code_simp
  then have load: "load_trace (fs1(artefact demo_job ''sail.trace'' \<mapsto> ''1:13'')) (artefact demo_job f) False = Inr [''1:13'']"
    if "f = ''kronos.trace'' \<or> f = ''sail.trace''" for f
    using that k traces by (auto simp: load_trace_def read_text_def)
  have "agrees [''1:13''] [''1:13'']" by (simp add: agrees_refl)
  with crv_pass_agrees [OF demo_exec_runs(1) known demo_exec_runs(2) gen pipe refl] load gen pipe
  show ?thesis unfolding job by (intro exI conjI) auto
qed

end
