(* ===== verification/Coverage_Gate.thy ===== *)
theory Coverage_Gate
  imports Py_Argparse
begin

text \<open>
  \<open>tools/coverage_gate.py\<close>: the gate on functional coverage (a file of bins with hit flags) and on line
  coverage (an LCOV file). The record \<open>gate_args\<close> is the parsed command line. Characters outside the
  range of \<open>char\<close> in the messages are written as their UTF-8 bytes.
\<close>

record gate_args =
  functional :: "string option"
  exclude_bins :: "string option"
  threshold :: "number option"
  info_file :: "string option"

definition em_dash :: string where
  "em_dash = [CHR 0xE2, CHR 0x80, CHR 0x94]"

text \<open>The lines a file's loop sees after \<open>strip\<close>, without the blank and the comment lines.\<close>

definition content_lines :: "string \<Rightarrow> string list" where
  "content_lines text = filter (\<lambda>l. \<not> (l = [] \<or> starts_with ''#'' l)) (map strip (file_lines text))"

definition load_excludes :: "files \<Rightarrow> string option \<Rightarrow> string list result" where
  "load_excludes fs path = (case path of
      None \<Rightarrow> Inr []
    | Some p \<Rightarrow> bindR (read_text fs p) (\<lambda>text. Inr (remdups (content_lines text))))"

section \<open>Functional coverage\<close>

record counts =
  total :: nat
  hit :: nat
  misses :: "string list"

definition count_bin :: "string list \<Rightarrow> counts \<Rightarrow> string \<Rightarrow> counts" where
  "count_bin excluded c line = (case rsplit_ws1 line of
      [n, v] \<Rightarrow> (let name = strip n; val = strip v in
        if name \<in> set excluded then c
        else if val \<noteq> ''0'' then c\<lparr>total := total c + 1, hit := hit c + 1\<rparr>
        else c\<lparr>total := total c + 1, misses := misses c @ [name]\<rparr>)
    | _ \<Rightarrow> c)"

definition percent :: "nat \<Rightarrow> nat \<Rightarrow> pyfloat" where
  "percent h t = fl (fl (100 * of_nat h) / of_nat t)"

definition run_functional :: "gate_args \<Rightarrow> string \<Rightarrow> files \<Rightarrow> completed result" where
  "run_functional args path fs =
     bindR (load_excludes fs (exclude_bins args)) (\<lambda>excluded.
     (let limit = (case threshold args of Some t \<Rightarrow> t | None \<Rightarrow> number_of 100) in
     bindR (read_text fs path) (\<lambda>text.
     (let c = foldl (count_bin excluded) \<lparr>total = 0, hit = 0, misses = []\<rparr> (content_lines text) in
      if total c = 0
      then Inr \<lparr>returncode = 2, stdout = [], stderr = unlines [''ERROR: no bins found in functional coverage file.'']\<rparr>
      else (let pct = percent (hit c) (total c);
                status = (if num_le limit (number_of pct) then ''PASS'' else ''FAIL'')
            in Inr \<lparr>returncode = (if num_le limit (number_of pct) then 0 else 1),
                 stdout = unlines ((status @ '': functional coverage '' @ str_int (int (hit c)) @ ''/'' @ str_int (int (total c))
                   @ '' = '' @ fmt_fixed 1 pct @ ''%  (threshold '' @ fmt_number 0 limit @ ''%)  excluded ''
                   @ str_int (int (length excluded)))
                   # map (\<lambda>m. ''  MISS: '' @ m) (misses c)),
                 stderr = []\<rparr>)))))"

section \<open>Line coverage\<close>

definition DA_RE :: rx where
  "DA_RE = seqs [Bol, lit ''DA:'', Grp 1 digits, lit '','', Grp 2 digits]"

text \<open>The loop's state: whether the current source file is skipped, and the counters.\<close>

definition count_line :: "bool \<times> nat \<times> nat \<Rightarrow> string \<Rightarrow> bool \<times> nat \<times> nat" where
  "count_line s line = (case s of (skip, t, h) \<Rightarrow>
     if starts_with ''SF:'' line then (starts_with ''../tb/'' (strip (drop 3 line)), t, h)
     else if skip then (skip, t, h)
     else (case re_match DA_RE line of
         Some m \<Rightarrow> (skip, t + 1, if 0 < dec_value (group m 2) then h + 1 else h)
       | None \<Rightarrow> (skip, t, h)))"

definition run_line :: "gate_args \<Rightarrow> string \<Rightarrow> files \<Rightarrow> completed result" where
  "run_line args path fs =
     (let limit = (case threshold args of Some t \<Rightarrow> t | None \<Rightarrow> number_of 95) in
     bindR (read_text fs path) (\<lambda>text.
     (case foldl count_line (False, 0, 0) (file_lines text) of (_, t, h) \<Rightarrow>
       if t = 0
       then Inr \<lparr>returncode = 2, stdout = [],
         stderr = unlines [''ERROR: no DA lines in coverage file '' @ em_dash @ '' was it built with --coverage-line?'']\<rparr>
       else (let pct = percent h t;
                 status = (if num_le limit (number_of pct) then ''PASS'' else ''FAIL'')
             in Inr \<lparr>returncode = (if num_le limit (number_of pct) then 0 else 1),
                  stdout = unlines [status @ '': line coverage '' @ str_int (int h) @ ''/'' @ str_int (int t) @ '' = ''
                    @ fmt_fixed 1 pct @ ''%  (threshold '' @ fmt_number 0 limit @ ''%)''],
                  stderr = []\<rparr>))))"

text \<open>\<open>main\<close>; the help text printed when no mode is chosen is \<open>argparse\<close>'s, a parameter.\<close>

definition coverage_gate_main :: "string \<Rightarrow> gate_args \<Rightarrow> files \<Rightarrow> completed result" where
  "coverage_gate_main help args fs = (case functional args of
      Some p \<Rightarrow> if p \<noteq> [] then run_functional args p fs
        else (case info_file args of
            Some q \<Rightarrow> if q \<noteq> [] then run_line args q fs else Inr \<lparr>returncode = 2, stdout = [], stderr = help\<rparr>
          | None \<Rightarrow> Inr \<lparr>returncode = 2, stdout = [], stderr = help\<rparr>)
    | None \<Rightarrow> (case info_file args of
            Some q \<Rightarrow> if q \<noteq> [] then run_line args q fs else Inr \<lparr>returncode = 2, stdout = [], stderr = help\<rparr>
          | None \<Rightarrow> Inr \<lparr>returncode = 2, stdout = [], stderr = help\<rparr>))"

text \<open>The command line.\<close>

definition GATE_ARGS :: cli where
  "GATE_ARGS = \<lparr>c_opts = [takes_opt ''--functional'' To_Str, takes_opt ''--exclude-bins'' To_Str, takes_opt ''--threshold'' To_Float],
     c_pos = [\<lparr>p_name = ''info_file'', p_nargs = Maybe, p_conv = To_Str\<rparr>]\<rparr>"

definition coverage_gate_cli :: "(string list \<Rightarrow> string) \<Rightarrow> string \<Rightarrow> string list \<Rightarrow> int io" where
  "coverage_gate_cli says help argv = bindI (parse_argsI says GATE_ARGS argv) (\<lambda>ns.
     completedI (coverage_gate_main help \<lparr>functional = opt_arg ns ''--functional'', exclude_bins = opt_arg ns ''--exclude-bins'',
       threshold = float_arg ns ''--threshold'', info_file = opt_arg ns ''info_file''\<rparr>))"

section \<open>Percentages\<close>

text \<open>
  Only a full score reaches 100: the quotient of a smaller count is below 100 by more than half a unit
  in the last place, for up to \<open>2 ^ 46\<close> bins.
\<close>

lemma percent_full:
  assumes "h \<le> t" and "0 < t" and "t \<le> 2 ^ 46"
  shows "100 \<le> percent h t \<longleftrightarrow> h = t"
proof -
  have exact: "fl (100 * of_nat h) = 100 * of_nat h"
    using fl_of_nat [of "100 * h"] assms by simp
  show ?thesis
  proof (cases "h = t")
    case True
    then have "percent h t = fl (of_nat 100)" using exact assms(2) by (simp add: percent_def)
    also have "\<dots> = of_nat 100" by (rule fl_of_nat) simp
    finally show ?thesis using True by simp
  next
    case False
    let ?top = "100 - 1 / 2 ^ 46 :: rat"
    have top: "?top = of_int (100 * 2 ^ 46 - 1) * 2 powi (- 46)" by (simp add: power_int_def field_simps)
    have flt: "fl ?top = ?top" by (rule fl_exact [OF top]) simp_all
    from False assms(1) have "Suc h \<le> t" by simp
    then have "(of_nat (Suc h) :: rat) \<le> of_nat t" unfolding of_nat_le_iff .
    then have h: "(of_nat h :: rat) \<le> of_nat t - 1" by simp
    have "(of_nat t :: rat) \<le> of_nat (2 ^ 46)" using assms(3) unfolding of_nat_le_iff .
    then have t: "(of_nat t :: rat) \<le> 2 ^ 46" by simp
    from h t have "100 * of_nat h \<le> ?top * of_nat t" by (simp add: algebra_simps)
    then have "100 * of_nat h / of_nat t \<le> ?top" using assms(2) by (simp add: pos_divide_le_eq)
    then have "percent h t \<le> fl ?top" unfolding percent_def exact by (intro fl_mono) simp_all
    also note flt
    finally show ?thesis using False by (simp add: field_simps)
  qed
qed

section \<open>The bins of a file\<close>

definition bin_of :: "string \<Rightarrow> (string \<times> string) option" where
  "bin_of line = (case rsplit_ws1 line of [n, v] \<Rightarrow> Some (strip n, strip v) | _ \<Rightarrow> None)"

definition bins_of :: "string \<Rightarrow> (string \<times> string) list" where
  "bins_of text = List.map_filter bin_of (content_lines text)"

definition gated :: "string list \<Rightarrow> string \<Rightarrow> (string \<times> string) list" where
  "gated excluded text = filter (\<lambda>(n, v). n \<notin> set excluded) (bins_of text)"

lemma count_bin_of:
  "count_bin ex c line = (case bin_of line of
      Some (n, v) \<Rightarrow> if n \<in> set ex then c
        else if v \<noteq> ''0'' then c\<lparr>total := total c + 1, hit := hit c + 1\<rparr>
        else c\<lparr>total := total c + 1, misses := misses c @ [n]\<rparr>
    | None \<Rightarrow> c)"
  by (simp add: count_bin_def bin_of_def Let_def split: list.split)

lemma count_bins:
  "foldl (count_bin ex) c ls = (let bs = filter (\<lambda>(n, v). n \<notin> set ex) (List.map_filter bin_of ls) in
     c\<lparr>total := total c + length bs, hit := hit c + length (filter (\<lambda>(n, v). v \<noteq> ''0'') bs),
       misses := misses c @ map fst (filter (\<lambda>(n, v). v = ''0'') bs)\<rparr>)"
proof (induction ls arbitrary: c)
  case (Cons l ls)
  then show ?case by (auto simp: count_bin_of map_filter_simps Let_def split: option.split prod.split)
qed (simp add: map_filter_simps)

lemma length_filter_all: "length (filter P xs) = length xs \<longleftrightarrow> (\<forall>x \<in> set xs. P x)"
proof (cases "\<forall>x \<in> set xs. P x")
  case False
  then obtain x where "x \<in> set xs" "\<not> P x" by blast
  from length_filter_less [of x xs P, OF this] False show ?thesis by simp
qed simp

lemma run_functional_code:
  assumes "load_excludes fs (exclude_bins args) = Inr ex" and "read_text fs p = Inr text"
    and "threshold args = None" and "length (gated ex text) \<le> 2 ^ 46"
  shows "\<exists>out. run_functional args p fs = Inr out \<and> returncode out =
    (if gated ex text = [] then 2 else if \<forall>(n, v) \<in> set (gated ex text). v \<noteq> ''0'' then 0 else 1)"
proof -
  let ?bs = "gated ex text" and ?hit = "length (filter (\<lambda>(n, v). v \<noteq> ''0'') (gated ex text))"
  have fold: "foldl (count_bin ex) \<lparr>total = 0, hit = 0, misses = []\<rparr> (content_lines text) =
      \<lparr>total = length ?bs, hit = ?hit, misses = map fst (filter (\<lambda>(n, v). v = ''0'') ?bs)\<rparr>"
    by (simp add: count_bins gated_def bins_of_def Let_def)
  have full: "?bs \<noteq> [] \<Longrightarrow> 100 \<le> percent ?hit (length ?bs) \<longleftrightarrow> (\<forall>(n, v) \<in> set ?bs. v \<noteq> ''0'')"
    using percent_full [of ?hit "length ?bs"] assms(4) by (simp add: length_filter_all)
  show ?thesis using full by (simp add: run_functional_def assms(1-3) fold Let_def)
qed

section \<open>Properties\<close>

text \<open>
  C25. The functional gate with its default threshold passes exactly when every bin that is not excluded
  was hit, and fails with code 2 when there is no such bin: the percentage, computed in floating point,
  never rounds a partial score up to 100.
\<close>

theorem functional_gate_exact:
  assumes "load_excludes fs (exclude_bins args) = Inr ex" and "read_text fs p = Inr text"
    and "functional args = Some p" and "p \<noteq> []"
    and "threshold args = None" and "length (gated ex text) \<le> 2 ^ 46"
  shows "\<exists>out. coverage_gate_main help args fs = Inr out \<and> returncode out =
    (if gated ex text = [] then 2 else if \<forall>(n, v) \<in> set (gated ex text). v \<noteq> ''0'' then 0 else 1)"
  using run_functional_code [OF assms(1,2,5,6)] by (simp add: coverage_gate_main_def assms(3,4))

theorem functional_gate_exact_witness:
  "let text = unlines [''alu.add  1'', ''alu.sub  1''];
       args = \<lparr>functional = Some ''m'', exclude_bins = None, threshold = None, info_file = None\<rparr>
   in \<exists>out. coverage_gate_main [] args [''m'' \<mapsto> text] = Inr out \<and> returncode out =
    (if gated [] text = [] then 2 else if \<forall>(n, v) \<in> set (gated [] text). v \<noteq> ''0'' then 0 else 1)"
proof -
  let ?text = "unlines [''alu.add  1'', ''alu.sub  1'']"
  have "CHR 0x0D \<notin> set ?text" by (simp add: unlines_def)
  then have "read_text [''m'' \<mapsto> ?text] ''m'' = Inr ?text"
    using universal_newlines_id by (simp add: read_text_def)
  moreover have "length (gated [] ?text) = 2" by code_simp
  ultimately show ?thesis unfolding Let_def
    by (intro functional_gate_exact [where p = "''m''"]) (simp_all add: load_excludes_def)
qed

end
