(* ===== verification/Cov_Merge.thy ===== *)
theory Cov_Merge
  imports Coverage_Gate Py_Argparse "HOL-Library.AList"
begin

text \<open>
  \<open>tools/crv_cov_merge.py\<close>: the merge of the scenarios' coverage files by a bitwise or per bin, and the
  summary it prints. A Python dict, which keeps the order of first insertion, is an association list
  updated by \<open>AList.update\<close>. The box characters of the summary are written as their UTF-8 bytes; the
  creation of the output's parent directory is not modelled.
\<close>

type_synonym bins = "(string \<times> int) list"

definition dict_get :: "bins \<Rightarrow> string \<Rightarrow> int \<Rightarrow> int" where
  "dict_get d k dflt = (case map_of d k of Some v \<Rightarrow> v | None \<Rightarrow> dflt)"

fun load_bins_lines :: "string list \<Rightarrow> bins \<Rightarrow> bins result" where
  "load_bins_lines [] d = Inr d"
| "load_bins_lines (l # ls) d =
     (if strip l = [] then load_bins_lines ls d
      else (case split_ws (strip l) of
          [k, v] \<Rightarrow> bindR (py_int v) (\<lambda>i. load_bins_lines ls (AList.update k i d))
        | _ \<Rightarrow> load_bins_lines ls d))"

definition load_bins :: "files \<Rightarrow> string \<Rightarrow> bins result" where
  "load_bins fs path = bindR (read_text fs path) (\<lambda>text. load_bins_lines (splitlines text) [])"

definition merge_bins :: "bins \<Rightarrow> bins \<Rightarrow> bins" where
  "merge_bins merged data = foldl (\<lambda>m (k, v). AList.update k (dict_get m k 0 OR v) m) merged data"

text \<open>The loop over the input files; a missing file is skipped with a warning.\<close>

fun merge_files :: "files \<Rightarrow> string list \<Rightarrow> bins \<Rightarrow> string list \<Rightarrow> (bins \<times> string list) result" where
  "merge_files fs [] merged warn = Inr (merged, warn)"
| "merge_files fs (f # rest) merged warn =
     (if fs f = None then merge_files fs rest merged (warn @ [''[crv_cov_merge] WARNING: '' @ f @ '' not found, skipping''])
      else bindR (load_bins fs f) (\<lambda>data. merge_files fs rest (merge_bins merged data) warn))"

definition bin_line :: "string \<times> int \<Rightarrow> string" where
  "bin_line kv = pad_right 36 (fst kv) @ '' '' @ str_int (snd kv)"

section \<open>The summary\<close>

definition rule_char :: string where "rule_char = [CHR 0xE2, CHR 0x94, CHR 0x80]"
definition block_char :: string where "block_char = [CHR 0xE2, CHR 0x96, CHR 0x88]"

text \<open>
  The statistics of consecutive bins of the same group: the finished groups, the current group and its
  counters.
\<close>

fun group_step :: "(string \<times> int \<times> nat) list \<times> string option \<times> int \<times> nat \<Rightarrow> string \<times> int \<Rightarrow>
    (string \<times> int \<times> nat) list \<times> string option \<times> int \<times> nat" where
  "group_step (stats, cur, g_hit, g_total) (k, v) =
     (let grp = hd (split_char CHR ''.'' k) in
      if Some grp \<noteq> cur
      then (case cur of None \<Rightarrow> stats | Some c \<Rightarrow> stats @ [(c, g_hit, g_total)], Some grp, v, 1)
      else (stats, cur, g_hit + v, g_total + 1))"

definition group_stats :: "bins \<Rightarrow> (string \<times> int \<times> nat) list" where
  "group_stats merged = (case foldl group_step ([], None, 0, 0) merged of
      (stats, cur, g_hit, g_total) \<Rightarrow> (case cur of None \<Rightarrow> stats | Some c \<Rightarrow> stats @ [(c, g_hit, g_total)]))"

definition trunc_int :: "pyfloat \<Rightarrow> int" where
  "trunc_int x = (if 0 \<le> x then \<lfloor>x\<rfloor> else \<lceil>x\<rceil>)"

definition int_percent :: "int \<Rightarrow> int \<Rightarrow> pyfloat" where
  "int_percent h t = (if t \<noteq> 0 then fl (fl (100 * of_int h) / of_int t) else 0)"

definition group_line :: "string \<times> int \<times> nat \<Rightarrow> string" where
  "group_line g = (case g of (grp, gh, gt) \<Rightarrow>
     (let pct = int_percent gh (int gt);
          bar = concat (replicate (nat (trunc_int (fl (pct / 5)))) block_char)
      in ''  '' @ pad_right 22 grp @ '' '' @ pad_left 3 (str_int gh) @ ''/'' @ pad_right 3 (str_int (int gt)) @ ''  ''
         @ pad_left 5 (fmt_fixed 1 pct) @ ''%  '' @ bar))"

definition summary :: "bins \<Rightarrow> string \<Rightarrow> string list" where
  "summary merged out =
     (let total = int (length merged); hit = int (length (filter (\<lambda>kv. snd kv \<noteq> 0) merged));
          bar = concat (replicate 60 rule_char)
      in ['''', ''Coverage summary'', bar] @ map group_line (group_stats merged)
         @ [bar, ''  '' @ pad_right 22 ''TOTAL'' @ '' '' @ pad_left 3 (str_int hit) @ ''/'' @ pad_right 3 (str_int total)
              @ ''  '' @ pad_left 5 (fmt_fixed 1 (int_percent hit total)) @ ''%'',
            '''', ''Merged coverage written to '' @ out])"

definition cov_merge_main :: "string list \<Rightarrow> string \<Rightarrow> files \<Rightarrow> (completed \<times> files) result" where
  "cov_merge_main inputs out fs =
     bindR (merge_files fs inputs [] []) (\<lambda>(merged, warn).
       if merged = []
       then Inr (\<lparr>returncode = 1, stdout = [],
                  stderr = unlines (warn @ [''[crv_cov_merge] ERROR: no coverage data loaded''])\<rparr>, fs)
       else Inr (\<lparr>returncode = 0, stdout = unlines (summary merged out), stderr = unlines warn\<rparr>,
                 fs(out \<mapsto> unlines (map bin_line merged))))"

text \<open>The command line, with the effects of the run.\<close>

text \<open>What the loop has printed when a file cannot be loaded: the warnings before it.\<close>

fun warned :: "files \<Rightarrow> string list \<Rightarrow> string list" where
  "warned fs [] = []"
| "warned fs (f # rest) =
     (if fs f = None then (''[crv_cov_merge] WARNING: '' @ f @ '' not found, skipping'') # warned fs rest
      else (case load_bins fs f of Inl _ \<Rightarrow> [] | Inr _ \<Rightarrow> warned fs rest))"

definition MERGE_ARGS :: cli where
  "MERGE_ARGS = \<lparr>c_opts = [(takes_opt ''--out'' To_Path)\<lparr>o_default := AStr ''merged.txt''\<rparr>],
     c_pos = [\<lparr>p_name = ''inputs'', p_nargs = Some_More, p_conv = To_Path\<rparr>]\<rparr>"

definition cov_merge_cli :: "(string list \<Rightarrow> string) \<Rightarrow> string list \<Rightarrow> int io" where
  "cov_merge_cli says argv = bindI (parse_argsI says MERGE_ARGS argv) (\<lambda>ns w.
     case cov_merge_main (list_arg ns ''inputs'') (str_arg ns ''--out'') (w_files w) of
       Inl e \<Rightarrow> (Inl e, w\<lparr>w_err := w_err w @ unlines (warned (w_files w) (list_arg ns ''inputs''))\<rparr>)
     | Inr (c, fs) \<Rightarrow> (Inr (returncode c), w\<lparr>w_files := fs, w_out := w_out w @ stdout c, w_err := w_err w @ stderr c\<rparr>))"

section \<open>What the merge computes\<close>

lemma merge_bins_map:
  "dict_get (merge_bins m data) k 0 = foldl (\<lambda>a v. a OR v) (dict_get m k 0) (map snd (filter (\<lambda>(k', v). k' = k) data))"
  unfolding merge_bins_def
  by (induction data arbitrary: m) (auto simp: dict_get_def update_conv')

lemma or_foldl_zero: "foldl (\<lambda>a v. a OR v) a vs = (0::int) \<longleftrightarrow> a = 0 \<and> (\<forall>v \<in> set vs. v = 0)"
proof (induction vs arbitrary: a)
  case (Cons v vs)
  have "a OR v = 0 \<longleftrightarrow> a = 0 \<and> v = 0" by (auto simp: or_eq_0_iff)
  with Cons show ?case by auto
qed simp

lemma merge_bins_keys: "fst ` set (merge_bins m data) = fst ` set m \<union> fst ` set data"
  unfolding merge_bins_def
proof (induction data arbitrary: m)
  case (Cons kv data)
  then show ?case by (cases kv) (auto simp: dom_update [unfolded dom_map_of_conv_image_fst])
qed simp

lemma merge_bins_distinct: "distinct (map fst m) \<Longrightarrow> distinct (map fst (merge_bins m data))"
  unfolding merge_bins_def
  by (induction data arbitrary: m) (auto simp: distinct_update)

lemma load_bins_lines_keys:
  "load_bins_lines ls d = Inr d' \<Longrightarrow> distinct (map fst d) \<Longrightarrow> \<forall>k \<in> fst ` set d. k \<noteq> [] \<and> no_space k \<Longrightarrow>
     distinct (map fst d') \<and> (\<forall>k \<in> fst ` set d'. k \<noteq> [] \<and> no_space k)"
proof (induction ls arbitrary: d)
  case (Cons l ls)
  show ?case
  proof (cases "\<exists>k v. split_ws (strip l) = [k, v]")
    case True
    then obtain k v where kv: "split_ws (strip l) = [k, v]" by blast
    then have k: "k \<noteq> [] \<and> no_space k" using split_ws_words [of k "strip l"] by simp
    have ne: "strip l \<noteq> []" using kv by auto
    from Cons.prems(1) kv ne obtain i where rec: "load_bins_lines ls (AList.update k i d) = Inr d'" by (auto simp: result_iff)
    have keys: "fst ` set (AList.update k i d) = {k} \<union> fst ` set d"
      using dom_update [of k i d] by (simp add: dom_map_of_conv_image_fst)
    show ?thesis
    proof (rule Cons.IH [OF rec])
      show "distinct (map fst (AList.update k i d))" using Cons.prems(2) by (simp add: distinct_update)
      show "\<forall>k \<in> fst ` set (AList.update k i d). k \<noteq> [] \<and> no_space k" unfolding keys using Cons.prems(3) k by blast
    qed
  next
    case False
    then have "load_bins_lines (l # ls) d = load_bins_lines ls d" by (auto split: list.split)
    with Cons.prems have "load_bins_lines ls d = Inr d'" by simp
    from Cons.IH [OF this Cons.prems(2,3)] show ?thesis .
  qed
qed auto

lemma load_bins_keys:
  "load_bins fs f = Inr d \<Longrightarrow> distinct (map fst d) \<and> (\<forall>k \<in> fst ` set d. k \<noteq> [] \<and> no_space k)"
proof -
  assume "load_bins fs f = Inr d"
  then obtain ls where "load_bins_lines ls [] = Inr d" by (auto simp: load_bins_def result_iff)
  from load_bins_lines_keys [OF this] show ?thesis by simp
qed

text \<open>The bins of an input: none when the file is missing.\<close>

definition input_bins :: "files \<Rightarrow> string \<Rightarrow> bins result" where
  "input_bins fs f = (if fs f = None then Inr [] else load_bins fs f)"

lemma merge_files_bins:
  "mapR (input_bins fs) inputs = Inr ds \<Longrightarrow>
     merge_files fs inputs m warn = Inr (foldl merge_bins m ds,
       warn @ map (\<lambda>f. ''[crv_cov_merge] WARNING: '' @ f @ '' not found, skipping'') (filter (\<lambda>f. fs f = None) inputs))"
proof (induction inputs arbitrary: m warn ds)
  case (Cons f inputs)
  then show ?case by (cases "fs f") (auto simp: input_bins_def result_iff merge_bins_def)
qed simp

lemma foldl_merge_keys: "fst ` set (foldl merge_bins m ds) = fst ` set m \<union> (\<Union>d \<in> set ds. fst ` set d)"
  by (induction ds arbitrary: m) (simp_all add: merge_bins_keys Un_assoc)

lemma foldl_merge_distinct: "distinct (map fst m) \<Longrightarrow> distinct (map fst (foldl merge_bins m ds))"
  by (induction ds arbitrary: m) (simp_all add: merge_bins_distinct)

lemma distinct_lookup:
  assumes "distinct (map fst d)"
  shows "map snd (filter (\<lambda>(k', v). k' = k) d) = (case map_of d k of Some v \<Rightarrow> [v] | None \<Rightarrow> [])"
  using assms
proof (induction d)
  case (Cons kv d)
  have "k \<notin> fst ` set d \<Longrightarrow> filter (\<lambda>(k', v). k' = k) d = []" by (force simp: filter_empty_conv)
  with Cons show ?case by (cases kv) (auto simp: map_of_eq_None_iff split: option.splits)
qed simp

lemma foldl_merge_get:
  assumes "\<forall>d \<in> set ds. distinct (map fst d)"
  shows "dict_get (foldl merge_bins m ds) k 0 = foldl (\<lambda>a v. a OR v) (dict_get m k 0) (map (\<lambda>d. dict_get d k 0) ds)"
  using assms
proof (induction ds arbitrary: m)
  case (Cons d ds)
  have "dict_get (merge_bins m d) k 0 = dict_get m k 0 OR dict_get d k 0"
    unfolding merge_bins_map using Cons.prems distinct_lookup [of d k] by (simp add: dict_get_def [of d] split: option.split)
  with Cons show ?case by simp
qed simp

text \<open>The merge of several dictionaries, as a specification.\<close>

definition merges :: "bins list \<Rightarrow> bins \<Rightarrow> bool" where
  "merges ds merged \<longleftrightarrow> distinct (map fst merged) \<and> fst ` set merged = (\<Union>d \<in> set ds. fst ` set d) \<and>
     (\<forall>k. dict_get merged k 0 = foldl (\<lambda>a v. a OR v) 0 (map (\<lambda>d. dict_get d k 0) ds))"

lemma merges_foldl:
  assumes "\<forall>d \<in> set ds. distinct (map fst d)"
  shows "merges ds (foldl merge_bins [] ds)"
  using assms by (simp add: merges_def foldl_merge_keys foldl_merge_distinct foldl_merge_get dict_get_def [of "[]"])

lemma mapR_set: "mapR f xs = Inr ys \<Longrightarrow> y \<in> set ys \<Longrightarrow> \<exists>x \<in> set xs. f x = Inr y"
  by (induction xs arbitrary: ys) (auto simp: result_iff)

lemma input_bins_keys:
  assumes "mapR (input_bins fs) inputs = Inr ds" and "d \<in> set ds"
  shows "distinct (map fst d) \<and> (\<forall>k \<in> fst ` set d. k \<noteq> [] \<and> no_space k)"
proof -
  from mapR_set [OF assms] obtain f where "input_bins fs f = Inr d" by blast
  then show ?thesis using load_bins_keys [of fs f d] by (auto simp: input_bins_def split: if_splits)
qed

lemma cov_merge_main_bins:
  assumes "mapR (input_bins fs) inputs = Inr ds"
  obtains merged where "merges ds merged" and
    "if concat ds = [] then \<exists>o1. cov_merge_main inputs out fs = Inr (o1, fs) \<and> returncode o1 = 1
     else \<exists>o1. cov_merge_main inputs out fs = Inr (o1, fs(out \<mapsto> unlines (map bin_line merged))) \<and> returncode o1 = 0"
proof -
  let ?m = "foldl merge_bins [] ds"
  have m: "merges ds ?m" using merges_foldl input_bins_keys [OF assms] by blast
  have "?m = [] \<longleftrightarrow> fst ` set ?m = {}" by simp
  also have "\<dots> \<longleftrightarrow> concat ds = []" using m by (auto simp: merges_def)
  finally show thesis using m merge_files_bins [OF assms]
    by (intro that [of ?m]) (simp_all add: cov_merge_main_def)
qed

section \<open>The merged file at the gate\<close>

lemma strip_newline: "strip (l @ [CHR 0x0A]) = strip l"
proof (cases "list_all is_space l")
  case True
  then have "dropWhile is_space l = []" by (simp add: list_all_iff dropWhile_eq_Nil_conv)
  moreover from True have "dropWhile is_space (l @ [CHR 0x0A]) = []"
    by (auto simp: list_all_iff dropWhile_eq_Nil_conv is_space_def [of "CHR 0x0A"])
  ultimately show ?thesis unfolding strip_def lstrip_def by (simp only:)
next
  case False
  then obtain c where "c \<in> set l" "\<not> is_space c" by (auto simp: list_all_iff)
  from dropWhile_append1 [of c l is_space, OF this] show ?thesis
    by (simp add: strip_def lstrip_def rstrip_def is_space_def [of "CHR 0x0A"])
qed

lemma str_int_word: "no_space (str_int v)" "str_int v \<noteq> []"
proof -
  have "list_all is_hex (nat_digits 10 n)" for n using nat_digits_dec [of n] digit_is_hex by (auto simp: list_all_iff)
  then have "no_space (nat_digits 10 n)" for n using hex_not_space by (auto simp: no_space_def list_all_iff)
  moreover have "\<not> is_space CHR ''-''" by (simp add: is_space_def)
  ultimately show "no_space (str_int v)" "str_int v \<noteq> []" by (simp_all add: str_int_def)
qed

lemma bin_line_strip:
  assumes "k \<noteq> []" and "no_space k"
  shows "strip (bin_line (k, v)) = bin_line (k, v)"
proof -
  let ?pad = "replicate (36 - length k) CHR '' '' @ '' ''"
  have line: "bin_line (k, v) = k @ ?pad @ str_int v" by (simp add: bin_line_def pad_right_def)
  have "rstrip (str_int v) = str_int v" using rstrip_word [OF str_int_word(1), of "[]"] by simp
  then have rs: "rstrip (u @ str_int v) = u @ str_int v" for u
    using rstrip_append [of "str_int v" u] str_int_word(2) by simp
  obtain c k' where "k = c # k'" "\<not> is_space c" using assms by (cases k) auto
  then have ls: "lstrip (k @ u) = k @ u" for u by (simp add: lstrip_def)
  show ?thesis using ls rs [of "k @ ?pad"] by (simp only: line strip_def append_assoc)
qed

lemma bin_line_bin:
  assumes "k \<noteq> []" and "no_space k" and "\<not> starts_with ''#'' k"
  shows "strip (bin_line (k, v)) = bin_line (k, v)" and "bin_of (bin_line (k, v)) = Some (k, str_int v)"
    and "bin_line (k, v) \<noteq> []" and "\<not> starts_with ''#'' (bin_line (k, v))" and "CHR 0x0A \<notin> set (bin_line (k, v))"
    and "CHR 0x0D \<notin> set (bin_line (k, v))"
proof -
  let ?pad = "replicate (36 - length k) CHR '' '' @ '' ''" and ?v = "str_int v"
  have line: "bin_line (k, v) = k @ ?pad @ ?v" by (simp add: bin_line_def pad_right_def)
  have pad: "list_all is_space ?pad" by (simp add: list_all_iff)
  note vs = str_int_word [of v]
  have r: "rstrip ?v = ?v" using rstrip_word [OF vs(1), of "[]"] by simp
  have rs: "rstrip (u @ ?v) = u @ ?v" for u using rstrip_append [of ?v u] r vs(2) by simp
  obtain c k' where k: "k = c # k'" "\<not> is_space c" using assms(1,2) by (cases k) auto
  have ls: "lstrip (k @ u) = k @ u" for u using k by (simp add: lstrip_def)
  show s: "strip (bin_line (k, v)) = bin_line (k, v)" by (rule bin_line_strip [OF assms(1,2)])
  show "bin_line (k, v) \<noteq> []" using assms(1) by (simp add: line)
  show "\<not> starts_with ''#'' (bin_line (k, v))" unfolding line using assms(3) k by (simp add: starts_with_def)
  have nl: "is_space CHR 0x0A" "is_space CHR 0x0D" by (simp_all add: is_space_def)
  show "CHR 0x0A \<notin> set (bin_line (k, v))" "CHR 0x0D \<notin> set (bin_line (k, v))"
    using assms(2) vs(1) nl by (auto simp: line no_space_def list_all_iff)
  have w: "rev (takeWhile (\<lambda>c. \<not> is_space c) (rev (k @ ?pad @ ?v))) = ?v"
  proof -
    have "takeWhile (\<lambda>c. \<not> is_space c) (rev ?v @ CHR '' '' # u) = rev ?v" for u
      using vs(1) by (subst takeWhile_append2) (auto simp: no_space_def list_all_iff)
    then show ?thesis by simp
  qed
  have before: "rstrip (take (length (k @ ?pad @ ?v) - length ?v) (k @ ?pad @ ?v)) = k"
    using rstrip_word [OF assms(2) pad] by simp
  have sk: "strip k = k" using ls [of "[]"] rstrip_word [OF assms(2), of "[]"] by (simp add: strip_def)
  have sv: "strip ?v = ?v"
    using vs r by (cases ?v) (auto simp: strip_def lstrip_def)
  define t where "t = k @ ?pad @ ?v"
  have "rstrip t = t" "rev (takeWhile (\<lambda>c. \<not> is_space c) (rev t)) = ?v" "rstrip (take (length t - length ?v) t) = k" "t \<noteq> []"
    unfolding t_def using rs [of "k @ ?pad"] w before assms(1) by (simp_all only: append_assoc) simp
  then have "rsplit_ws1 t = [k, ?v]" using assms(1) by (simp add: rsplit_ws1_def Let_def sk)
  then have "rsplit_ws1 (bin_line (k, v)) = [k, ?v]" by (simp only: line t_def)
  then show "bin_of (bin_line (k, v)) = Some (k, ?v)" by (simp add: bin_of_def sk sv)
qed


lemma content_merged:
  assumes "\<forall>k \<in> fst ` set merged. k \<noteq> [] \<and> no_space k \<and> \<not> starts_with ''#'' k"
  shows "read_text (fs(p \<mapsto> unlines (map bin_line merged))) p = Inr (unlines (map bin_line merged))"
    and "bins_of (unlines (map bin_line merged)) = map (\<lambda>(k, v). (k, str_int v)) merged"
proof -
  let ?text = "unlines (map bin_line merged)"
  have b: "strip (bin_line kv) = bin_line kv \<and> bin_of (bin_line kv) = Some (fst kv, str_int (snd kv)) \<and> bin_line kv \<noteq> []
      \<and> \<not> starts_with ''#'' (bin_line kv) \<and> CHR 0x0A \<notin> set (bin_line kv) \<and> CHR 0x0D \<notin> set (bin_line kv)"
    if "kv \<in> set merged" for kv
    using bin_line_bin [of "fst kv" "snd kv"] assms that by auto
  have "CHR 0x0D \<notin> set ?text" using b by (auto simp: unlines_def)
  then show "read_text (fs(p \<mapsto> ?text)) p = Inr ?text" using universal_newlines_id by (simp add: read_text_def)
  have "file_lines ?text = map (\<lambda>l. l @ [CHR 0x0A]) (map bin_line merged)"
    by (rule file_lines_unlines) (use b in auto)
  moreover have "strip (l @ [CHR 0x0A]) = strip l" for l
    by (simp add: strip_newline)
  ultimately have "map strip (file_lines ?text) = map bin_line merged" using b by simp
  then have "content_lines ?text = map bin_line merged"
    using b by (auto simp: content_lines_def filter_id_conv)
  moreover have "\<forall>kv \<in> set ms. bin_of (bin_line kv) = Some (fst kv, str_int (snd kv)) \<Longrightarrow>
      List.map_filter bin_of (map bin_line ms) = map (\<lambda>(k, v). (k, str_int v)) ms" for ms
    by (induction ms) (simp_all add: map_filter_simps case_prod_beta)
  ultimately show "bins_of ?text = map (\<lambda>(k, v). (k, str_int v)) merged" using b by (simp add: bins_of_def)
qed

section \<open>The merged file as an input\<close>

lemma bin_line_words:
  assumes "k \<noteq> []" and "no_space k"
  shows "split_ws (strip (bin_line (k, v))) = [k, str_int v]" and "list_all (\<lambda>c. \<not> line_break c) (bin_line (k, v))"
proof -
  let ?pad = "replicate (36 - length k) CHR '' '' @ '' ''"
  have line: "bin_line (k, v) = k @ ?pad @ str_int v" by (simp add: bin_line_def pad_right_def)
  have pad: "list_all is_space ?pad" by (simp add: list_all_iff)
  have "split_ws (k @ (?pad @ str_int v)) = k # split_ws (?pad @ str_int v)"
    by (rule split_ws_word [OF assms(2,1)]) (simp add: hd_append is_space_def)
  also have "split_ws (?pad @ str_int v) = split_ws (str_int v)" by (rule split_ws_spaces [OF pad])
  also have "\<dots> = [str_int v]" using split_ws_word [OF str_int_word, of "[]" v] by simp
  finally have "split_ws (bin_line (k, v)) = [k, str_int v]" by (simp only: line)
  then show "split_ws (strip (bin_line (k, v))) = [k, str_int v]" by (simp only: bin_line_strip [OF assms])
  show "list_all (\<lambda>c. \<not> line_break c) (bin_line (k, v))"
  proof -
    have "\<not> line_break CHR '' ''" by (simp add: line_break_def)
    then show ?thesis using assms(2) str_int_word(1) [of v] by (auto simp: line no_space_def list_all_iff dest: line_break_space)
  qed
qed

lemma load_merged:
  assumes "distinct (map fst merged)" and "\<forall>k \<in> fst ` set merged. k \<noteq> [] \<and> no_space k"
    and "fs p = Some (unlines (map bin_line merged))"
  shows "load_bins fs p = Inr merged"
proof -
  let ?ls = "map bin_line merged"
  have l: "split_ws (strip (bin_line kv)) = [fst kv, str_int (snd kv)]" "list_all (\<lambda>c. \<not> line_break c) (bin_line kv)"
    if "kv \<in> set merged" for kv
    using bin_line_words [of "fst kv" "snd kv"] assms(2) that by auto
  have sp: "splitlines (unlines ?ls) = ?ls" by (rule splitlines_unlines) (use l(2) in \<open>auto simp: list_all_iff\<close>)
  have "line_break CHR 0x0D" by (simp add: line_break_def)
  then have "CHR 0x0D \<notin> set (unlines ?ls)" using l(2) by (auto simp: unlines_def list_all_iff)
  then have rd: "read_text fs p = Inr (unlines ?ls)" using universal_newlines_id by (simp add: read_text_def assms(3))
  have "load_bins_lines (map bin_line ms) d = Inr (d @ ms)"
    if "set ms \<subseteq> set merged" and "distinct (map fst (d @ ms))" for ms d
    using that
  proof (induction ms arbitrary: d)
    case (Cons kv ms)
    then have kv: "split_ws (strip (bin_line kv)) = [fst kv, str_int (snd kv)]" using l(1) by simp
    then have ne: "strip (bin_line kv) \<noteq> []" by auto
    have up: "AList.update (fst kv) (snd kv) d = d @ [kv]"
      using Cons.prems(2) by (induction d) (auto simp: image_iff)
    show ?case using Cons.IH [of "d @ [kv]"] Cons.prems by (simp add: kv ne up)
  qed simp
  from this [of merged "[]"] assms(1) show ?thesis by (simp add: load_bins_def rd sp)
qed

lemma merge_bins_all:
  assumes "distinct (map fst (m @ ms))"
  shows "merge_bins m ms = m @ ms"
  using assms unfolding merge_bins_def
proof (induction ms arbitrary: m)
  case (Cons kv ms)
  have "map_of m (fst kv) = None" using Cons.prems by (auto simp: map_of_eq_None_iff)
  then have "dict_get m (fst kv) 0 = 0" by (simp add: dict_get_def)
  moreover have "AList.update (fst kv) (snd kv) m = m @ [kv]" using Cons.prems by (induction m) (auto simp: image_iff)
  ultimately show ?case using Cons.IH [of "m @ [kv]"] Cons.prems by (simp add: case_prod_beta)
qed simp

section \<open>Properties\<close>

text \<open>
  C26. When the inputs that exist can be read, the merge writes exactly one line per bin that occurs in
  one of them, with the bitwise or of the bin's values in all of them; with no bin at all it writes
  nothing and exits 1.
\<close>

theorem cov_merge_ors:
  assumes "mapR (input_bins fs) inputs = Inr ds"
  shows "\<exists>o1 merged. merges ds merged \<and> cov_merge_main inputs out fs =
      Inr (o1, if concat ds = [] then fs else fs(out \<mapsto> unlines (map bin_line merged)))
    \<and> returncode o1 = (if concat ds = [] then 1 else 0)"
  by (rule cov_merge_main_bins [OF assms]) (auto split: if_splits)

lemma demo_bins:
  "mapR (input_bins [''a'' \<mapsto> ''x 1'', ''b'' \<mapsto> ''x 0'']) [''a'', ''b''] = Inr [[(''x'', 1)], [(''x'', 0)]]"
proof -
  have "load_bins_lines (splitlines (universal_newlines ''x 1'')) [] = Inr [(''x'', 1)]"
    "load_bins_lines (splitlines (universal_newlines ''x 0'')) [] = Inr [(''x'', 0)]" by code_simp+
  then show ?thesis by (simp add: input_bins_def load_bins_def read_text_def)
qed

theorem cov_merge_ors_witness:
  "let fs = [''a'' \<mapsto> ''x 1'', ''b'' \<mapsto> ''x 0'']; ds = [[(''x'', 1)], [(''x'', 0)]]
   in \<exists>o1 merged. merges ds merged \<and> cov_merge_main [''a'', ''b''] ''m'' fs =
      Inr (o1, if concat ds = [] then fs else fs(''m'' \<mapsto> unlines (map bin_line merged)))
    \<and> returncode o1 = (if concat ds = [] then 1 else 0)"
  unfolding Let_def by (rule cov_merge_ors [OF demo_bins])

lemma merge_first:
  assumes "mapR (input_bins fs) xs = Inr ds" and "concat ds \<noteq> []"
  shows "\<exists>o1. cov_merge_main xs mid fs = Inr (o1, fs(mid \<mapsto> unlines (map bin_line (foldl merge_bins [] ds))))
    \<and> stdout o1 = unlines (summary (foldl merge_bins [] ds) mid) \<and> returncode o1 = 0"
proof -
  have "foldl merge_bins [] ds \<noteq> []"
    using foldl_merge_keys [of "[]" ds] assms(2) by (auto simp: set_empty [symmetric] simp del: set_empty)
  with merge_files_bins [OF assms(1)] show ?thesis by (auto simp: cov_merge_main_def)
qed

text \<open>
  C16. Merging in two steps: merging some files into an intermediate file and then that file with more files
  writes the same file and prints the same summary as merging all of them at once, values and order of the
  bins included. The intermediate file is read back as the dictionary that was written.
\<close>

theorem cov_merge_staged:
  assumes "mapR (input_bins fs) xs = Inr ds" and "mapR (input_bins fs) ys = Inr es"
    and "concat ds \<noteq> []" and "mid \<notin> set ys"
  shows "\<exists>o1 fs1 o2 fs2 o3 fs3. cov_merge_main xs mid fs = Inr (o1, fs1) \<and> cov_merge_main (mid # ys) out fs1 = Inr (o2, fs2)
    \<and> cov_merge_main (xs @ ys) out fs = Inr (o3, fs3) \<and> fs2 out = fs3 out \<and> fs2 out \<noteq> None
    \<and> stdout o2 = stdout o3 \<and> returncode o2 = 0 \<and> returncode o3 = 0"
proof -
  let ?m = "foldl merge_bins [] ds" and ?fs = "fs(mid \<mapsto> unlines (map bin_line (foldl merge_bins [] ds)))"
  have m: "merges ds ?m" using merges_foldl input_bins_keys [OF assms(1)] by blast
  then have dist: "distinct (map fst ?m)" and keys: "fst ` set ?m = (\<Union>d \<in> set ds. fst ` set d)" by (simp_all add: merges_def)
  have names: "\<forall>k \<in> fst ` set ?m. k \<noteq> [] \<and> no_space k" unfolding keys using input_bins_keys [OF assms(1)] by blast
  have "load_bins ?fs mid = Inr ?m" by (rule load_merged [OF dist names]) simp
  moreover have "input_bins ?fs f = input_bins fs f" if "f \<in> set ys" for f
    using that assms(4) by (auto simp: input_bins_def load_bins_def read_text_def)
  then have "mapR (input_bins ?fs) ys = Inr es" using assms(2) mapR_cong by metis
  ultimately have two: "mapR (input_bins ?fs) (mid # ys) = Inr (?m # es)" by (simp add: input_bins_def)
  have all: "mapR (input_bins fs) (xs @ ys) = Inr (ds @ es)" using assms(1,2) by (rule mapR_append)
  have same: "foldl merge_bins [] (?m # es) = foldl merge_bins [] (ds @ es)"
    using merge_bins_all [of "[]" ?m] dist by simp
  have ne: "?m \<noteq> []" using keys assms(3) by auto
  from merge_first [OF assms(1,3), of mid] merge_first [OF two, of out] merge_first [OF all, of out] ne assms(3)
  show ?thesis unfolding same by fastforce
qed

theorem cov_merge_staged_witness:
  "let fs = [''a'' \<mapsto> ''x 1'', ''b'' \<mapsto> ''x 0'']
   in \<exists>o1 fs1 o2 fs2 o3 fs3. cov_merge_main [''a'', ''b''] ''m'' fs = Inr (o1, fs1) \<and> cov_merge_main [''m'', ''a'', ''b''] ''n'' fs1 = Inr (o2, fs2)
    \<and> cov_merge_main [''a'', ''b'', ''a'', ''b''] ''n'' fs = Inr (o3, fs3) \<and> fs2 ''n'' = fs3 ''n'' \<and> fs2 ''n'' \<noteq> None
    \<and> stdout o2 = stdout o3 \<and> returncode o2 = 0 \<and> returncode o3 = 0"
  using cov_merge_staged [OF demo_bins demo_bins, of "''m''" "''n''"] unfolding Let_def by simp

lemma str_int_zero: "str_int v = ''0'' \<longleftrightarrow> v = 0"
proof
  assume z: "str_int v = ''0''"
  show "v = 0"
  proof (cases "v < 0")
    case False
    with z have "nat_digits 10 (nat v) = ''0''" by (simp add: str_int_def)
    with dec_value_nat_digits [of "nat v"] have "nat v = dec_value ''0''" by simp
    with False show ?thesis by (simp add: dec_value_def digit_value_def)
  qed (use z in \<open>simp add: str_int_def\<close>)
qed (simp add: str_int_def nat_digits.simps digit_char_def)

text \<open>The verdict on the file of a merged dictionary, for bins that are no comments.\<close>

lemma gate_merged:
  assumes "distinct (map fst merged)" and "\<forall>k \<in> fst ` set merged. k \<noteq> [] \<and> no_space k \<and> \<not> starts_with ''#'' k"
    and "length merged \<le> 2 ^ 46" and "threshold args = None"
    and "load_excludes fs (exclude_bins args) = Inr ex" and "exclude_bins args \<noteq> Some out"
  shows "\<exists>o2. run_functional args out (fs(out \<mapsto> unlines (map bin_line merged))) = Inr o2 \<and>
    (returncode o2 = 0) = (fst ` set merged - set ex \<noteq> {} \<and> (\<forall>k \<in> fst ` set merged - set ex. dict_get merged k 0 \<noteq> 0))"
proof -
  let ?fs = "fs(out \<mapsto> unlines (map bin_line merged))" and ?text = "unlines (map bin_line merged)"
  define bs where "bs = filter (\<lambda>(k, v). k \<notin> set ex) merged"
  note mtxt = content_merged [OF assms(2)]
  have gated: "gated ex ?text = map (\<lambda>(k, v). (k, str_int v)) bs"
    by (simp add: gated_def mtxt(2) filter_map o_def case_prod_unfold bs_def)
  have "length bs \<le> length merged" by (simp add: bs_def)
  then have small: "length (gated ex ?text) \<le> 2 ^ 46" using assms(3) by (simp add: gated)
  have excl: "load_excludes ?fs (exclude_bins args) = Inr ex"
    using assms(5,6) by (auto simp: load_excludes_def read_text_def split: option.splits)
  from run_functional_code [OF excl mtxt(1) assms(4) small] obtain o2
    where o2: "run_functional args out ?fs = Inr o2"
      and code: "returncode o2 = (if gated ex ?text = [] then 2 else if \<forall>(n, v) \<in> set (gated ex ?text). v \<noteq> ''0'' then 0 else 1)"
    by blast
  have vb: "dict_get merged k 0 = v" if "(k, v) \<in> set bs" for k v
  proof -
    from that have "(k, v) \<in> set merged" by (simp add: bs_def)
    then have "map_of merged k = Some v" by (rule map_of_is_SomeI [OF assms(1)])
    then show ?thesis by (simp add: dict_get_def)
  qed
  have keys: "fst ` set merged - set ex = fst ` set bs" by (force simp: bs_def)
  have "(returncode o2 = 0) = (bs \<noteq> [] \<and> (\<forall>(k, v) \<in> set bs. v \<noteq> 0))"
    unfolding code gated by (auto simp: str_int_zero)
  also have "\<dots> = (fst ` set bs \<noteq> {} \<and> (\<forall>k \<in> fst ` set bs. dict_get merged k 0 \<noteq> 0))"
    using vb by auto
  finally show ?thesis using o2 unfolding keys by blast
qed

text \<open>
  C24. Merging the scenarios' files and gating on the result: the gate passes exactly when some bin
  counts and every bin that occurs in an input and is not excluded has a non-zero value in an input.
\<close>

theorem merge_then_gate:
  assumes "mapR (input_bins fs) inputs = Inr ds" and "concat ds \<noteq> []" and "length (concat ds) \<le> 2 ^ 46"
    and "\<forall>d \<in> set ds. \<forall>k \<in> fst ` set d. \<not> starts_with ''#'' k"
    and "functional args = Some out" and "out \<noteq> []" and "threshold args = None"
    and "load_excludes fs (exclude_bins args) = Inr ex" and "exclude_bins args \<noteq> Some out"
  shows "\<exists>o1 fs' o2. cov_merge_main inputs out fs = Inr (o1, fs') \<and> coverage_gate_main help args fs' = Inr o2 \<and>
    (returncode o2 = 0) = (let B = (\<Union>d \<in> set ds. fst ` set d) - set ex in
       B \<noteq> {} \<and> (\<forall>k \<in> B. \<exists>d \<in> set ds. dict_get d k 0 \<noteq> 0))"
proof -
  obtain merged where m: "merges ds merged"
    and r: "if concat ds = [] then \<exists>o1. cov_merge_main inputs out fs = Inr (o1, fs) \<and> returncode o1 = 1
      else \<exists>o1. cov_merge_main inputs out fs = Inr (o1, fs(out \<mapsto> unlines (map bin_line merged))) \<and> returncode o1 = 0"
    by (rule cov_merge_main_bins [OF assms(1)])
  from r assms(2) obtain o1 where main: "cov_merge_main inputs out fs = Inr (o1, fs(out \<mapsto> unlines (map bin_line merged)))"
    by (simp only: if_False) blast
  have keys: "fst ` set merged = (\<Union>d \<in> set ds. fst ` set d)" and dist: "distinct (map fst merged)"
    using m by (simp_all add: merges_def)
  have names: "\<forall>k \<in> fst ` set merged. k \<noteq> [] \<and> no_space k \<and> \<not> starts_with ''#'' k"
    unfolding keys using input_bins_keys [OF assms(1)] assms(4) by blast
  have "length merged = card (fst ` set merged)" using distinct_card [OF dist] by simp
  also have "fst ` set merged = fst ` set (concat ds)" unfolding keys by auto
  also have "card (fst ` set (concat ds)) \<le> length (concat ds)"
    using card_image_le [of "set (concat ds)" fst] card_length [of "concat ds"] by simp
  finally have small: "length merged \<le> 2 ^ 46" using assms(3) by simp
  have or0: "dict_get merged k 0 \<noteq> 0 \<longleftrightarrow> (\<exists>d \<in> set ds. dict_get d k 0 \<noteq> 0)" for k
    using m or_foldl_zero [of 0 "map (\<lambda>d. dict_get d k 0) ds"] by (simp add: merges_def)
  from gate_merged [OF dist names small assms(7,8,9)] main show ?thesis
    unfolding keys or0 Let_def by (auto simp: coverage_gate_main_def assms(5,6))
qed

theorem merge_then_gate_witness:
  "let fs = [''a'' \<mapsto> ''x 1'', ''b'' \<mapsto> ''x 0'']; ds = [[(''x'', 1)], [(''x'', 0)]];
       args = \<lparr>functional = Some ''m'', exclude_bins = None, threshold = None, info_file = None\<rparr>
   in \<exists>o1 fs' o2. cov_merge_main [''a'', ''b''] ''m'' fs = Inr (o1, fs') \<and> coverage_gate_main [] args fs' = Inr o2 \<and>
    (returncode o2 = 0) = (let B = (\<Union>d \<in> set ds. fst ` set d) - set [] in
       B \<noteq> {} \<and> (\<forall>k \<in> B. \<exists>d \<in> set ds. dict_get d k 0 \<noteq> 0))"
proof -
  from merge_then_gate [OF demo_bins, of
      "\<lparr>functional = Some ''m'', exclude_bins = None, threshold = None, info_file = None\<rparr>" "''m''" "[]"]
  show ?thesis by (simp add: load_excludes_def starts_with_def Let_def)
qed

end
