(* ===== verification/Cycle_Diff.thy ===== *)
theory Cycle_Diff
  imports Py_Argparse
begin

text \<open>
  \<open>tools/cycle_diff.py\<close>: the comparison of the cycle counts of two simulator binaries on one program,
  with the baseline optionally built in a temporary git worktree. The record \<open>cd_args\<close> is the parsed
  command line, \<open>environ\<close> the environment, and git, make and the simulators are child processes.
\<close>

section \<open>Running a simulator\<close>

definition signed_rx :: rx where
  "signed_rx = Seq (opt (chr CHR ''-'')) digits"

definition HALT_RE :: rx where
  "HALT_RE = seqs [lit ''[sim]'', spaces1, lit ''halt'', spaces1, lit ''at'', spaces1, lit ''cycle'', spaces1, Grp 1 digits,
     lit '','', spaces1, lit ''x10'', spaces, lit ''='', spaces, Grp 2 signed_rx]"

definition DEFAULT_PULP_AXI_ROOT :: string where
  "DEFAULT_PULP_AXI_ROOT = ''/home/popes/opensoc/hw/ip/pulp_axi''"

definition run_sim :: "exec \<Rightarrow> string \<Rightarrow> string \<Rightarrow> (int \<times> int \<times> string) io" where
  "run_sim exec sim_bin prog_hex =
     bindI (runI exec [sim_bin, prog_hex] [] (Some 300)) (\<lambda>p.
     (case re_search HALT_RE (stdout p) of
        None \<Rightarrow> raiseI (RuntimeError (''Could not parse '' @ [CHR 0x27] @ ''[sim] halt at cycle ..., x10 = ...'' @ [CHR 0x27]
          @ '' from '' @ sim_bin @ '':'' @ [CHR 0x0A] @ join [CHR 0x0A] (last_n 20 (splitlines (stdout p)))))
      | Some m \<Rightarrow> bindI (liftI (py_int (group m 1))) (\<lambda>cycles.
          bindI (liftI (py_int (group m 2))) (\<lambda>x10. retI (cycles, x10, m_text m)))))"

section \<open>The baseline worktree\<close>

definition repo_root :: "exec \<Rightarrow> string io" where
  "repo_root exec = bindI (check_outputI exec [''git'', ''rev-parse'', ''--show-toplevel'']) (\<lambda>out. retI (strip out))"

definition verify_commit :: "exec \<Rightarrow> string \<Rightarrow> string io" where
  "verify_commit exec sha =
     (let cmd = [''git'', ''rev-parse'', sha @ ''^{commit}''] in
      catchI (bindI (check_outputI exec cmd) (\<lambda>out. retI (strip out)))
        (\<lambda>e. case e of
            CalledProcessError rc err \<Rightarrow> Some (raiseI (RuntimeError (''baseline commit '' @ repr_str sha
              @ '' not found in local git history (git rev-parse failed: ''
              @ (if err \<noteq> [] then strip err
                 else ''Command '' @ [CHR 0x27] @ repr_list cmd @ [CHR 0x27] @ '' returned non-zero exit status '' @ str_int rc @ ''.'')
              @ '')'')))
          | _ \<Rightarrow> None))"

definition build_s7a :: "exec \<Rightarrow> string \<Rightarrow> string \<Rightarrow> string io" where
  "build_s7a exec work_root pulp =
     (let sim_bin = path_join (path_join (path_join (path_join work_root ''sim'') ''obj_dir'') ''s7a'') ''Vsim_top'' in
      bindI (printI [''[cycle_diff] building s7a in '' @ work_root @ '' (PULP_AXI_ROOT='' @ pulp @ '') ...'']) (\<lambda>_.
      bindI (passthroughI True exec [''make'', ''-C'', path_join work_root ''sim'', ''build-s7a'', ''PULP_AXI_ROOT='' @ pulp]
              [(''PULP_AXI_ROOT'', pulp)] None) (\<lambda>_.
      bindI filesI (\<lambda>fs.
        if fs sim_bin = None then raiseI (RuntimeError (''build succeeded but '' @ sim_bin @ '' is missing''))
        else retI sim_bin))))"

definition cleanup_worktree :: "rmtree \<Rightarrow> exec \<Rightarrow> string \<Rightarrow> unit io" where
  "cleanup_worktree rm exec wt =
     bindI filesI (\<lambda>fs.
     if fs wt = None then retI ()
     else bindI (printI [''[cycle_diff] removing worktree '' @ wt]) (\<lambda>_.
          bindI (passthroughI False exec [''git'', ''worktree'', ''remove'', ''--force'', wt] [] None) (\<lambda>rc.
          bindI filesI (\<lambda>fs.
          if rc \<noteq> 0 \<or> fs wt \<noteq> None
          then bindI (rmtreeI rm wt) (\<lambda>_.
               bindI (passthroughI False exec [''git'', ''worktree'', ''prune''] [] None) (\<lambda>_. retI ()))
          else retI ()))))"

definition worktree_of :: "string \<Rightarrow> string" where
  "worktree_of full_sha = ''/tmp/kronos-baseline-'' @ take 12 full_sha"

definition build_baseline :: "rmtree \<Rightarrow> exec \<Rightarrow> string \<Rightarrow> string \<Rightarrow> (string \<times> string) io" where
  "build_baseline rm exec sha pulp =
     bindI (verify_commit exec sha) (\<lambda>full.
     (let wt = worktree_of full in
      bindI filesI (\<lambda>fs.
      bindI (if fs wt \<noteq> None then cleanup_worktree rm exec wt else retI ()) (\<lambda>_.
      bindI (printI [''[cycle_diff] creating worktree '' @ wt @ '' at '' @ take 12 full @ '' ...'']) (\<lambda>_.
      bindI (passthroughI True exec [''git'', ''worktree'', ''add'', wt, full] [] None) (\<lambda>_.
      bindI (build_s7a exec wt pulp) (\<lambda>sim_bin.
        retI (wt, sim_bin))))))))"

section \<open>The comparison\<close>

record cd_args =
  baseline_bin :: "string option"
  baseline_commit :: "string option"
  candidate_bin :: "string option"
  cd_prog :: string
  max_delta :: number
  ignore_x10 :: bool

text \<open>\<open>ap.error\<close> prints the usage, which is \<open>argparse\<close>'s, and exits with code 2.\<close>

definition ap_error :: "string \<Rightarrow> string \<Rightarrow> 'a io" where
  "ap_error usage msg = bindI (errI (usage @ unlines [''cycle_diff.py: error: '' @ msg])) (\<lambda>_. raiseI (SystemExit 2))"

text \<open>Division of two integers.\<close>

definition cycle_delta :: "int \<Rightarrow> int \<Rightarrow> pyfloat result" where
  "cycle_delta cand base = (if base = 0 then Inl ZeroDivisionError else Inr (fl (of_int (cand - base) / of_int base)))"

definition percent_signed :: "pyfloat \<Rightarrow> string" where
  "percent_signed d = fmt_signed 2 (fl (d * 100)) @ ''%''"

definition budget_text :: "number \<Rightarrow> string" where
  "budget_text d = ''budget +'' @ fmt_number 0 (times100 d) @ ''%''"

definition judge :: "cd_args \<Rightarrow> int \<times> int \<times> string \<Rightarrow> int \<times> int \<times> string \<Rightarrow> int io" where
  "judge args b c = (case (b, c) of ((base_cyc, base_x10, base_line), (cand_cyc, cand_x10, cand_line)) \<Rightarrow>
     bindI (printI [''baseline:  '' @ base_line, ''candidate: '' @ cand_line]) (\<lambda>_.
     (let rest =
        bindI (liftI (cycle_delta cand_cyc base_cyc)) (\<lambda>delta.
        bindI (printI [''baseline cycles:  '' @ str_int base_cyc, ''candidate cycles: '' @ str_int cand_cyc,
          ''cycle delta: '' @ percent_signed delta @ '' ('' @ budget_text (max_delta args) @ '')'']) (\<lambda>_.
        if num_less (max_delta args) (number_of delta)
        then bindI (printI [''FAIL: cycle/IPC regression exceeds budget'']) (\<lambda>_. retI 1)
        else bindI (printI [''PASS'']) (\<lambda>_. retI 0)))
      in
      if \<not> ignore_x10 args then
        if base_x10 \<noteq> 0
        then bindI (printI [''FAIL: baseline reported x10='' @ str_int base_x10 @ '' (expected 0).'']) (\<lambda>_. retI 1)
        else if cand_x10 \<noteq> 0
        then bindI (printI [''FAIL: candidate reported x10='' @ str_int cand_x10 @ '' (expected 0).'']) (\<lambda>_.
             bindI (liftI (cycle_delta cand_cyc base_cyc)) (\<lambda>delta.
             bindI (printI [''  cycle delta: '' @ percent_signed delta @ '' ('' @ str_int base_cyc @ '' -> '' @ str_int cand_cyc
               @ ''; '' @ budget_text (max_delta args) @ '')'']) (\<lambda>_. retI 1)))
        else rest
      else
        bindI (if base_x10 \<noteq> 0 then printI [''note: baseline x10='' @ str_int base_x10 @ '' (ignored, --ignore-x10).''] else retI ()) (\<lambda>_.
        bindI (if cand_x10 \<noteq> 0 then printI [''note: candidate x10='' @ str_int cand_x10 @ '' (ignored, --ignore-x10).''] else retI ()) (\<lambda>_.
        rest)))))"

text \<open>
  \<open>main\<close>. The worktree is known to the clean-up only once \<open>build_baseline\<close> has returned, so an
  exception inside it leaves nothing to clean up.
\<close>

definition truthy :: "string option \<Rightarrow> bool" where
  "truthy o1 \<longleftrightarrow> (case o1 of None \<Rightarrow> False | Some s \<Rightarrow> s \<noteq> [])"

definition cycle_diff_main :: "rmtree \<Rightarrow> exec \<Rightarrow> string \<Rightarrow> (string \<rightharpoonup> string) \<Rightarrow> cd_args \<Rightarrow> int io" where
  "cycle_diff_main rm exec usage environ args =
     (if baseline_bin args \<noteq> None \<and> truthy (baseline_commit args)
      then ap_error usage ''--baseline-bin and --baseline-commit are mutually exclusive''
      else if baseline_bin args = None \<and> \<not> truthy (baseline_commit args)
      then ap_error usage ''one of --baseline-bin or --baseline-commit is required''
      else
     (let pulp = (case environ ''PULP_AXI_ROOT'' of Some p \<Rightarrow> p | None \<Rightarrow> DEFAULT_PULP_AXI_ROOT);
          run_both = (\<lambda>bin_b bin_c. bindI (run_sim exec bin_b (cd_prog args)) (\<lambda>b.
             bindI (run_sim exec bin_c (cd_prog args)) (\<lambda>c. retI (b, c))))
      in
      bindI
        (if truthy (baseline_commit args)
         then bindI (build_baseline rm exec (case baseline_commit args of Some s \<Rightarrow> s | None \<Rightarrow> []) pulp) (\<lambda>(wt, bin_b).
              finallyI
                (bindI (case candidate_bin args of
                     None \<Rightarrow> bindI (repo_root exec) (\<lambda>root. build_s7a exec root pulp)
                   | Some c \<Rightarrow> retI c) (\<lambda>bin_c. run_both bin_b bin_c))
                (\<lambda>_. cleanup_worktree rm exec wt))
         else (case candidate_bin args of
             None \<Rightarrow> ap_error usage ''--candidate-bin is required when not using --baseline-commit''
           | Some c \<Rightarrow> run_both (case baseline_bin args of Some b \<Rightarrow> b | None \<Rightarrow> []) c))
        (\<lambda>(b, c). judge args b c)))"

definition CYCLE_ARGS :: cli where
  "CYCLE_ARGS = \<lparr>c_opts = [takes_opt ''--baseline-bin'' To_Path, takes_opt ''--baseline-commit'' To_Str,
       takes_opt ''--candidate-bin'' To_Path, needs_opt ''--prog'' To_Path,
       (takes_opt ''--max-delta'' To_Float)\<lparr>o_default := AFloat (number_of (fl (5 / 100)))\<rparr>, flag_opt ''--ignore-x10''],
     c_pos = []\<rparr>"

definition cycle_diff_cli ::
  "(string list \<Rightarrow> string) \<Rightarrow> rmtree \<Rightarrow> exec \<Rightarrow> string \<Rightarrow> (string \<rightharpoonup> string) \<Rightarrow> string list \<Rightarrow> int io" where
  "cycle_diff_cli says rm exec usage environ argv = bindI (parse_argsI says CYCLE_ARGS argv) (\<lambda>ns.
     cycle_diff_main rm exec usage environ
       \<lparr>baseline_bin = opt_arg ns ''--baseline-bin'', baseline_commit = opt_arg ns ''--baseline-commit'',
        candidate_bin = opt_arg ns ''--candidate-bin'', cd_prog = str_arg ns ''--prog'',
        max_delta = (case float_arg ns ''--max-delta'' of Some x \<Rightarrow> x | None \<Rightarrow> NaN),
        ignore_x10 = bool_arg ns ''--ignore-x10''\<rparr>)"

section \<open>What the parts do\<close>

lemma judge_files: "w_files (snd (judge args b c w)) = w_files w"
  by (auto simp: judge_def bindI_def printI_def liftI_def retI_def cycle_delta_def Let_def split: prod.splits sum.splits)

text \<open>
  What the clean-up relies on: the two git commands it runs start and finish, and pruning the list of worktrees
  brings no directory back; and the directory, if git does not remove it, can be deleted.
\<close>

definition git_cleans :: "exec \<Rightarrow> string \<Rightarrow> bool" where
  "git_cleans exec wt \<longleftrightarrow> (\<forall>fs. \<exists>c fs'. exec [''git'', ''worktree'', ''remove'', ''--force'', wt] [] None fs = (Exited c, fs'))
     \<and> (\<forall>fs. \<exists>c fs'. exec [''git'', ''worktree'', ''prune''] [] None fs = (Exited c, fs') \<and> (fs wt = None \<longrightarrow> fs' wt = None))"

definition deletable :: "rmtree \<Rightarrow> string \<Rightarrow> bool" where
  "deletable rm wt \<longleftrightarrow> (\<forall>fs. rm wt fs wt = None)"

lemma passthroughI_exited:
  assumes "exec cmd env limit (w_files w) = (Exited c, fs)"
  shows "bindI (passthroughI False exec cmd env limit) f w
    = f (returncode c) (w\<lparr>w_files := fs, w_out := w_out w @ stdout c, w_err := w_err w @ stderr c\<rparr>)"
  unfolding passthroughI_def bindI_assoc runI_exited [of exec, OF assms] by (simp add: bindI_def)

lemma cleanup_removes:
  assumes "git_cleans exec wt" and "deletable rm wt"
  shows "\<exists>w'. cleanup_worktree rm exec wt w = (Inr (), w') \<and> w_files w' wt = None"
proof (cases "w_files w wt = None")
  case True
  then show ?thesis by (simp add: cleanup_worktree_def io_simps)
next
  case False
  let ?remove = "[''git'', ''worktree'', ''remove'', ''--force'', wt]" and ?prune = "[''git'', ''worktree'', ''prune'']"
  from assms(1) obtain c fs where remove: "exec ?remove [] None (w_files w) = (Exited c, fs)"
    unfolding git_cleans_def by blast
  from assms(1) obtain c' fs' where prune: "exec ?prune [] None (rm wt fs) = (Exited c', fs')" "rm wt fs wt = None \<longrightarrow> fs' wt = None"
    unfolding git_cleans_def by blast
  have "fs' wt = None" using prune(2) assms(2) by (simp add: deletable_def)
  with False show ?thesis
    by (simp add: cleanup_worktree_def io_simps remove prune(1)
        passthroughI_exited [where cmd = ?remove and c = c and fs = fs] passthroughI_exited [where cmd = ?prune and c = c' and fs = fs'])
qed

lemma delta_budget:
  fixes b c :: int
  assumes "0 < b" and "b \<le> 2 ^ 47"
  shows "fl (5 / 100) < fl (of_int (c - b) / of_int b) \<longleftrightarrow> b < 20 * (c - b)"
proof -
  have b: "(0 :: rat) < of_int b" using assms(1) by simp
  show ?thesis
  proof (cases "b < 20 * (c - b)")
    case False
    then have "(of_int (20 * (c - b)) :: rat) \<le> of_int b" unfolding of_int_le_iff by simp
    then have "of_int (c - b) / of_int b \<le> (5 / 100 :: rat)" using b by (simp add: divide_le_eq)
    with False show ?thesis using fl_mono_all by (metis not_le)
  next
    case True
    let ?y = "1 / 20 + 1 / (20 * of_int b) :: rat"
    have "(of_int b + 1 :: rat) \<le> of_int (20 * (c - b))" using True by (metis add1_zle_eq of_int_1 of_int_add of_int_le_iff)
    then have "(of_int b + 1) / (20 * of_int b) \<le> (of_int (20 * (c - b)) / (20 * of_int b) :: rat)"
      using b by (intro divide_right_mono) simp_all
    moreover have "?y = (of_int b + 1) / (20 * of_int b)" using b by (simp add: field_simps)
    moreover have "(of_int (20 * (c - b)) / (20 * of_int b) :: rat) = of_int (c - b) / of_int b"
      using b by (simp add: field_simps)
    ultimately have "?y \<le> of_int (c - b) / of_int b" by simp
    then have le: "fl ?y \<le> fl (of_int (c - b) / of_int b)" by (rule fl_mono_all)
    have "(of_int b :: rat) \<le> of_int (2 ^ 47)" using assms(2) unfolding of_int_le_iff .
    then have small: "(of_int b :: rat) \<le> 2 ^ 47" by simp
    have "1 / (20 * of_int b) \<le> (1 / 20 :: rat)" using assms(1) by (simp add: divide_le_eq)
    then have "fl (1 / 20) < fl ?y"
      using b small by (intro fl_strict [of _ _ 1]) (simp_all add: field_simps)
    with le True show ?thesis by simp
  qed
qed

lemma direct_main:
  assumes "baseline_bin args = Some bb" and "\<not> truthy (baseline_commit args)" and "candidate_bin args = Some cc"
    and "run_sim exec bb (cd_prog args) w = (Inr b, w1)" and "run_sim exec cc (cd_prog args) w1 = (Inr c, w2)"
  shows "cycle_diff_main rm exec usage environ args w = judge args b c w2"
proof -
  have both: "bindI (run_sim exec bb (cd_prog args)) (\<lambda>b. bindI (run_sim exec cc (cd_prog args)) (\<lambda>c. retI (b, c))) w = (Inr (b, c), w2)"
    by (simp add: bindI_def retI_def assms(4,5))
  show ?thesis
    unfolding cycle_diff_main_def using assms(1-3) by (simp add: bindI_def [of "bindI _ _"] both)
qed

section \<open>Examples\<close>

definition demo_args :: "string option \<Rightarrow> string option \<Rightarrow> cd_args" where
  "demo_args b sha = \<lparr>baseline_bin = b, baseline_commit = sha, candidate_bin = Some ''c'', cd_prog = ''p'',
     max_delta = number_of (fl (5 / 100)), ignore_x10 = False\<rparr>"

definition empty_world :: world where
  "empty_world = \<lparr>w_files = Map.empty, w_out = [], w_err = []\<rparr>"

lemma demo_args_prog: "cd_prog (demo_args b sha) = ''p''"
  by (simp add: demo_args_def)

text \<open>Simulators whose cycle counts are given.\<close>

definition sim_exec :: "string \<Rightarrow> exec" where
  "sim_exec out cmd env limit fs = (Exited \<lparr>returncode = 0, stdout = out, stderr = []\<rparr>, fs)"

lemma demo_sim:
  "run_sim (sim_exec ''[sim] halt at cycle 7, x10 = 0'') bb ''p'' empty_world = (Inr (7, 0, ''[sim] halt at cycle 7, x10 = 0''), empty_world)"
proof -
  have m: "re_search HALT_RE ''[sim] halt at cycle 7, x10 = 0''
      = Some \<lparr>m_text = ''[sim] halt at cycle 7, x10 = 0'', m_groups = [(2, ''0''), (1, ''7'')], m_rest = []\<rparr>" by code_simp
  have i: "py_int ''7'' = Inr 7" "py_int ''0'' = Inr 0" by code_simp+
  show ?thesis
    by (simp add: run_sim_def runI_exited sim_exec_def m i group_def io_simps empty_world_def)
qed

text \<open>A git and a make whose result is given, for the commit ''abc''.\<close>

definition wt_exec :: "int \<Rightarrow> exec" where
  "wt_exec rc cmd env limit fs =
     (if hd cmd = ''make'' then (Exited \<lparr>returncode = rc, stdout = [], stderr = []\<rparr>,
        fs(path_join (path_join (path_join (path_join (worktree_of ''abc'') ''sim'') ''obj_dir'') ''s7a'') ''Vsim_top'' \<mapsto> []))
      else (Exited \<lparr>returncode = 0, stdout = ''abc'', stderr = []\<rparr>,
        if cmd ! 2 = ''add'' then fs(worktree_of ''abc'' \<mapsto> []) else fs))"

lemma wt_exec_result:
  "hd cmd = ''make'' \<Longrightarrow> returncode (result_of (wt_exec rc) cmd env limit fs) = rc"
  "hd cmd = ''make'' \<Longrightarrow> files_of (wt_exec rc) cmd env limit fs =
     fs(path_join (path_join (path_join (path_join (worktree_of ''abc'') ''sim'') ''obj_dir'') ''s7a'') ''Vsim_top'' \<mapsto> [])"
  "hd cmd \<noteq> ''make'' \<Longrightarrow> returncode (result_of (wt_exec rc) cmd env limit fs) = 0"
  "hd cmd \<noteq> ''make'' \<Longrightarrow> stdout (result_of (wt_exec rc) cmd env limit fs) = ''abc''"
  "hd cmd \<noteq> ''make'' \<Longrightarrow> cmd ! 2 \<noteq> ''add'' \<Longrightarrow> files_of (wt_exec rc) cmd env limit fs = fs"
  "hd cmd \<noteq> ''make'' \<Longrightarrow> cmd ! 2 = ''add'' \<Longrightarrow> files_of (wt_exec rc) cmd env limit fs = fs(worktree_of ''abc'' \<mapsto> [])"
  by (simp_all add: result_of_def files_of_def wt_exec_def)

lemma wt_finishes: "finishes (wt_exec rc)"
  by (simp add: finishes_def wt_exec_def)

lemma wt_verify: "verify_commit (wt_exec rc) ''abc'' empty_world = (Inr ''abc'', empty_world)"
proof -
  have "strip ''abc'' = ''abc''" by code_simp
  then show ?thesis
    by (simp add: verify_commit_def check_outputI_def catchI_def io_simps runI_finishes [OF wt_finishes] wt_exec_result
          empty_world_def)
qed

lemma wt_baseline:
  "\<exists>w1. build_baseline rm (wt_exec 0) ''abc'' DEFAULT_PULP_AXI_ROOT empty_world = (Inr (worktree_of ''abc'',
     path_join (path_join (path_join (path_join (worktree_of ''abc'') ''sim'') ''obj_dir'') ''s7a'') ''Vsim_top''), w1)"
  unfolding build_baseline_def bindI_done [of "verify_commit (wt_exec 0) ''abc''" empty_world, OF wt_verify]
  by (simp add: io_simps passthroughI_finishes [OF wt_finishes] build_s7a_def wt_exec_result empty_world_def Let_def)

section \<open>Properties\<close>

text \<open>
  C27. On two given binaries with the default budget of 5%, once both runs have reported, the tool fails
  if a program reported an error, and otherwise passes exactly when the candidate needs at most a
  twentieth more cycles than the baseline: the division in floating point never moves a count across
  the budget. A baseline of no cycles raises \<open>ZeroDivisionError\<close>.
\<close>

theorem cycle_diff_verdict:
  assumes "baseline_bin args = Some bb" and "\<not> truthy (baseline_commit args)" and "candidate_bin args = Some cc"
    and "max_delta args = number_of (fl (5 / 100))" and "\<not> ignore_x10 args"
    and "run_sim exec bb (cd_prog args) w = (Inr (b, bx, bl), w1)" and "run_sim exec cc (cd_prog args) w1 = (Inr (c, cx, cl), w2)"
    and "0 \<le> b" and "b \<le> 2 ^ 47"
  shows "fst (cycle_diff_main rm exec usage environ args w) =
    (if bx \<noteq> 0 then Inr 1 else if b = 0 then Inl ZeroDivisionError
     else Inr (if cx = 0 \<and> 20 * (c - b) \<le> b then 0 else 1))"
proof -
  have "fst (judge args (b, bx, bl) (c, cx, cl) w2) =
    (if bx \<noteq> 0 then Inr 1 else if b = 0 then Inl ZeroDivisionError
     else Inr (if cx = 0 \<and> \<not> fl (5 / 100) < fl (of_int (c - b) / of_int b) then 0 else 1))"
    using assms(4,5) by (simp add: judge_def io_simps cycle_delta_def Let_def)
  then show ?thesis using direct_main [OF assms(1-3,6,7)] delta_budget [of b c] assms(8,9) by auto
qed

theorem cycle_diff_verdict_witness:
  "fst (cycle_diff_main (\<lambda>p fs. fs) (sim_exec ''[sim] halt at cycle 7, x10 = 0'') [] Map.empty (demo_args (Some ''b'') None) empty_world) =
    (if (0 :: int) \<noteq> 0 then Inr 1 else if (7 :: int) = 0 then Inl ZeroDivisionError
     else Inr (if (0 :: int) = 0 \<and> 20 * ((7 :: int) - 7) \<le> 7 then 0 else 1))"
proof -
  let ?a = "demo_args (Some ''b'') None"
  have run: "run_sim (sim_exec ''[sim] halt at cycle 7, x10 = 0'') bb (cd_prog ?a) empty_world
      = (Inr (7, 0, ''[sim] halt at cycle 7, x10 = 0''), empty_world)" for bb
    unfolding demo_args_prog by (rule demo_sim)
  from cycle_diff_verdict [of ?a "''b''" "''c''", OF _ _ _ _ _ run run] show ?thesis by (simp add: demo_args_def truthy_def)
qed

text \<open>The two runs between the build of the baseline and the comparison, with the candidate built when none is given.\<close>

definition both_runs :: "exec \<Rightarrow> string \<Rightarrow> cd_args \<Rightarrow> string \<Rightarrow> ((int \<times> int \<times> string) \<times> (int \<times> int \<times> string)) io" where
  "both_runs exec pulp args bb =
     bindI (case candidate_bin args of
         None \<Rightarrow> bindI (repo_root exec) (\<lambda>root. build_s7a exec root pulp)
       | Some c \<Rightarrow> retI c) (\<lambda>bin_c.
     bindI (run_sim exec bb (cd_prog args)) (\<lambda>b. bindI (run_sim exec bin_c (cd_prog args)) (\<lambda>c. retI (b, c))))"

lemma judge_outcome: "fst (judge args b c w) = fst (judge args b c w')"
  by (auto simp: judge_def bindI_def printI_def liftI_def retI_def cycle_delta_def Let_def split: prod.splits sum.splits)

text \<open>
  C28. In baseline-commit mode, once the baseline has been built, its worktree is gone when the tool
  ends, whether the comparison passes, fails or raises, whether the candidate fails to build, and whether a simulator
  fails to start, exceeds its time limit or reports nothing; the clean-up does not change how the tool ends. Only the two
  git commands of the clean-up have to run, and the directory has to be deletable when git does not remove it.
\<close>

theorem cycle_diff_cleans_up:
  assumes "git_cleans exec wt" and "deletable rm wt"
    and "baseline_bin args = None" and "baseline_commit args = Some sha" and "sha \<noteq> []"
    and "pulp = (case environ ''PULP_AXI_ROOT'' of Some p \<Rightarrow> p | None \<Rightarrow> DEFAULT_PULP_AXI_ROOT)"
    and "build_baseline rm exec sha pulp w = (Inr (wt, bb), w1)"
  shows "w_files (snd (cycle_diff_main rm exec usage environ args w)) wt = None
    \<and> fst (cycle_diff_main rm exec usage environ args w)
      = (case both_runs exec pulp args bb w1 of (Inl e, w2) \<Rightarrow> Inl e | (Inr (b, c), w2) \<Rightarrow> fst (judge args b c w2))"
proof -
  let ?guarded = "finallyI (both_runs exec pulp args bb) (\<lambda>_. cleanup_worktree rm exec wt)"
  have main: "cycle_diff_main rm exec usage environ args w = bindI ?guarded (\<lambda>(b, c). judge args b c) w1"
    unfolding cycle_diff_main_def both_runs_def assms(6) [symmetric] using assms(3-5)
    by (simp add: truthy_def Let_def bindI_assoc bindI_done [of "build_baseline rm exec sha pulp" w, OF assms(7)])
  obtain r w2 where runs: "both_runs exec pulp args bb w1 = (r, w2)" by fastforce
  obtain w3 where clean: "cleanup_worktree rm exec wt w2 = (Inr (), w3)" "w_files w3 wt = None"
    using cleanup_removes [OF assms(1,2)] by blast
  have "?guarded w1 = (r, w3)" by (simp add: finallyI_def runs clean(1))
  then show ?thesis
    unfolding main using clean(2) judge_outcome [of args _ _ w3 w2]
    by (auto simp: bindI_def runs judge_files split: sum.split)
qed

text \<open>An example in which the simulators exceed their time limit.\<close>

definition slow_exec :: exec where
  "slow_exec cmd env limit fs = (if limit = None then wt_exec 0 cmd env limit fs else (TimedOut [], fs))"

lemma slow_baseline: "build_baseline rm slow_exec = build_baseline rm (wt_exec 0)"
proof -
  have run: "runI slow_exec cmd env None = runI (wt_exec 0) cmd env None" for cmd env
    by (rule ext) (simp add: runI_def slow_exec_def)
  show ?thesis
    by (intro ext, unfold build_baseline_def verify_commit_def check_outputI_def cleanup_worktree_def passthroughI_def
          build_s7a_def run) (rule refl)
qed

lemma slow_cleans: "git_cleans slow_exec wt"
  by (simp add: git_cleans_def slow_exec_def wt_exec_def)

theorem cycle_diff_cleans_up_witness:
  "\<exists>w'. cycle_diff_main (\<lambda>p fs. fs(p := None)) slow_exec [] Map.empty (demo_args None (Some ''abc'')) empty_world
      = (Inl (TimeoutExpired []), w') \<and> w_files w' (worktree_of ''abc'') = None"
proof -
  let ?rm = "\<lambda>p fs. fs(p := None)"
  obtain w1 where b: "build_baseline ?rm slow_exec ''abc'' DEFAULT_PULP_AXI_ROOT empty_world = (Inr (worktree_of ''abc'',
     path_join (path_join (path_join (path_join (worktree_of ''abc'') ''sim'') ''obj_dir'') ''s7a'') ''Vsim_top''), w1)"
    unfolding slow_baseline using wt_baseline by blast
  have rm: "deletable ?rm (worktree_of ''abc'')" by (simp add: deletable_def)
  let ?a = "demo_args None (Some ''abc'')"
  have cand: "candidate_bin ?a = Some ''c''" "baseline_bin ?a = None" "baseline_commit ?a = Some ''abc''"
    by (simp_all add: demo_args_def)
  have runs: "\<exists>w2. both_runs slow_exec DEFAULT_PULP_AXI_ROOT ?a bb w1 = (Inl (TimeoutExpired []), w2)" for bb
    by (simp add: both_runs_def cand io_simps run_sim_def bindI_def runI_def slow_exec_def)
  obtain w2 where "both_runs slow_exec DEFAULT_PULP_AXI_ROOT ?a
      (path_join (path_join (path_join (path_join (worktree_of ''abc'') ''sim'') ''obj_dir'') ''s7a'') ''Vsim_top'') w1
      = (Inl (TimeoutExpired []), w2)" using runs by blast
  with cycle_diff_cleans_up [where usage = "[]" and environ = Map.empty and args = ?a, OF slow_cleans rm cand(2,3) _ _ b]
  show ?thesis by (cases "cycle_diff_main ?rm slow_exec [] Map.empty ?a empty_world") simp
qed

text \<open>
  C29. When the build of the baseline itself fails, the tool ends with the child's exception and leaves
  the worktree it has just created behind.
\<close>

theorem cycle_diff_leaks_worktree:
  assumes "finishes exec" and "baseline_bin args = None" and "baseline_commit args = Some sha" and "sha \<noteq> []"
    and "verify_commit exec sha w = (Inr full, w0)" and "w_files w0 (worktree_of full) = None"
    and "returncode (result_of exec [''git'', ''worktree'', ''add'', worktree_of full, full] [] None (w_files w0)) = 0"
    and "fs1 = files_of exec [''git'', ''worktree'', ''add'', worktree_of full, full] [] None (w_files w0)" and "fs1 (worktree_of full) \<noteq> None"
    and "cmd = [''make'', ''-C'', path_join (worktree_of full) ''sim'', ''build-s7a'', ''PULP_AXI_ROOT='' @ DEFAULT_PULP_AXI_ROOT]"
    and "env = [(''PULP_AXI_ROOT'', DEFAULT_PULP_AXI_ROOT)]"
    and "returncode (result_of exec cmd env None fs1) \<noteq> 0" and "files_of exec cmd env None fs1 (worktree_of full) \<noteq> None"
  shows "\<exists>w'. cycle_diff_main rm exec usage Map.empty args w = (Inl (CalledProcessError (returncode (result_of exec cmd env None fs1)) []), w')
    \<and> w_files w' (worktree_of full) \<noteq> None"
proof -
  have "\<exists>w'. build_baseline rm exec sha DEFAULT_PULP_AXI_ROOT w = (Inl (CalledProcessError (returncode (result_of exec cmd env None fs1)) []), w')
    \<and> w_files w' (worktree_of full) \<noteq> None"
    unfolding build_baseline_def bindI_done [of "verify_commit exec sha" w, OF assms(5)]
    using assms(6-9,12,13) by (simp add: Let_def io_simps passthroughI_finishes [OF assms(1)] build_s7a_def assms(10,11))
  then obtain w' where bb: "build_baseline rm exec sha DEFAULT_PULP_AXI_ROOT w
      = (Inl (CalledProcessError (returncode (result_of exec cmd env None fs1)) []), w')" and leak: "w_files w' (worktree_of full) \<noteq> None" by blast
  have "cycle_diff_main rm exec usage Map.empty args w = (Inl (CalledProcessError (returncode (result_of exec cmd env None fs1)) []), w')"
    unfolding cycle_diff_main_def using assms(2-4) by (simp add: truthy_def Let_def bindI_assoc) (simp add: bindI_def bb)
  with leak show ?thesis by blast
qed

theorem cycle_diff_leaks_worktree_witness:
  "\<exists>w'. cycle_diff_main (\<lambda>p fs. fs) (wt_exec 2) [] Map.empty (demo_args None (Some ''abc'')) empty_world = (Inl (CalledProcessError 2 []), w')
    \<and> w_files w' (worktree_of ''abc'') \<noteq> None"
  using cycle_diff_leaks_worktree [OF wt_finishes [of 2] _ _ _ wt_verify [of 2], where args = "demo_args None (Some ''abc'')" and usage = "[]"]
  by (simp add: demo_args_def wt_exec_result empty_world_def)

end
