(* ===== verification/Synth_Wns.thy ===== *)
theory Synth_Wns
  imports Py_Argparse
begin

text \<open>
  \<open>tools/check_synth_wns.py\<close>: the worst setup slack of a timing report against a floor.
\<close>

definition slack_rx :: rx where
  "slack_rx = seqs [opt (Cls (\<lambda>c. c = CHR ''+'' \<or> c = CHR ''-'')), digits, lit ''.'', digits]"

definition WNS_RE :: rx where
  "WNS_RE = seqs [lit ''Setup'', spaces, lit '':'', spaces, digits, spaces, lit ''Failing Endpoints,'', spaces,
     lit ''Worst Slack'', spaces, Grp 1 slack_rx, lit ''ns'']"

fun find_wns :: "string list \<Rightarrow> number result option" where
  "find_wns [] = None"
| "find_wns (line # rest) = (case re_search WNS_RE line of
      Some m \<Rightarrow> Some (py_float (group m 1))
    | None \<Rightarrow> find_wns rest)"

definition parse_wns :: "files \<Rightarrow> string \<Rightarrow> number result" where
  "parse_wns fs path = bindR (read_text fs path) (\<lambda>s. case find_wns (file_lines s) of
      Some r \<Rightarrow> r
    | None \<Rightarrow> Inl (RuntimeError (''No '' @ [CHR 0x27] @ ''Setup ... Worst Slack'' @ [CHR 0x27] @ '' line found in '' @ path)))"

definition check_wns_main :: "string \<Rightarrow> number \<Rightarrow> files \<Rightarrow> completed result" where
  "check_wns_main report limit fs = bindR (parse_wns fs report) (\<lambda>wns.
     (let head = ''Post-synth WNS: '' @ fmt_number_signed 3 wns @ '' ns (floor '' @ fmt_number_signed 3 limit @ '' ns)'' in
      if num_less wns limit
      then Inr \<lparr>returncode = 1, stdout = unlines [head, ''FAIL: WNS regressed below floor by ''
             @ fmt_number 3 (num_sub limit wns) @ '' ns''], stderr = []\<rparr>
      else Inr \<lparr>returncode = 0, stdout = unlines [head, ''PASS''], stderr = []\<rparr>))"

definition WNS_ARGS :: cli where
  "WNS_ARGS = \<lparr>c_opts = [needs_opt ''--floor'' To_Float], c_pos = [\<lparr>p_name = ''report'', p_nargs = One, p_conv = To_Str\<rparr>]\<rparr>"

definition check_wns_cli :: "(string list \<Rightarrow> string) \<Rightarrow> string list \<Rightarrow> int io" where
  "check_wns_cli says argv = bindI (parse_argsI says WNS_ARGS argv) (\<lambda>ns.
     completedI (check_wns_main (str_arg ns ''report'') (case float_arg ns ''--floor'' of Some x \<Rightarrow> x | None \<Rightarrow> NaN)))"

section \<open>The line of a timing report\<close>

text \<open>A slack in thousandths of a nanosecond, as the tool prints it, and the line that carries it.\<close>

definition slack_text :: "int \<Rightarrow> string" where
  "slack_text m = (if m < 0 then ''-'' else []) @ nat_digits 10 (nat \<bar>m\<bar> div 1000) @ ''.'' @ zero_pad 3 (nat_digits 10 (nat \<bar>m\<bar> mod 1000))"

definition wns_line :: "nat \<Rightarrow> int \<Rightarrow> string" where
  "wns_line n m = ''Setup : '' @ nat_digits 10 n @ '' Failing Endpoints,  Worst Slack '' @ slack_text m @ ''ns,  Total Violation''"

lemma dec_value_slack:
  assumes "r < 1000"
  shows "length (zero_pad 3 (nat_digits 10 r)) = 3" and "dec_value (nat_digits 10 q @ zero_pad 3 (nat_digits 10 r)) = 1000 * q + r"
proof -
  have "length (nat_digits 10 r) \<le> 3" using nat_digits_length [of 10 r 2] assms by (simp add: numeral_3_eq_3)
  then show len: "length (zero_pad 3 (nat_digits 10 r)) = 3" by (simp add: zero_pad_length)
  have "digits_value 10 0 (zero_pad 3 (nat_digits 10 r)) = Some r"
    by (simp add: zero_pad_def digits_value_zeros digits_value_nat_digits del: repeated_element)
  from digits_value_acc [OF this, of q] len show "dec_value (nat_digits 10 q @ zero_pad 3 (nat_digits 10 r)) = 1000 * q + r"
    by (simp add: dec_value_def digits_value_append digits_value_nat_digits)
qed

lemma slack_parts:
  "\<exists>q r. list_all is_digit q \<and> q \<noteq> [] \<and> list_all is_digit r \<and> length r = 3 \<and> dec_value (q @ r) = nat \<bar>m\<bar>
     \<and> slack_text m = (if m < 0 then ''-'' else []) @ q @ CHR ''.'' # r"
proof -
  let ?n = "nat \<bar>m\<bar>"
  have "list_all is_digit (zero_pad 3 (nat_digits 10 (?n mod 1000)))"
    using nat_digits_dec [of "?n mod 1000"] by (auto simp: zero_pad_def list_all_iff is_digit_def)
  then show ?thesis using dec_value_slack(1) [of "?n mod 1000"] dec_value_slack(2) [of "?n mod 1000" "?n div 1000"]
      nat_digits_dec [of "?n div 1000"]
    by (intro exI [of _ "nat_digits 10 (?n div 1000)"] exI [of _ "zero_pad 3 (nat_digits 10 (?n mod 1000))"])
      (simp add: slack_text_def)
qed

lemma to_number_thousandths:
  assumes "\<bar>m\<bar> < 2 ^ 40"
  shows "to_number (m < 0) (of_int \<bar>m\<bar> / 1000) = number_of (fl (of_int m / 1000))"
proof (cases "m = 0")
  case True
  then show ?thesis using round_even_of_int [of 0] by (simp add: to_number_def number_of_def fl_def)
next
  case False
  let ?x = "of_int \<bar>m\<bar> / 1000 :: rat"
  have "of_int 1 \<le> (of_int \<bar>m\<bar> :: rat)" using False by (subst of_int_le_iff) simp
  then have "1 / 1000 \<le> ?x" by simp
  moreover have "1 / 2 ^ 1022 \<le> (1 / 1000 :: rat)" by simp
  ultimately have low: "\<not> ?x < 1 / 2 ^ 1022" by linarith
  have "of_int \<bar>m\<bar> < (of_int (2 ^ 40) :: rat)" using assms by (simp only: of_int_less_iff)
  then have up: "?x < 2 ^ 40" by simp
  have "fl ?x \<le> fl (of_nat (2 ^ 40))" using up by (intro fl_mono_all) simp
  also have "\<dots> = of_nat (2 ^ 40)" by (rule fl_of_nat) simp
  also have "\<dots> < 2 ^ 1024" by simp
  finally have "to_number (m < 0) ?x = Finite (m < 0) (fl ?x)" using low by (simp only: to_number_def if_False if_True)
  moreover have "\<bar>fl (of_int m / 1000)\<bar> = fl ?x" by (simp add: fl_sign(2))
  ultimately show ?thesis by (simp only: number_of_def fl_sign(1)) simp
qed

lemma lower_is_digit:
  assumes "is_digit x" and "c = CHR ''i'' \<or> c = CHR ''n''"
  shows "\<not> lower_is (c # w) (x # xs)"
proof -
  have "(of_char x :: nat) < 60" using assms(1) by (simp add: is_digit_def Let_def)
  moreover have "x \<noteq> c" using assms by (auto simp: is_digit_def)
  moreover have "(100 :: nat) < of_char c" using assms(2) by auto
  ultimately show ?thesis by (auto simp: lower_is_def)
qed

lemma py_float_slack:
  assumes "\<bar>m\<bar> < 2 ^ 40"
  shows "py_float (slack_text m) = Inr (number_of (fl (of_int m / 1000)))"
proof -
  obtain q r where q: "list_all is_digit q" "q \<noteq> []" and r: "list_all is_digit r" "length r = 3"
    and v: "dec_value (q @ r) = nat \<bar>m\<bar>" and s: "slack_text m = (if m < 0 then ''-'' else []) @ q @ CHR ''.'' # r"
    using slack_parts [of m] by blast
  let ?d = "q @ CHR ''.'' # r"
  obtain x xs where x: "q = x # xs" "is_digit x" using q by (cases q) auto
  have r0: "r \<noteq> []" using r(2) by auto
  have dig: "c \<in> set ?d \<Longrightarrow> is_digit c \<or> c = CHR ''.''" for c using q r by (auto simp: list_all_iff)
  have sp: "\<not> is_space c \<and> c \<noteq> CHR ''e'' \<and> c \<noteq> CHR ''E''" if "c = CHR ''-'' \<or> is_digit c \<or> c = CHR ''.''" for c
    using that by (auto simp: is_digit_def is_space_def Let_def)
  have "list_all (\<lambda>c. \<not> is_space c) (slack_text m)"
    using dig sp unfolding s list_all_iff by fastforce
  then have "strip (slack_text m) = slack_text m" by (rule strip_no_space)
  moreover have "signed (slack_text m) = (m < 0, ?d)"
    using x digit_not_mark [of x] by (auto simp: signed_def s is_digit_def)
  moreover have "\<not> lower_is (c # w) ?d" if "c = CHR ''i'' \<or> c = CHR ''n''" for c w
    using that x by (simp add: lower_is_digit)
  moreover have "decimal (m < 0) ?d = Some (number_of (fl (of_int m / 1000)))"
  proof -
    have e: "takeWhile (\<lambda>c. c \<noteq> CHR ''e'' \<and> c \<noteq> CHR ''E'') ?d = ?d"
      unfolding takeWhile_eq_all_conv using dig sp by blast
    have "split_once CHR ''.'' ?d = [q, r]" using q(1) by (intro split_once_append) (auto simp: list_all_iff is_digit_def)
    then have "mantissa ?d = Some (q @ r, 3)" using q r r0 by (simp add: mantissa_def digit_part_digits)
    then show ?thesis using to_number_thousandths [OF assms] by (simp only: decimal_def Let_def e) (simp add: v scale10_def)
  qed
  ultimately show ?thesis by (simp add: py_float_def)
qed

text \<open>A slack on the command line is an argument, negative ones included.\<close>

lemma slack_classify:
  assumes "long_options c"
  shows "classify_arg c (slack_text m) = Inr (Given (slack_text m)) \<and> slack_text m \<noteq> ''--''"
proof -
  obtain q r where qr: "list_all is_digit q" "q \<noteq> []" "list_all is_digit r" "r \<noteq> []"
    and s: "slack_text m = (if m < 0 then ''-'' else []) @ q @ CHR ''.'' # r"
    using slack_parts [of m] by force
  show ?thesis
  proof (cases "m < 0")
    case True
    then show ?thesis using decimal_classify [OF assms qr] by (simp add: s)
  next
    case False
    then have "plain_arg (slack_text m)" using qr by (cases q) (auto simp: s plain_arg_def is_digit_def)
    then show ?thesis by simp
  qed
qed

section \<open>Matching the line\<close>

lemma first_opt_sign:
  assumes "list_all is_digit q" and "q \<noteq> []"
  shows "first (opt (Cls (\<lambda>c. c = CHR ''+'' \<or> c = CHR ''-''))) (b, (if neg then ''-'' else []) @ q @ t, g)
    = Some ((if neg then ''-'' else []) @ b, q @ t, g)"
proof (cases neg)
  case True
  then show ?thesis by (simp add: opt_def first_Alt1 [OF first_Cls])
next
  case False
  from assms obtain c q' where q: "q = c # q'" "is_digit c" by (cases q) auto
  with digit_not_mark have "c \<noteq> CHR ''+'' \<and> c \<noteq> CHR ''-''" by blast
  then have "first (Cls (\<lambda>c. c = CHR ''+'' \<or> c = CHR ''-'')) (b, q @ t, g) = None" by (simp add: q first_def)
  then show ?thesis using False by (simp add: opt_def first_Alt2 first_Empty)
qed

lemma first_slack: "first slack_rx (b, slack_text m @ ''ns'' @ t, g) = Some (rev (slack_text m) @ b, ''ns'' @ t, g)"
proof -
  let ?q = "nat_digits 10 (nat \<bar>m\<bar> div 1000)" and ?r = "zero_pad 3 (nat_digits 10 (nat \<bar>m\<bar> mod 1000))"
  let ?s = "if m < 0 then ''-'' else []"
  have q: "list_all is_digit ?q" "?q \<noteq> []" by (simp_all add: nat_digits_dec)
  have r: "list_all is_digit ?r" "?r \<noteq> []"
    using nat_digits_dec [of "nat \<bar>m\<bar> mod 1000"] by (auto simp: zero_pad_def list_all_iff is_digit_def)
  have "first slack_rx (b, ?s @ ?q @ ''.'' @ ?r @ ''ns'' @ t, g) = Some (rev ?r @ rev ''.'' @ rev ?q @ ?s @ b, ''ns'' @ t, g)"
    unfolding slack_rx_def digits_def
    by (rule first_seqs(2) [OF first_opt_sign [OF q]], rule first_seqs(2) [OF first_plus_Cls [OF q]], simp add: is_digit_def,
        rule first_seqs(2) [OF first_lit], rule first_seqs(2) [OF first_plus_Cls [OF r]], simp add: is_digit_def,
        rule first_seqs(1))
  then show ?thesis by (cases "m < 0") (simp_all add: slack_text_def)
qed

lemma WNS_match: "\<exists>mm. re_search WNS_RE (wns_line n m @ t) = Some mm \<and> group mm 1 = slack_text m"
proof -
  let ?n = "nat_digits 10 n"
  have n: "list_all is_digit ?n" "?n \<noteq> []" by (simp_all add: nat_digits_dec)
  have sp: "list_all is_space '' ''" "list_all is_space ''  ''" "list_all is_space []" by simp_all
  have no_sp: "is_digit c \<Longrightarrow> \<not> is_space c" "c = CHR ''-'' \<or> is_digit c \<Longrightarrow> \<not> is_space c" for c
    by (auto simp: is_digit_def is_space_def Let_def)
  have hs: "hd (slack_text m @ u) = CHR ''-'' \<or> is_digit (hd (slack_text m @ u))" for u
    using nat_digits_dec [of "nat \<bar>m\<bar> div 1000"] by (cases "nat_digits 10 (nat \<bar>m\<bar> div 1000)") (auto simp: slack_text_def)
  have hn: "is_digit (hd (?n @ u))" for u using n by (cases ?n) auto
  have "\<exists>b. first WNS_RE ([], ''Setup'' @ '' '' @ '':'' @ '' '' @ ?n @ '' '' @ ''Failing Endpoints,'' @ ''  '' @ ''Worst Slack'' @ '' ''
      @ slack_text m @ ''ns'' @ '',  Total Violation'' @ t, []) = Some (b, '',  Total Violation'' @ t, [(1, slack_text m)])"
    unfolding WNS_RE_def spaces_def digits_def
    by (rule exI, rule first_seqs(2) [OF first_lit],
        rule first_seqs(2) [OF first_Star_Cls [OF sp(1)]], simp add: is_space_def, rule first_seqs(2) [OF first_lit],
        rule first_seqs(2) [OF first_Star_Cls [OF sp(1)]], use hn no_sp(1) in blast,
        rule first_seqs(2) [OF first_plus_Cls [OF n]], simp add: is_digit_def,
        rule first_seqs(2) [OF first_Star_Cls [OF sp(1)]], simp add: is_space_def, rule first_seqs(2) [OF first_lit],
        rule first_seqs(2) [OF first_Star_Cls [OF sp(2)]], simp add: is_space_def, rule first_seqs(2) [OF first_lit],
        rule first_seqs(2) [OF first_Star_Cls [OF sp(1)]], use hs no_sp(2) in blast,
        rule first_seqs(2) [OF first_Grp [OF first_slack]], rule first_seqs(2) [OF first_lit], rule first_seqs(1))
  then obtain b where "first WNS_RE ([], wns_line n m @ t, []) = Some (b, '',  Total Violation'' @ t, [(1, slack_text m)])"
    by (auto simp: wns_line_def)
  then show ?thesis by (simp add: re_search_def search_from.simps match_at_first group_def)
qed

section \<open>The command line\<close>

lemma wns_slice: "match_counts [\<lparr>p_name = ''report'', p_nargs = One, p_conv = To_Str\<rparr>] 1 ''AOA'' = [1]"
  by code_simp

lemma wns_parse:
  assumes "plain_arg report" and "\<bar>k\<bar> < 2 ^ 40"
  shows "parse_args WNS_ARGS [report, ''--floor'', slack_text k] =
    Inr [(''--floor'', AFloat (number_of (fl (of_int k / 1000)))), (''report'', AStr report), (''--floor'', ANone)]"
proof -
  define o1 where o1: "o1 = needs_opt ''--floor'' To_Float"
  have o: "o_takes o1 = Some To_Float" "o_choices o1 = None" "o_name o1 = ''--floor''" "o_default o1 = ANone"
    by (simp_all add: o1 needs_opt_def takes_opt_def)
  have opts: "c_opts WNS_ARGS = [o1]" by (simp add: WNS_ARGS_def o1)
  have sl: "classify_arg WNS_ARGS (slack_text k) = Inr (Given (slack_text k))" "slack_text k \<noteq> ''--''"
    using slack_classify [of WNS_ARGS k] by (simp_all add: long_options_def opts o starts_with_def)
  have f: "find_opt WNS_ARGS ''--floor'' None = Some (Option o1 None)" by (simp add: find_opt_def opts o)
  have toks: "arg_tokens WNS_ARGS [report, ''--floor'', slack_text k] = Inr [Given report, Option o1 None, Given (slack_text k)]"
    using assms(1) sl by (simp add: classify_arg_def [of WNS_ARGS "''--floor''"] f)
  show ?thesis
    unfolding parse_args_def toks bindR.simps
    using assms(1) sl(2) wns_slice
    by (subst parse_loop.simps)
      (simp add: is_option_def consume_positionals_def WNS_ARGS_def [THEN arg_cong, of c_pos] pos_value_def one_value_plain
        convert_arg_def loop_option o loop_end py_float_slack [OF assms(2)] opts)
qed

section \<open>Properties\<close>

text \<open>
  C30. The command line \<open>report --floor f\<close>, on a report whose first setup line carries a slack: with both numbers
  in thousandths of a nanosecond, negative ones included, the tool never raises and exits 0 exactly when the slack
  is at least the floor, and 1 otherwise. At that precision the comparison in floating point is exact.
\<close>

theorem check_wns_exact:
  assumes "plain_arg report" and "w_files w report = Some (unlines (pre @ wns_line n m # post))"
    and "\<forall>l \<in> set pre. re_search WNS_RE (l @ [CHR 0x0A]) = None"
    and "\<forall>l \<in> set (pre @ post). CHR 0x0A \<notin> set l \<and> CHR 0x0D \<notin> set l"
    and "\<bar>k\<bar> < 2 ^ 40" and "\<bar>m\<bar> < 2 ^ 40"
  shows "\<exists>out. check_wns_cli says [report, ''--floor'', slack_text k] w
    = (Inr (if k \<le> m then 0 else 1), w\<lparr>w_out := w_out w @ out\<rparr>)"
proof -
  let ?ls = "pre @ wns_line n m # post" and ?fs = "w_files w"
  have dig: "list_all is_digit ds \<Longrightarrow> CHR 0x0A \<notin> set ds \<and> CHR 0x0D \<notin> set ds" for ds
    by (auto simp: list_all_iff is_digit_def)
  have "list_all is_digit (zero_pad 3 (nat_digits 10 i))" for i
    using nat_digits_dec [of i] by (auto simp: zero_pad_def list_all_iff is_digit_def)
  then have line: "CHR 0x0A \<notin> set (wns_line n m) \<and> CHR 0x0D \<notin> set (wns_line n m)"
    using dig nat_digits_dec by (simp add: wns_line_def slack_text_def)
  have all: "\<forall>l \<in> set ?ls. CHR 0x0A \<notin> set l \<and> CHR 0x0D \<notin> set l" using assms(4) line by auto
  then have "CHR 0x0D \<notin> set (unlines ?ls)" by (auto simp: unlines_def)
  then have rd: "read_text ?fs report = Inr (unlines ?ls)" using universal_newlines_id by (simp add: read_text_def assms(2))
  have ls: "file_lines (unlines ?ls) = map (\<lambda>l. l @ [CHR 0x0A]) ?ls" using all by (intro file_lines_unlines) blast
  obtain mm where "re_search WNS_RE (wns_line n m @ [CHR 0x0A]) = Some mm" "group mm 1 = slack_text m" using WNS_match by blast
  then have "find_wns (map (\<lambda>l. l @ [CHR 0x0A]) ?ls) = Some (Inr (number_of (fl (of_int m / 1000))))"
    using assms(3) by (induction pre) (simp_all add: py_float_slack [OF assms(6)])
  then have "parse_wns ?fs report = Inr (number_of (fl (of_int m / 1000)))" by (simp add: parse_wns_def rd ls del: list.map)
  then show ?thesis using fl_thousandths [OF assms(5,6)]
    by (auto simp: check_wns_cli_def parse_argsI_def wns_parse [OF assms(1,5)] bindI_ret str_arg_def float_arg_def arg_of_def
        completedI_def check_wns_main_def Let_def not_less)
qed

theorem check_wns_exact_witness:
  "let w = \<lparr>w_files = [''r'' \<mapsto> unlines ([''Report''] @ wns_line 0 (- 249) # [])], w_out = [], w_err = []\<rparr>
   in \<exists>out. check_wns_cli (\<lambda>_. []) [''r'', ''--floor'', slack_text (- 250)] w
     = (Inr (if (- 250 :: int) \<le> - 249 then 0 else 1), w\<lparr>w_out := w_out w @ out\<rparr>)"
proof -
  let ?w = "\<lparr>w_files = [''r'' \<mapsto> unlines ([''Report''] @ wns_line 0 (- 249) # [])], w_out = [], w_err = []\<rparr>"
  have "\<forall>l \<in> set [''Report'']. re_search WNS_RE (l @ [CHR 0x0A]) = None" by code_simp
  from check_wns_exact [of "''r''" ?w "[''Report'']" 0 "- 249" "[]" "- 250" "\<lambda>_. []", OF _ _ this]
  show ?thesis unfolding Let_def by (simp add: plain_arg_def)
qed

end
