(* ===== verification/Rtl_Rules.thy ===== *)
theory Rtl_Rules
  imports Py_Argparse
begin

text \<open>
  \<open>scripts/check_rtl_rules.py\<close>: the checker of the RTL coding rules. \<open>check_file\<close> scans a file's lines
  with a small state (counters for functions, tasks and generate regions, a stack of open \<open>begin\<close>
  blocks) and collects violations; \<open>main\<close> runs it over the gathered files and, in the pre-commit mode,
  keeps the violations on lines the commit adds. Which SystemVerilog files lie under a directory is the
  parameter \<open>rglob\<close> (\<open>None\<close> when the path is not a directory).
\<close>

section \<open>Patterns\<close>

definition kw :: "string \<Rightarrow> rx" where
  "kw s = seqs [Bol, spaces, lit s, WordB]"

definition ALWAYS_RE :: rx where
  "ALWAYS_RE = seqs [Bol, spaces, lit ''always_'', alts [lit ''ff'', lit ''comb'', lit ''latch''], WordB]"

definition AUTOMATIC_RE :: rx where
  "AUTOMATIC_RE = seqs [Bol, spaces, lit ''automatic'', spaces1, alts [lit ''logic'', lit ''int'', lit ''bit'', lit ''reg''], WordB]"

definition FUNCTION_RE :: rx where "FUNCTION_RE = kw ''function''"
definition ENDFUNCTION_RE :: rx where "ENDFUNCTION_RE = kw ''endfunction''"
definition TASK_RE :: rx where "TASK_RE = kw ''task''"
definition ENDTASK_RE :: rx where "ENDTASK_RE = kw ''endtask''"
definition GENERATE_RE :: rx where "GENERATE_RE = kw ''generate''"
definition ENDGENERATE_RE :: rx where "ENDGENERATE_RE = kw ''endgenerate''"

definition DECL_RE :: rx where
  "DECL_RE = seqs [Bol, spaces, alts [lit ''logic'', lit ''int'', lit ''bit'', lit ''reg'', lit ''enum'', lit ''struct''], WordB]"

definition digit_set :: rx where
  "digit_set = plus_rx (Cls is_digit)"

definition HISTORY_RE :: rx where
  "HISTORY_RE = seqs [Bol, spaces, lit ''//'', spaces,
     Alt (seqs [lit ''Stage'', spaces1, digit_set, Cls (\<lambda>c. CHR ''a'' \<le> c \<and> c \<le> CHR ''z''), spaces, lit '':''])
         (seqs [lit ''Fix'', spaces1, lit ''#'', digit_set, spaces, lit '':''])]"

definition IF_BARE_RE :: rx where
  "IF_BARE_RE = seqs [Bol, spaces, opt (Seq (lit ''end'') spaces1), opt (Seq (lit ''else'') spaces1), lit ''if'', spaces,
     lit ''('', Star (Cls (\<lambda>c. c \<noteq> CHR '')'')), lit '')'', spaces, Eol]"

definition IF_RESET_RE :: rx where
  "IF_RESET_RE = seqs [Bol, spaces, lit ''if'', spaces, lit ''('', spaces, lit ''!rst_ni'', spaces, lit '')'']"

definition BEGIN_NAMED_RE :: rx where
  "BEGIN_NAMED_RE = seqs [WordB, lit ''begin'', spaces, lit '':'', spaces, plus_rx (Cls is_word_char)]"

definition BEGIN_PLAIN_RE :: rx where
  "BEGIN_PLAIN_RE = seqs [WordB, lit ''begin'', WordB, NotAhead (Seq spaces (lit '':''))]"

definition END_RE :: rx where
  "END_RE = seqs [WordB, lit ''end'', WordB, NotAhead (Cls is_word_char)]"

section \<open>One file\<close>

record scan =
  seen_first_always :: bool
  in_function :: nat
  in_task :: nat
  in_generate :: nat
  begin_stack :: "bool list"

definition scan_init :: scan where
  "scan_init = \<lparr>seen_first_always = False, in_function = 0, in_task = 0, in_generate = 0, begin_stack = []\<rparr>"

definition hits :: "rx \<Rightarrow> string \<Rightarrow> bool" where
  "hits r s \<longleftrightarrow> re_match r s \<noteq> None"

definition count_up :: "rx \<Rightarrow> rx \<Rightarrow> string \<Rightarrow> nat \<Rightarrow> nat" where
  "count_up r_in r_out line k =
     (let k1 = (if hits r_in line then k + 1 else k) in if hits r_out line then k1 - 1 else k1)"

text \<open>The stack, its top at the end: the labelled begins of the line, the plain ones, then one pop per end.\<close>

definition step_stack :: "string \<Rightarrow> bool list \<Rightarrow> bool list" where
  "step_stack no_comment st =
     (let st1 = st @ map (\<lambda>_. True) (re_finditer BEGIN_NAMED_RE no_comment)
                   @ map (\<lambda>_. False) (re_finditer BEGIN_PLAIN_RE no_comment)
      in take (length st1 - length (re_finditer END_RE no_comment)) st1)"

text \<open>\<open>line.split("//", 1)[0]\<close>.\<close>

fun before_comment :: "string \<Rightarrow> string" where
  "before_comment [] = []"
| "before_comment (c # cs) = (if starts_with ''//'' (c # cs) then [] else c # before_comment cs)"

definition at_line :: "string \<Rightarrow> nat \<Rightarrow> string \<Rightarrow> string" where
  "at_line path n msg = path @ '':'' @ str_int (int n) @ '': '' @ msg"

definition r2_msg :: string where
  "r2_msg = ''R2: `automatic` on variable declaration''"

definition decl_msg :: string where
  "decl_msg = ''R1/R3: declaration after first `always_*` (must move to module-scope decl block at top of module)''"

definition history_msg :: string where
  "history_msg = ''history-prefix comment (strip `Stage NX:` / `Fix #N:` per CLAUDE.md)''"

definition if_msg :: string where
  "if_msg = ''multi-line `if` without `begin`/`end` (wrap body or use single-line form)''"

text \<open>The look-ahead behind a bare \<open>if\<close>: whether one of the next lines is taken for an unwrapped body.\<close>

fun bare_body :: "string list \<Rightarrow> bool" where
  "bare_body [] = False"
| "bare_body (ahead # rest) =
     (let a = strip ahead in
      if a = [] then bare_body rest
      else if starts_with ''begin'' a then False
      else if ends_with '';'' a \<or> ends_with '','' a \<or> starts_with ''&'' a \<or> starts_with ''|'' a
      then (if contains ''begin'' a \<or> ends_with '') begin'' a then False else bare_body rest)
      else True)"

definition check_line :: "string \<Rightarrow> nat \<Rightarrow> string \<Rightarrow> string list \<Rightarrow> scan \<Rightarrow> string list \<times> scan" where
  "check_line path n raw next3 s =
     (let line = rstrip raw;
          s = s\<lparr>in_function := count_up FUNCTION_RE ENDFUNCTION_RE line (in_function s),
               in_task := count_up TASK_RE ENDTASK_RE line (in_task s),
               in_generate := count_up GENERATE_RE ENDGENERATE_RE line (in_generate s),
               begin_stack := step_stack (before_comment line) (begin_stack s)\<rparr>;
          in_named_begin = list_ex id (begin_stack s);
          v1 = (if hits AUTOMATIC_RE line then [at_line path n r2_msg] else []);
          v2 = (if \<not> hits ALWAYS_RE line \<and> seen_first_always s \<and> hits DECL_RE line \<and> in_function s = 0
                   \<and> in_task s = 0 \<and> in_generate s = 0 \<and> \<not> in_named_begin
                then [at_line path n decl_msg] else []);
          s = (if hits ALWAYS_RE line then s\<lparr>seen_first_always := True\<rparr> else s);
          v3 = (if hits HISTORY_RE line then [at_line path n history_msg] else []);
          v4 = (if hits IF_BARE_RE line \<and> \<not> hits IF_RESET_RE line \<and> bare_body next3
                then [at_line path n if_msg] else [])
      in (v1 @ v2 @ v3 @ v4, s))"

fun check_lines :: "string \<Rightarrow> nat \<Rightarrow> string list \<Rightarrow> scan \<Rightarrow> string list" where
  "check_lines path n [] s = []"
| "check_lines path n (raw # rest) s =
     (case check_line path n raw (take 3 rest) s of (vs, s') \<Rightarrow> vs @ check_lines path (Suc n) rest s')"

definition check_file :: "files \<Rightarrow> string \<Rightarrow> string list" where
  "check_file fs path = (case read_text fs path of
      Inl e \<Rightarrow> (case e of OSError msg \<Rightarrow> [path @ '': cannot read: '' @ msg] | _ \<Rightarrow> [])
    | Inr s \<Rightarrow> check_lines path 1 (splitlines s) scan_init)"

section \<open>The files to check\<close>

record rtl_args =
  paths :: "string list"
  staged :: bool

text \<open>\<open>Path(p).suffix\<close>: from the last dot of the last component, unless it begins or ends the name.\<close>

definition path_suffix :: "string \<Rightarrow> string" where
  "path_suffix p =
     (let name = last (split_char CHR ''/'' p);
          ext = rev (takeWhile (\<lambda>c. c \<noteq> CHR ''.'') (rev name))
      in if CHR ''.'' \<in> set name \<and> ext \<noteq> [] \<and> length ext + 1 < length name then CHR ''.'' # ext else [])"

text \<open>The paths \<open>gather_files\<close> goes through; its test that a staged file exists comes when the file's turn does.\<close>

definition gather_files :: "exec \<Rightarrow> (string \<Rightarrow> string list option) \<Rightarrow> rtl_args \<Rightarrow> string list io" where
  "gather_files exec rglob args =
     (if staged args
      then bindI (check_outputI exec [''git'', ''diff'', ''--cached'', ''--name-only'', ''--diff-filter=ACMR'']) (\<lambda>out.
           retI (filter (\<lambda>p. path_suffix p = ''.sv'') (map path_norm (splitlines out))))
      else if paths args \<noteq> []
      then retI (concat (map (\<lambda>p. case rglob p of Some fs \<Rightarrow> fs | None \<Rightarrow> if path_suffix p = ''.sv'' then [p] else [])
                   (map path_norm (paths args))))
      else retI (concat (map (\<lambda>root. case rglob root of Some fs \<Rightarrow> fs | None \<Rightarrow> []) [''rtl'', ''tb''])))"

definition hunk_re :: rx where
  "hunk_re = seqs [Bol, lit ''@@ -'', digits, opt (Seq (lit '','') digits), lit '' +'', Grp 1 digits,
     opt (Seq (lit '','') (Grp 2 digits)), lit '' @@'']"

definition hunk_lines :: "string \<Rightarrow> nat list" where
  "hunk_lines raw = (case re_match hunk_re raw of
      None \<Rightarrow> []
    | Some m \<Rightarrow> (let start = dec_value (group m 1); count = (if group m 2 \<noteq> [] then dec_value (group m 2) else 1)
        in [start ..< start + count]))"

definition staged_added_lines :: "exec \<Rightarrow> string \<Rightarrow> nat list io" where
  "staged_added_lines exec path =
     bindI (check_outputI exec [''git'', ''diff'', ''--cached'', ''--unified=0'', ''--no-color'', ''--'', path]) (\<lambda>out.
       retI (concat (map hunk_lines (splitlines out))))"

definition line_re :: rx where
  "line_re = seqs [Bol, Grp 1 (plus_rx (Cls (\<lambda>c. c \<noteq> CHR '':''))), lit '':'', Grp 2 digits, lit '':'']"

definition on_added :: "nat list \<Rightarrow> string \<Rightarrow> bool" where
  "on_added added v = (case re_match line_re v of None \<Rightarrow> False | Some m \<Rightarrow> dec_value (group m 2) \<in> set added)"

fun check_all :: "exec \<Rightarrow> rtl_args \<Rightarrow> string list \<Rightarrow> string list \<Rightarrow> string list io" where
  "check_all exec args [] acc = retI acc"
| "check_all exec args (p # ps) acc =
     bindI filesI (\<lambda>fs.
     (let vs = check_file fs p in
      if staged args \<and> fs p = None then check_all exec args ps acc
      else if staged args
      then bindI (staged_added_lines exec p) (\<lambda>added. check_all exec args ps (acc @ filter (on_added added) vs))
      else check_all exec args ps (acc @ vs)))"

definition rtl_main :: "exec \<Rightarrow> (string \<Rightarrow> string list option) \<Rightarrow> rtl_args \<Rightarrow> int io" where
  "rtl_main exec rglob args =
     bindI (gather_files exec rglob args) (\<lambda>ps.
     bindI (check_all exec args ps []) (\<lambda>violations.
     if violations \<noteq> []
     then bindI (errI (unlines ([''RTL rule violations:''] @ map (\<lambda>v. ''  '' @ v) violations
            @ ['''', str_int (int (length violations))
                 @ '' violation(s). See CLAUDE.md `## SystemVerilog Coding Guidelines` for context.'']
            @ (if staged args then [''Bypass with `git commit --no-verify` if intentional.''] else [])))) (\<lambda>_. retI 1)
     else retI 0))"

text \<open>The command line.\<close>

definition RTL_ARGS :: cli where
  "RTL_ARGS = \<lparr>c_opts = [flag_opt ''--staged''], c_pos = [\<lparr>p_name = ''paths'', p_nargs = Many, p_conv = To_Str\<rparr>]\<rparr>"

definition rtl_cli :: "(string list \<Rightarrow> string) \<Rightarrow> exec \<Rightarrow> (string \<Rightarrow> string list option) \<Rightarrow> string list \<Rightarrow> int io" where
  "rtl_cli says exec rglob argv = bindI (parse_argsI says RTL_ARGS argv) (\<lambda>ns.
     rtl_main exec rglob \<lparr>paths = list_arg ns ''paths'', staged = bool_arg ns ''--staged''\<rparr>)"

section \<open>Facts\<close>

lemma line_re_match:
  assumes "p \<noteq> []" and "CHR '':'' \<notin> set p"
  shows "\<exists>m. re_match line_re (at_line p n msg) = Some m \<and> group m 2 = str_int (int n)"
proof -
  let ?n = "nat_digits 10 n"
  have n: "list_all is_digit ?n" "?n \<noteq> []" by (simp_all add: nat_digits_dec)
  have p: "list_all (\<lambda>c. c \<noteq> CHR '':'') p" using assms(2) by (auto simp: list_all_iff)
  have "\<exists>b. first line_re ([], p @ '':'' @ ?n @ '':'' @ '' '' @ msg, []) = Some (b, '' '' @ msg, [(2, ?n), (1, p)])"
    unfolding line_re_def digits_def
    by (rule exI, rule first_seqs(2) [OF first_Bol], rule first_seqs(2) [OF first_Grp [OF first_plus_Cls [OF p assms(1)]]], simp,
        rule first_seqs(2) [OF first_lit], rule first_seqs(2) [OF first_Grp [OF first_plus_Cls [OF n]]], simp add: is_digit_def,
        rule first_seqs(2) [OF first_lit], rule first_seqs(1))
  then obtain b where "first line_re ([], at_line p n msg, []) = Some (b, '' '' @ msg, [(2, ?n), (1, p)])"
    by (auto simp: at_line_def str_int_def)
  then show ?thesis by (simp add: re_match_def match_at_first group_def str_int_def)
qed

lemma on_added_at_line:
  "p \<noteq> [] \<Longrightarrow> CHR '':'' \<notin> set p \<Longrightarrow> on_added added (at_line p n msg) \<longleftrightarrow> n \<in> set added"
  using line_re_match [of p n msg] by (auto simp: on_added_def str_int_def)

text \<open>The violations of a file as data: a line number and a message.\<close>

definition line_messages :: "nat \<Rightarrow> string \<Rightarrow> string list \<Rightarrow> scan \<Rightarrow> (nat \<times> string) list" where
  "line_messages n raw next3 s =
     (let line = rstrip raw; s' = snd (check_line [] n raw next3 s) in
      (if hits AUTOMATIC_RE line then [(n, r2_msg)] else []) @
      (if \<not> hits ALWAYS_RE line \<and> seen_first_always s \<and> hits DECL_RE line \<and> in_function s' = 0 \<and> in_task s' = 0
          \<and> in_generate s' = 0 \<and> \<not> list_ex id (begin_stack s') then [(n, decl_msg)] else []) @
      (if hits HISTORY_RE line then [(n, history_msg)] else []) @
      (if hits IF_BARE_RE line \<and> \<not> hits IF_RESET_RE line \<and> bare_body next3 then [(n, if_msg)] else []))"

fun file_messages :: "nat \<Rightarrow> string list \<Rightarrow> scan \<Rightarrow> (nat \<times> string) list" where
  "file_messages n [] s = []"
| "file_messages n (raw # rest) s =
     line_messages n raw (take 3 rest) s @ file_messages (Suc n) rest (snd (check_line [] n raw (take 3 rest) s))"

lemma check_line_messages:
  "check_line path n raw next3 s = (map (\<lambda>(n, m). at_line path n m) (line_messages n raw next3 s), snd (check_line [] n raw next3 s))"
  by (simp add: check_line_def line_messages_def Let_def)

lemma check_lines_messages:
  "check_lines path n ls s = map (\<lambda>(n, m). at_line path n m) (file_messages n ls s)"
proof (induction ls arbitrary: n s)
  case (Cons raw rest)
  show ?case
    by (subst check_lines.simps, subst check_line_messages) (simp add: Cons.IH)
qed simp

lemma file_messages_range: "(k, m) \<in> set (file_messages n ls s) \<Longrightarrow> n \<le> k \<and> k < n + length ls"
proof (induction ls arbitrary: n s)
  case (Cons raw rest)
  from Cons.prems consider "(k, m) \<in> set (line_messages n raw (take 3 rest) s)"
    | "(k, m) \<in> set (file_messages (Suc n) rest (snd (check_line [] n raw (take 3 rest) s)))" by auto
  then show ?case
  proof cases
    case 1
    then show ?thesis by (auto simp: line_messages_def Let_def split: if_splits)
  next
    case 2
    from Cons.IH [OF this] show ?thesis by simp
  qed
qed simp

lemma messages_distinct [simp]:
  "r2_msg \<noteq> decl_msg" "r2_msg \<noteq> history_msg" "r2_msg \<noteq> if_msg"
  by (simp_all add: r2_msg_def decl_msg_def history_msg_def if_msg_def)

lemma file_messages_r2:
  "(k, r2_msg) \<in> set (file_messages n ls s) \<longleftrightarrow> n \<le> k \<and> k < n + length ls \<and> hits AUTOMATIC_RE (rstrip (ls ! (k - n)))"
proof (induction ls arbitrary: n s)
  case (Cons raw rest)
  have here: "(k, r2_msg) \<in> set (line_messages n raw (take 3 rest) s) \<longleftrightarrow> k = n \<and> hits AUTOMATIC_RE (rstrip raw)"
    by (auto simp: line_messages_def Let_def)
  show ?case
  proof (cases "k = n")
    case True
    then show ?thesis using here file_messages_range by fastforce
  next
    case False
    then show ?thesis using here Cons.IH [of "Suc n"] by (auto simp: nth_Cons' Suc_diff_Suc less_Suc_eq_le dest: le_neq_implies_less)
  qed
qed simp

lemma check_file_messages:
  assumes "fs p = Some s"
  shows "check_file fs p = map (\<lambda>(n, m). at_line p n m) (file_messages 1 (splitlines (universal_newlines s)) scan_init)"
  by (simp add: check_file_def read_text_def assms check_lines_messages)

lemma end_else_begin: "length (re_finditer BEGIN_NAMED_RE ''end else begin'') = 0"
  "length (re_finditer BEGIN_PLAIN_RE ''end else begin'') = 1" "length (re_finditer END_RE ''end else begin'') = 1"
  by code_simp+

lemma end_else_begin_keeps_label: "step_stack ''end else begin'' (st @ [b]) = st @ [b]"
proof -
  have "re_finditer BEGIN_NAMED_RE ''end else begin'' = []" "map (\<lambda>_. False) (re_finditer BEGIN_PLAIN_RE ''end else begin'') = [False]"
    using end_else_begin by (simp_all add: length_Suc_conv, auto simp: length_Suc_conv)
  then show ?thesis using end_else_begin(3) by (simp add: step_stack_def Let_def)
qed

text \<open>Equal violations have equal lines and messages: a line number has no colon.\<close>

lemma digits_colon: "list_all is_digit d \<Longrightarrow> list_all is_digit d' \<Longrightarrow> d @ CHR '':'' # x = d' @ CHR '':'' # y \<Longrightarrow> d = d' \<and> x = y"
proof (induction d arbitrary: d')
  case Nil
  then show ?case by (cases d') (auto simp: is_digit_def)
next
  case (Cons c d)
  then show ?case by (cases d') (auto simp: is_digit_def)
qed

lemma at_line_inject [simp]: "at_line p n m = at_line p n' m' \<longleftrightarrow> n = n' \<and> m = m'"
proof
  assume "at_line p n m = at_line p n' m'"
  then have "nat_digits 10 n @ CHR '':'' # CHR '' '' # m = nat_digits 10 n' @ CHR '':'' # CHR '' '' # m'"
    by (simp add: at_line_def str_int_def)
  from digits_colon [OF _ _ this] have "nat_digits 10 n = nat_digits 10 n'" and m: "m = m'"
    by (simp_all add: nat_digits_dec)
  then have "dec_value (nat_digits 10 n) = dec_value (nat_digits 10 n')" by (simp only:)
  with m show "n = n' \<and> m = m'" by simp
qed simp

definition added_by :: "string \<Rightarrow> nat list" where
  "added_by out = concat (map hunk_lines (splitlines out))"

abbreviation names_cmd :: "string list" where
  "names_cmd \<equiv> [''git'', ''diff'', ''--cached'', ''--name-only'', ''--diff-filter=ACMR'']"

abbreviation hunks_cmd :: "string \<Rightarrow> string list" where
  "hunks_cmd p \<equiv> [''git'', ''diff'', ''--cached'', ''--unified=0'', ''--no-color'', ''--'', p]"

lemma check_all_staged:
  "only_reads exec git \<Longrightarrow> check_all exec \<lparr>paths = roots, staged = True\<rparr> ps acc w =
     (Inr (acc @ concat (map (\<lambda>p. if w_files w p = None then []
        else filter (on_added (added_by (git (hunks_cmd p)))) (check_file (w_files w) p)) ps)), w)"
proof (induction ps arbitrary: acc)
  case (Cons p ps)
  then show ?case
    by (simp add: io_simps Let_def staged_added_lines_def check_output_reads added_by_def)
qed (simp add: io_simps)

lemma rtl_main_staged:
  assumes "only_reads exec git"
  shows "fst (rtl_main exec rglob \<lparr>paths = roots, staged = True\<rparr> w) =
    Inr (if \<exists>p \<in> set (map path_norm (splitlines (git names_cmd))). path_suffix p = ''.sv'' \<and> w_files w p \<noteq> None \<and>
              filter (on_added (added_by (git (hunks_cmd p)))) (check_file (w_files w) p) \<noteq> [] then 1 else 0)"
proof -
  let ?a = "\<lparr>paths = roots, staged = True\<rparr>"
  let ?ps = "filter (\<lambda>p. path_suffix p = ''.sv'') (map path_norm (splitlines (git names_cmd)))"
  let ?vs = "concat (map (\<lambda>p. if w_files w p = None then []
        else filter (on_added (added_by (git (hunks_cmd p)))) (check_file (w_files w) p)) ?ps)"
  have g: "gather_files exec rglob ?a w = (Inr ?ps, w)"
    by (simp add: gather_files_def check_output_reads [OF assms] io_simps)
  have c: "check_all exec ?a ?ps [] w = (Inr ?vs, w)"
    by (simp add: check_all_staged [OF assms])
  have "fst (rtl_main exec rglob ?a w) = Inr (if ?vs \<noteq> [] then 1 else 0)"
    unfolding rtl_main_def bindI_done [of "gather_files exec rglob ?a" w, OF g]
      bindI_done [of "check_all exec ?a ?ps []" w, OF c]
    by (simp add: io_simps)
  moreover have "?vs \<noteq> [] \<longleftrightarrow> (\<exists>p \<in> set (map path_norm (splitlines (git names_cmd))). path_suffix p = ''.sv'' \<and> w_files w p \<noteq> None \<and>
       filter (on_added (added_by (git (hunks_cmd p)))) (check_file (w_files w) p) \<noteq> [])"
    unfolding concat_eq_Nil_conv by (auto split: if_splits)
  ultimately show ?thesis by simp
qed

lemma path_suffix_empty: "path_suffix [] = []"
  by code_simp

lemma path_suffix_nonempty: "path_suffix p = ''.sv'' \<Longrightarrow> p \<noteq> []"
  by (cases p) (simp_all add: path_suffix_empty)

lemma filter_on_added:
  assumes "fs p = Some s" and "p \<noteq> []" and "CHR '':'' \<notin> set p"
  shows "filter (on_added added) (check_file fs p) \<noteq> [] \<longleftrightarrow> (\<exists>n m. n \<in> set added \<and> at_line p n m \<in> set (check_file fs p))"
    (is "_ \<longleftrightarrow> ?R")
proof
  assume "filter (on_added added) (check_file fs p) \<noteq> []"
  then obtain v where v: "v \<in> set (check_file fs p)" "on_added added v" by (auto simp: filter_empty_conv)
  then obtain n m where "v = at_line p n m" using check_file_messages [of fs p s, OF assms(1)] by auto
  with v show ?R using on_added_at_line [OF assms(2,3)] by blast
next
  assume ?R
  then show "filter (on_added added) (check_file fs p) \<noteq> []"
    unfolding filter_empty_conv using on_added_at_line [OF assms(2,3)] by blast
qed

lemma check_file_r2:
  assumes "fs p = Some s"
  defines "ls \<equiv> splitlines (universal_newlines s)"
  shows "at_line p n r2_msg \<in> set (check_file fs p) \<longleftrightarrow> 1 \<le> n \<and> n \<le> length ls \<and> hits AUTOMATIC_RE (rstrip (ls ! (n - 1)))"
proof -
  have "at_line p n r2_msg \<in> set (check_file fs p) \<longleftrightarrow> (n, r2_msg) \<in> set (file_messages 1 ls scan_init)"
    unfolding check_file_messages [of fs p s, OF assms(1)] ls_def by (auto intro: rev_image_eqI)
  then show ?thesis by (auto simp: file_messages_r2)
qed

text \<open>
  C31. The pre-commit mode of \<open>check_rtl_rules.py\<close> fails the commit exactly when a staged SystemVerilog
  file that exists has a violation, as the full scan of that file reports it, on one of the lines the
  commit adds: filtering the messages by their \<open>path:line:\<close> prefix loses nothing and lets nothing else
  through, for paths without a colon and whatever git answers.
\<close>

theorem precommit_verdict:
  assumes "only_reads exec git" and "\<forall>p \<in> set (map path_norm (splitlines (git names_cmd))). CHR '':'' \<notin> set p"
  shows "fst (rtl_main exec rglob \<lparr>paths = roots, staged = True\<rparr> w) =
    Inr (if \<exists>p \<in> set (map path_norm (splitlines (git names_cmd))). path_suffix p = ''.sv'' \<and> w_files w p \<noteq> None \<and>
              (\<exists>n m. n \<in> set (added_by (git (hunks_cmd p))) \<and> at_line p n m \<in> set (check_file (w_files w) p))
         then 1 else 0)"
proof -
  have "filter (on_added (added_by (git (hunks_cmd p)))) (check_file (w_files w) p) \<noteq> [] \<longleftrightarrow>
      (\<exists>n m. n \<in> set (added_by (git (hunks_cmd p))) \<and> at_line p n m \<in> set (check_file (w_files w) p))"
    if "p \<in> set (map path_norm (splitlines (git names_cmd)))" "path_suffix p = ''.sv''" "w_files w p \<noteq> None" for p
    using that filter_on_added [OF _ path_suffix_nonempty] assms(2) by blast
  then show ?thesis unfolding rtl_main_staged [OF assms(1)]
    by (intro arg_cong [where f = Inr] if_cong bex_cong conj_cong refl) blast+
qed

definition demo_git :: "string list \<Rightarrow> string" where
  "demo_git cmd = (if cmd = names_cmd then ''a.sv'' @ [CHR 0x0A] else ''@@ -0,0 +1 @@'' @ [CHR 0x0A])"

lemma demo_git_added: "splitlines (demo_git names_cmd) = [''a.sv'']" "added_by (demo_git (hunks_cmd ''a.sv'')) = [1]"
  "path_suffix ''a.sv'' = ''.sv''" "splitlines (universal_newlines ''automatic int i;'') = [''automatic int i;'']" "splitlines ''automatic int i;'' = [''automatic int i;'']"
  "hits AUTOMATIC_RE (rstrip ''automatic int i;'')" "path_norm ''a.sv'' = ''a.sv''"
  by code_simp+

theorem precommit_verdict_witness:
  "fst (rtl_main (\<lambda>cmd env limit fs. (Exited \<lparr>returncode = 0, stdout = demo_git cmd, stderr = []\<rparr>, fs)) (\<lambda>_. None)
     \<lparr>paths = [], staged = True\<rparr> \<lparr>w_files = [''a.sv'' \<mapsto> ''automatic int i;''], w_out = [], w_err = []\<rparr>) = Inr 1"
proof -
  have "at_line ''a.sv'' 1 r2_msg \<in> set (check_file [''a.sv'' \<mapsto> ''automatic int i;''] ''a.sv'')"
    by (subst check_file_r2, simp) (simp add: demo_git_added)
  then show ?thesis
    by (subst precommit_verdict [of _ demo_git]) (auto simp: only_reads_def demo_git_added intro!: exI [of _ "1::nat"])
qed

text \<open>
  Rule R2 is decided line by line: a readable file gets the \<open>automatic\<close> message at line \<open>n\<close> exactly when
  that line, stripped at its right end, matches \<open>AUTOMATIC_RE\<close>, whatever functions, tasks, generate regions
  or labelled blocks surround it.
\<close>

lemma r2_decided_by_line:
  assumes "fs p = Some s"
  shows "at_line p n r2_msg \<in> set (check_file fs p) \<longleftrightarrow>
    1 \<le> n \<and> n \<le> length (splitlines (universal_newlines s)) \<and>
    hits AUTOMATIC_RE (rstrip (splitlines (universal_newlines s) ! (n - 1)))"
  by (rule check_file_r2 [of fs p s, OF assms])

end
