(* ===== verification/Cosim_Mutator.thy ===== *)
theory Cosim_Mutator
  imports Py_Random Py_Regex Py_World "HOL-Library.AList"
begin

text \<open>
  \<open>tools/cosim_fuzz/mutator.py\<close>: the mutation headers of a C source (\<open>// MUTATE: n = randint(2, 12)\<close>),
  the draw of a value for each, and the substitution of the values into the constants of the source.
  A replacement goes through \<open>re\<close>'s template syntax, so a backslash in a chosen option is an escape.
\<close>

section \<open>Headers\<close>

datatype decl = Range_Decl int int | Choice_Decl "string list"

type_synonym decls = "(string \<times> decl) list"

definition word_rx :: rx where
  "word_rx = plus_rx (Cls is_word_char)"

definition number_rx :: rx where
  "number_rx = Seq (opt (lit ''-'')) digits"

definition HEADER_RE_RANGE :: rx where
  "HEADER_RE_RANGE = seqs [lit ''//'', spaces, lit ''MUTATE:'', spaces, Grp 1 word_rx, spaces, lit ''='', spaces,
     lit ''randint('', spaces, Grp 2 number_rx, spaces, lit '','', spaces, Grp 3 number_rx, spaces, lit '')'']"

definition HEADER_RE_CHOICE :: rx where
  "HEADER_RE_CHOICE = seqs [lit ''//'', spaces, lit ''MUTATE:'', spaces, Grp 1 word_rx, spaces, lit ''='', spaces,
     lit ''choice('', spaces, lit ''['', Grp 2 (plus_rx (Cls (\<lambda>c. c \<noteq> CHR '']''))), lit '']'', spaces, lit '')'']"

text \<open>\<open>s.strip(c)\<close> for one character.\<close>

definition strip_char :: "char \<Rightarrow> string \<Rightarrow> string" where
  "strip_char c s = rev (dropWhile (\<lambda>x. x = c) (rev (dropWhile (\<lambda>x. x = c) s)))"

definition choice_options :: "string \<Rightarrow> string list" where
  "choice_options s = map (\<lambda>o'. strip_char CHR 0x27 (strip_char CHR 0x22 (strip o'))) (split_char CHR '','' s)"

fun range_decls :: "rmatch list \<Rightarrow> decls \<Rightarrow> decls result" where
  "range_decls [] d = Inr d"
| "range_decls (m # ms) d =
     bindR (py_int (group m 2)) (\<lambda>lo. bindR (py_int (group m 3)) (\<lambda>hi.
       range_decls ms (AList.update (group m 1) (Range_Decl lo hi) d)))"

fun choice_decls :: "rmatch list \<Rightarrow> decls \<Rightarrow> decls" where
  "choice_decls [] d = d"
| "choice_decls (m # ms) d = choice_decls ms (AList.update (group m 1) (Choice_Decl (choice_options (group m 2))) d)"

definition parse_headers :: "string \<Rightarrow> decls result" where
  "parse_headers src =
     bindR (range_decls (re_finditer HEADER_RE_RANGE src) []) (\<lambda>d.
       Inr (choice_decls (re_finditer HEADER_RE_CHOICE src) d))"

section \<open>Values\<close>

datatype mvalue = VInt int | VStr string

record mutation =
  mut_name :: string
  mut_value :: mvalue

fun str_value :: "mvalue \<Rightarrow> string" where
  "str_value (VInt i) = str_int i"
| "str_value (VStr s) = s"

definition str_mutation :: "mutation \<Rightarrow> string" where
  "str_mutation m = mut_name m @ ''='' @ str_value (mut_value m)"

fun pick :: "decls \<Rightarrow> (rng, mutation list) sem" where
  "pick [] = retM []"
| "pick ((name, Range_Decl lo hi) # ds) =
     bindM (randint lo hi) (\<lambda>v. bindM (pick ds) (\<lambda>ms. retM (\<lparr>mut_name = name, mut_value = VInt v\<rparr> # ms)))"
| "pick ((name, Choice_Decl opts) # ds) =
     bindM (choice opts) (\<lambda>v. bindM (pick ds) (\<lambda>ms. retM (\<lparr>mut_name = name, mut_value = VStr v\<rparr> # ms)))"

section \<open>Replacement templates\<close>

text \<open>
  The replacement argument of \<open>subn\<close>, as \<open>re\<close> reads it for a pattern without groups: literal text and
  references to the whole match.
\<close>

datatype piece = PLit string | PWhole

definition template_escapes :: "(char \<times> char) list" where
  "template_escapes = [(CHR ''a'', CHR 0x07), (CHR ''b'', CHR 0x08), (CHR ''f'', CHR 0x0C), (CHR ''n'', CHR 0x0A),
     (CHR ''r'', CHR 0x0D), (CHR ''t'', CHR 0x09), (CHR ''v'', CHR 0x0B), (CHR 0x5C, CHR 0x5C)]"

definition is_octal :: "char \<Rightarrow> bool" where
  "is_octal c \<longleftrightarrow> CHR ''0'' \<le> c \<and> c \<le> CHR ''7''"

definition octal_value :: "string \<Rightarrow> nat" where
  "octal_value s = (case digits_value 8 0 s of Some v \<Rightarrow> v | None \<Rightarrow> 0)"

definition ascii_letter :: "char \<Rightarrow> bool" where
  "ascii_letter c \<longleftrightarrow> (let n = of_char (upper_char c) :: nat in 65 \<le> n \<and> n \<le> 90)"

text \<open>After a backslash: the piece the escape stands for and the number of characters it takes.\<close>

definition template_escape :: "string \<Rightarrow> (piece \<times> nat) result" where
  "template_escape s = (case s of
      [] \<Rightarrow> Inl (ReError ''bad escape (end of pattern)'')
    | d # ds \<Rightarrow>
       if d = CHR ''g'' then
         (let name = takeWhile (\<lambda>c. c \<noteq> CHR ''>'') (tl ds) in
          if ds = [] \<or> hd ds \<noteq> CHR ''<'' then Inl (ReError ''missing <'')
          else if CHR ''>'' \<notin> set (tl ds) then Inl (ReError ''missing >, unterminated name'')
          else if name \<noteq> [] \<and> list_all is_digit name \<and> dec_value name = 0 then Inr (PWhole, 3 + length name)
          else if name \<noteq> [] \<and> list_all is_word_char name \<and> \<not> is_digit (hd name)
          then Inl (IndexError (''unknown group name '' @ repr_str name))
          else Inl (ReError ''invalid group reference''))
       else if d = CHR ''0'' then
         (let o' = takeWhile is_octal (take 2 ds) in Inr (PLit [char_of (octal_value o')], 1 + length o'))
       else if is_digit d then
         (if length (takeWhile is_octal (take 3 (d # ds))) = 3
          then (if octal_value (take 3 (d # ds)) > 255 then Inl (ReError ''octal escape value outside of range 0-0o377'')
                else Inr (PLit [char_of (octal_value (take 3 (d # ds)))], 3))
          else Inl (ReError ''invalid group reference''))
       else (case map_of template_escapes d of
           Some e \<Rightarrow> Inr (PLit [e], 1)
         | None \<Rightarrow> if ascii_letter d then Inl (ReError (''bad escape '' @ [CHR 0x5C, d])) else Inr (PLit [CHR 0x5C, d], 1)))"

text \<open>The argument \<open>skip\<close> counts the characters of the last escape still to be passed over.\<close>

fun parse_template :: "nat \<Rightarrow> string \<Rightarrow> piece list result" where
  "parse_template skip [] = Inr []"
| "parse_template (Suc skip) (c # cs) = parse_template skip cs"
| "parse_template 0 (c # cs) =
     (if c \<noteq> CHR 0x5C then bindR (parse_template 0 cs) (\<lambda>ps. Inr (PLit [c] # ps))
      else bindR (template_escape cs) (\<lambda>(p, k). bindR (parse_template k cs) (\<lambda>ps. Inr (p # ps))))"

fun expand_piece :: "rmatch \<Rightarrow> piece \<Rightarrow> string" where
  "expand_piece m (PLit s) = s"
| "expand_piece m PWhole = m_text m"

definition expand :: "piece list \<Rightarrow> rmatch \<Rightarrow> string" where
  "expand ps m = concat (map (expand_piece m) ps)"

section \<open>Substitution\<close>

definition upper :: "string \<Rightarrow> string" where
  "upper s = map upper_char s"

definition const_re :: "string \<Rightarrow> rx" where
  "const_re name = seqs [WordB, lit name, spaces, lit ''='', spaces, opt (lit ''-''), digits]"

text \<open>One call of \<open>subn(..., count=1)\<close>: the template is read first, and \<open>None\<close> means that nothing matched.\<close>

definition set_const :: "string \<Rightarrow> mvalue \<Rightarrow> string \<Rightarrow> string option result" where
  "set_const name v src =
     bindR (parse_template 0 (name @ '' = '' @ str_value v)) (\<lambda>t. Inr (re_subn1 (const_re name) (expand t) src))"

definition apply_mutation :: "mutation \<Rightarrow> string \<Rightarrow> string result" where
  "apply_mutation m src =
     bindR (set_const (upper (mut_name m)) (mut_value m) src) (\<lambda>r. case r of
         Some out' \<Rightarrow> Inr out'
       | None \<Rightarrow> bindR (set_const (mut_name m) (mut_value m) src) (\<lambda>r2. case r2 of
             Some out' \<Rightarrow> Inr out' | None \<Rightarrow> Inr src))"

fun apply_mutations :: "string \<Rightarrow> mutation list \<Rightarrow> string result" where
  "apply_mutations src [] = Inr src"
| "apply_mutations src (m # ms) = bindR (apply_mutation m src) (\<lambda>src'. apply_mutations src' ms)"

definition mutate_file :: "(int \<Rightarrow> rng) \<Rightarrow> files \<Rightarrow> string \<Rightarrow> int \<Rightarrow> (string \<times> mutation list) result" where
  "mutate_file twister fs path seed =
     bindR (read_text fs path) (\<lambda>src.
     bindR (parse_headers src) (\<lambda>decls.
     bindR (pick decls (twister seed)) (\<lambda>(muts, _).
     bindR (apply_mutations src muts) (\<lambda>out'. Inr (out', muts)))))"

section \<open>The first constant of a name\<close>

text \<open>
  \<open>const_at k b a v\<close>: with \<open>b\<close> behind it (reversed), \<open>a\<close> begins with a definition \<open>k = <number>\<close> of the
  constant \<open>k\<close>, at the start of a word, and \<open>v\<close> follows the number.
\<close>

definition is_number :: "string \<Rightarrow> bool" where
  "is_number d \<longleftrightarrow> (let ds = (if d \<noteq> [] \<and> hd d = CHR ''-'' then tl d else d) in ds \<noteq> [] \<and> list_all is_digit ds)"

definition const_at :: "string \<Rightarrow> string \<Rightarrow> string \<Rightarrow> string \<Rightarrow> bool" where
  "const_at k b a v \<longleftrightarrow> (\<exists>s1 s2 d. a = k @ s1 @ ''='' @ s2 @ d @ v \<and> list_all is_space s1 \<and> list_all is_space s2
     \<and> is_number d \<and> (v = [] \<or> \<not> is_digit (hd v)) \<and> is_word_at b \<noteq> is_word_at a)"

definition has_const :: "string \<Rightarrow> string \<Rightarrow> bool" where
  "has_const k src \<longleftrightarrow> (\<exists>u a v. src = u @ a \<and> const_at k (rev u) a v)"

text \<open>The first definition of \<open>k\<close> in \<open>src\<close> gets the value \<open>i\<close>; the rest of the text stays.\<close>

definition const_set :: "string \<Rightarrow> int \<Rightarrow> string \<Rightarrow> string \<Rightarrow> bool" where
  "const_set k i src out' \<longleftrightarrow> (\<exists>u a v. src = u @ a \<and> const_at k (rev u) a v \<and> out' = u @ k @ '' = '' @ str_int i @ v
     \<and> (\<forall>u' a' v'. src = u' @ a' \<longrightarrow> const_at k (rev u') a' v' \<longrightarrow> length u \<le> length u'))"

lemma marks [simp]: "\<not> is_space CHR ''=''" "\<not> is_space CHR ''-''" "\<not> is_digit CHR ''-''" "\<not> is_digit CHR ''=''"
  by (simp_all add: is_space_def is_digit_def)

lemma digit_not_space: "is_digit c \<Longrightarrow> \<not> is_space c"
  using digit_is_hex hex_not_space by blast

lemma is_number_cases:
  assumes "is_number d"
  obtains ds where "d = ''-'' @ ds" "ds \<noteq> []" "list_all is_digit ds"
    | "d \<noteq> []" "list_all is_digit d"
  using assms by (cases d) (auto simp: is_number_def Let_def split: if_splits)

lemma first_opt_minus:
  "first (opt (lit ''-'')) (b, CHR ''-'' # a, g) = Some (CHR ''-'' # b, a, g)"
  "a = [] \<or> hd a \<noteq> CHR ''-'' \<Longrightarrow> first (opt (lit ''-'')) (b, a, g) = Some (b, a, g)"
proof -
  show "first (opt (lit ''-'')) (b, CHR ''-'' # a, g) = Some (CHR ''-'' # b, a, g)"
    using first_lit [of "''-''" b a g] unfolding opt_def by (intro first_Alt1) simp
  show "a = [] \<or> hd a \<noteq> CHR ''-'' \<Longrightarrow> first (opt (lit ''-'')) (b, a, g) = Some (b, a, g)"
    unfolding opt_def by (subst first_Alt2 [OF first_lit_None]) (simp_all add: first_Empty)
qed

lemma first_number:
  assumes "is_number d" and "v = [] \<or> \<not> is_digit (hd v)"
  shows "first (seqs [opt (lit ''-''), digits]) (b, d @ v, g) = Some (rev d @ b, v, g)"
  using assms(1)
proof (cases rule: is_number_cases)
  case (1 ds)
  have f: "first digits (CHR ''-'' # b, ds @ v, g) = Some (rev ds @ CHR ''-'' # b, v, g)"
    unfolding digits_def by (rule first_plus_Cls [OF 1(3,2) assms(2)])
  show ?thesis using first_seqs(2) [OF first_opt_minus(1) first_seqs(2) [OF f first_seqs(1)]] by (simp add: 1(1))
next
  case 2
  then have "hd (d @ v) \<noteq> CHR ''-''" by (cases d) auto
  then have m: "first (opt (lit ''-'')) (b, d @ v, g) = Some (b, d @ v, g)" by (intro first_opt_minus(2)) simp
  have f: "first digits (b, d @ v, g) = Some (rev d @ b, v, g)"
    unfolding digits_def by (rule first_plus_Cls [OF 2(2,1) assms(2)])
  show ?thesis by (rule first_seqs(2) [OF m first_seqs(2) [OF f first_seqs(1)]])
qed

lemma number_head: "is_number d \<Longrightarrow> d \<noteq> [] \<and> \<not> is_space (hd d)"
  by (elim is_number_cases) (auto simp: digit_not_space neq_Nil_conv)

lemma first_const:
  assumes "list_all is_space s1" and "list_all is_space s2" and "is_number d" and "v = [] \<or> \<not> is_digit (hd v)"
    and "is_word_at b \<noteq> is_word_at (k @ s1 @ ''='' @ s2 @ d @ v)"
  shows "\<exists>b'. first (const_re k) (b, k @ s1 @ ''='' @ s2 @ d @ v, g) = Some (b', v, g)"
proof -
  have s1: "first spaces (rev k @ b, s1 @ ''='' @ s2 @ d @ v, g) = Some (rev s1 @ rev k @ b, ''='' @ s2 @ d @ v, g)"
    unfolding spaces_def by (rule first_Star_Cls [OF assms(1)]) simp
  have s2: "first spaces (b1, s2 @ d @ v, g) = Some (rev s2 @ b1, d @ v, g)" for b1
    unfolding spaces_def by (rule first_Star_Cls [OF assms(2)]) (use number_head [OF assms(3)] in simp)
  show ?thesis
    unfolding const_re_def
    by (rule exI, rule first_seqs(2) [OF first_WordB [OF assms(5)]], rule first_seqs(2) [OF first_lit],
        rule first_seqs(2) [OF s1], rule first_seqs(2) [OF first_lit], rule first_seqs(2) [OF s2],
        rule first_number [OF assms(3,4)])
qed

lemma const_match:
  assumes "const_at k b a v"
  shows "\<exists>m. match_at (const_re k) b a = Some m \<and> m_rest m = v"
proof -
  from assms obtain s1 s2 d where a: "a = k @ s1 @ ''='' @ s2 @ d @ v"
    and c: "list_all is_space s1" "list_all is_space s2" "is_number d" "v = [] \<or> \<not> is_digit (hd v)" "is_word_at b \<noteq> is_word_at a"
    unfolding const_at_def by blast
  obtain b' where "first (const_re k) (b, a, []) = Some (b', v, [])"
    using first_const [OF c(1-4)] c(5) unfolding a by blast
  then show ?thesis by (simp add: match_at_first)
qed

lemma word_number: "rx_word (seqs [opt (lit ''-''), digits]) w \<Longrightarrow> is_number w"
  by (cases w) (auto simp: opt_def digits_def is_number_def Let_def Cons_eq_append_conv simp del: lit.simps)

text \<open>A number may be prolonged to the end of its digits.\<close>

lemma number_whole:
  assumes "is_number d"
  shows "\<exists>d' v'. d @ v = d' @ v' \<and> is_number d' \<and> (v' = [] \<or> \<not> is_digit (hd v'))"
proof -
  from span_split [of v is_digit] obtain u v' where v: "v = u @ v'" "list_all is_digit u" "v' = [] \<or> \<not> is_digit (hd v')" by blast
  have "is_number (d @ u)"
    using assms v(2) by (cases rule: is_number_cases) (auto simp: is_number_def Let_def neq_Nil_conv)
  with v show ?thesis by (intro exI [of _ "d @ u"] exI [of _ v']) simp
qed

lemma match_const:
  assumes "match_at (const_re k) b a = Some m"
  shows "const_at k b a (m_rest m)"
proof -
  let ?r = "seqs [lit k, spaces, lit ''='', spaces, opt (lit ''-''), digits]"
  from assms obtain st where st: "st \<in> set (run (const_re k) (b, a, []))"
    by (auto simp: match_at_def split: list.splits)
  obtain b1 a1 g1 where s: "st = (b1, a1, g1)" by (rule prod_cases3)
  from st s have w: "is_word_at b \<noteq> is_word_at a" and "(b1, a1, g1) \<in> set (run ?r (b, a, []))"
    by (auto simp: const_re_def split: if_splits)
  from run_word [OF this(2)] obtain u where "a = u @ a1" "rx_word ?r u" by blast
  then have "\<exists>s1 s2 d. a = k @ s1 @ ''='' @ s2 @ d @ a1 \<and> list_all is_space s1 \<and> list_all is_space s2
      \<and> rx_word (seqs [opt (lit ''-''), digits]) d"
    by (auto simp: spaces_def simp del: lit.simps; metis append.assoc)
  then obtain s1 s2 d where a: "a = k @ s1 @ ''='' @ s2 @ d @ a1" and sp: "list_all is_space s1" "list_all is_space s2" 
    and d: "rx_word (seqs [opt (lit ''-''), digits]) d"
    by blast
  from number_whole [OF word_number [OF d], of a1] obtain d' v' where d': "d @ a1 = d' @ v'" "is_number d'"
      "v' = [] \<or> \<not> is_digit (hd v')" by blast
  have c: "const_at k b a v'" unfolding const_at_def using a sp d' w by blast
  from const_match [OF c] assms c show ?thesis by simp
qed


lemma template_plain: "CHR 0x5C \<notin> set s \<Longrightarrow> parse_template 0 s = Inr (map (\<lambda>c. PLit [c]) s)"
  by (induction s) auto

lemma expand_plain [simp]: "expand (map (\<lambda>c. PLit [c]) s) m = s"
  by (induction s) (auto simp: expand_def)

lemma str_int_no_backslash: "CHR 0x5C \<notin> set (str_int i)"
proof -
  have "CHR 0x5C \<notin> set (nat_digits 10 n)" for n
    using nat_digits_dec [of n] by (auto simp: list_all_iff is_digit_def)
  then show ?thesis by (simp add: str_int_def)
qed

lemma set_const_int:
  assumes "CHR 0x5C \<notin> set k"
  shows "set_const k (VInt i) src = Inr None \<and> \<not> has_const k src
    \<or> (\<exists>out'. set_const k (VInt i) src = Inr (Some out') \<and> const_set k i src out')"
proof -
  let ?t = "k @ '' = '' @ str_int i"
  have t: "parse_template 0 ?t = Inr (map (\<lambda>c. PLit [c]) ?t)"
    by (rule template_plain) (use assms str_int_no_backslash in auto)
  have s: "set_const k (VInt i) src = Inr (sub1_from (const_re k) (expand (map (\<lambda>c. PLit [c]) ?t)) [] src)"
    by (simp only: set_const_def str_value.simps t bindR.simps re_subn1_def)
  show ?thesis
  proof (cases "sub1_from (const_re k) (expand (map (\<lambda>c. PLit [c]) ?t)) [] src")
    case None
    then have "\<not> has_const k src" unfolding sub1_None has_const_def using const_match by fastforce
    with s None show ?thesis by simp
  next
    case (Some out')
    from sub1_Some [OF Some] obtain u a m where m: "src = u @ a" "match_at (const_re k) (rev u) a = Some m"
      "out' = u @ expand (map (\<lambda>c. PLit [c]) ?t) m @ m_rest m"
      and least: "\<forall>u' a'. src = u' @ a' \<longrightarrow> match_at (const_re k) (rev u') a' \<noteq> None \<longrightarrow> length u \<le> length u'"
      unfolding append_Nil2 by blast
    have "const_set k i src out'"
      unfolding const_set_def
    proof (intro exI conjI allI impI)
      show "src = u @ a" by (rule m)
      show "const_at k (rev u) a (m_rest m)" by (rule match_const [OF m(2)])
      show "out' = u @ k @ '' = '' @ str_int i @ m_rest m" using m(3) by (simp only: expand_plain append_assoc)
      show "length u \<le> length u'" if "src = u' @ a'" "const_at k (rev u') a' v'" for u' a' v'
        using least that const_match [OF that(2)] by auto
    qed
    with s Some show ?thesis by simp
  qed
qed

lemma upper_char_no_backslash: "upper_char c = CHR 0x5C \<Longrightarrow> c = CHR 0x5C"
proof (rule ccontr)
  assume u: "upper_char c = CHR 0x5C" and "c \<noteq> CHR 0x5C"
  then have n: "97 \<le> (of_char c :: nat)" "(of_char c :: nat) \<le> 122" "char_of ((of_char c :: nat) - 32) = CHR 0x5C"
    by (auto simp: upper_char_def Let_def split: if_splits)
  then have "(of_char c :: nat) - 32 = 92" using arg_cong [OF n(3), of "of_char :: char \<Rightarrow> nat"] unfolding of_char_of by simp
  with n show False by simp
qed

lemma apply_mutation_int:
  assumes "CHR 0x5C \<notin> set n"
  shows "\<exists>out'. apply_mutation \<lparr>mut_name = n, mut_value = VInt i\<rparr> src = Inr out' \<and>
    (if has_const (upper n) src then const_set (upper n) i src out'
     else if has_const n src then const_set n i src out' else out' = src)"
proof -
  have has: "const_set k i src out' \<Longrightarrow> has_const k src" for k out'
    unfolding const_set_def has_const_def by blast
  have up: "CHR 0x5C \<notin> set (upper n)"
    using assms upper_char_no_backslash by (force simp: upper_def)
  from set_const_int [OF up, of i src] show ?thesis
  proof (elim disjE conjE exE)
    assume u: "set_const (upper n) (VInt i) src = Inr None" "\<not> has_const (upper n) src"
    from set_const_int [OF assms, of i src] show ?thesis
      by (elim disjE conjE exE) (use u has in \<open>auto simp: apply_mutation_def\<close>)
  qed (use has in \<open>auto simp: apply_mutation_def\<close>)
qed

section \<open>The draws\<close>

fun in_decl :: "decl \<Rightarrow> mvalue \<Rightarrow> bool" where
  "in_decl (Range_Decl lo hi) (VInt i) \<longleftrightarrow> lo \<le> i \<and> i \<le> hi"
| "in_decl (Choice_Decl opts) (VStr s) \<longleftrightarrow> s \<in> set opts"
| "in_decl _ _ \<longleftrightarrow> False"

fun decl_ok :: "decl \<Rightarrow> bool" where
  "decl_ok (Range_Decl lo hi) \<longleftrightarrow> lo \<le> hi"
| "decl_ok (Choice_Decl opts) \<longleftrightarrow> opts \<noteq> []"

definition drawn :: "decls \<Rightarrow> mutation list \<Rightarrow> bool" where
  "drawn ds ms \<longleftrightarrow> list_all2 (\<lambda>(n, d) m. mut_name m = n \<and> in_decl d (mut_value m)) ds ms"

lemma pick_wp: "list_all (\<lambda>(n, d). decl_ok d) ds \<Longrightarrow> (\<And>ms ws. drawn ds ms \<Longrightarrow> Q ms ws) \<Longrightarrow> wp (pick ds) Q ws"
proof (induction ds arbitrary: Q ws rule: pick.induct)
  case (2 name lo hi ds)
  then show ?case by (auto simp: wp_simps drawn_def intro!: wp_randint)
next
  case (3 name opts ds)
  then show ?case by (auto simp: wp_simps drawn_def intro!: wp_choice)
qed (simp_all add: wp_simps drawn_def)

lemma bindM_fails: "(\<And>x s'. \<exists>e. f x s' = Inl e) \<Longrightarrow> \<exists>e. bindM m f s = Inl e"
  by (auto simp: bindM_def split: sum.split)

lemma bindM_fails_first: "\<exists>e. m s = Inl e \<Longrightarrow> \<exists>e. bindM m f s = Inl e"
  by (auto simp: bindM_def)

lemma pick_fails: "\<not> list_all (\<lambda>(n, d). decl_ok d) ds \<Longrightarrow> \<exists>e. pick ds ws = Inl e"
proof (induction ds arbitrary: ws rule: pick.induct)
  case (2 name lo hi ds)
  show ?case
  proof (cases "lo \<le> hi")
    case True
    with 2 have "\<exists>e. pick ds s = Inl e" for s by simp
    then show ?thesis by (simp add: bindM_fails bindM_fails_first)
  next
    case False
    then show ?thesis by (simp add: bindM_def randint_def)
  qed
next
  case (3 name opts ds)
  show ?case
  proof (cases "opts = []")
    case True
    then show ?thesis by (simp add: bindM_def choice_def)
  next
    case False
    with 3 have "\<exists>e. pick ds s = Inl e" for s by simp
    then show ?thesis by (simp add: bindM_fails bindM_fails_first)
  qed
qed simp


section \<open>Reading the headers\<close>

lemma number_py_int:
  assumes "is_number d"
  shows "\<exists>i. py_int d = Inr i"
proof -
  have one: "split_char CHR ''_'' ds = [ds]" if "list_all is_digit ds" for ds
    using that digit_not_mark by (intro split_char_no_sep) (auto simp: list_all_iff)
  have strip: "strip d = d"
    by (rule strip_no_space) (use assms in \<open>auto elim!: is_number_cases simp: list_all_iff digit_not_space\<close>)
  show ?thesis
    unfolding py_int_def strip using assms
    by (cases rule: is_number_cases) (auto simp: one Let_def neq_Nil_conv dest: digit_not_mark)
qed

definition good_header :: "rmatch \<Rightarrow> bool" where
  "good_header m \<longleftrightarrow> list_all is_word_char (group m 1) \<and> is_number (group m 2) \<and> is_number (group m 3)"

lemma header_groups:
  assumes "m \<in> set (re_finditer HEADER_RE_RANGE src)"
  shows "good_header m"
proof -
  from finditer_match [OF assms] obtain b a where "match_at HEADER_RE_RANGE b a = Some m" by blast
  then obtain b' a' st where "run HEADER_RE_RANGE (b, a, []) = (b', a', m_groups m) # st"
    by (auto simp: match_at_def split: list.splits)
  then have r: "(b', a', m_groups m) \<in> set (run HEADER_RE_RANGE (b, a, []))" by simp
  have num: "rx_word number_rx w \<Longrightarrow> is_number w" for w
    using word_number [of w] by (simp add: number_rx_def)
  have "\<exists>w1 w2 w3. m_groups m = [(3, w3), (2, w2), (1, w1)] \<and> rx_word word_rx w1 \<and> rx_word number_rx w2 \<and> rx_word number_rx w3"
    using run_seq_groups [OF _ r [unfolded HEADER_RE_RANGE_def]]
    by (simp add: spaces_def word_rx_def number_rx_def plus_rx_def opt_def digits_def chr_def del: rx_word_simps) blast
  then show ?thesis by (auto simp: good_header_def group_def word_rx_def num)
qed

definition int_decl :: "string \<times> decl \<Rightarrow> bool" where
  "int_decl = (\<lambda>(n, d). list_all is_word_char n \<and> (\<exists>lo hi. d = Range_Decl lo hi))"

lemma update_all: "list_all P al \<Longrightarrow> P (k, v) \<Longrightarrow> list_all P (AList.update k v al)"
  by (induction al) auto

lemma range_decls_ok:
  "\<forall>m \<in> set ms. good_header m \<Longrightarrow> list_all int_decl d \<Longrightarrow> \<exists>d'. range_decls ms d = Inr d' \<and> list_all int_decl d'"
proof (induction ms arbitrary: d)
  case (Cons m ms)
  then obtain lo hi where i: "py_int (group m 2) = Inr lo" "py_int (group m 3) = Inr hi"
    using number_py_int unfolding good_header_def by (meson list.set_intros(1))
  have "list_all int_decl (AList.update (group m 1) (Range_Decl lo hi) d)"
    using Cons.prems by (intro update_all) (simp_all add: good_header_def int_decl_def)
  with Cons i show ?case by simp
qed simp

lemma word_no_backslash: "list_all is_word_char n \<Longrightarrow> CHR 0x5C \<notin> set n"
  by (auto simp: list_all_iff is_word_char_def)

lemma apply_drawn:
  "list_all int_decl ds \<Longrightarrow> drawn ds ms \<Longrightarrow> \<exists>out'. apply_mutations src ms = Inr out'"
proof (induction ms arbitrary: ds src)
  case (Cons m ms)
  from Cons.prems obtain n d ds' where ds: "ds = (n, d) # ds'" "mut_name m = n" "in_decl d (mut_value m)" "drawn ds' ms"
    by (auto simp: drawn_def list_all2_Cons2)
  with Cons.prems(1) obtain lo hi where "d = Range_Decl lo hi" and n: "CHR 0x5C \<notin> set n"
    by (auto simp: int_decl_def dest: word_no_backslash)
  with ds(3) obtain i where "mut_value m = VInt i" by (cases "mut_value m") auto
  then have "m = \<lparr>mut_name = n, mut_value = VInt i\<rparr>" using ds(2) by simp
  then obtain src' where "apply_mutation m src = Inr src'" using apply_mutation_int [OF n, of i src] by blast
  with Cons.IH [of ds' src'] Cons.prems(1) ds show ?case by simp
qed simp

lemma mutate_file_ranges:
  assumes "fs p = Some s" and "re_finditer HEADER_RE_CHOICE (universal_newlines s) = []"
  shows "\<exists>decls. parse_headers (universal_newlines s) = Inr decls \<and>
    (if list_all (\<lambda>(n, d). decl_ok d) decls
     then \<exists>out' muts. mutate_file twister fs p seed = Inr (out', muts) \<and> drawn decls muts
            \<and> apply_mutations (universal_newlines s) muts = Inr out'
     else \<exists>e. mutate_file twister fs p seed = Inl e)"
proof -
  let ?src = "universal_newlines s"
  obtain decls where d: "range_decls (re_finditer HEADER_RE_RANGE ?src) [] = Inr decls" "list_all int_decl decls"
    using range_decls_ok [of "re_finditer HEADER_RE_RANGE ?src" "[]"] header_groups by auto
  then have parse: "parse_headers ?src = Inr decls" by (simp add: parse_headers_def assms(2))
  have run: "mutate_file twister fs p seed = bindR (pick decls (twister seed)) (\<lambda>(muts, _).
     bindR (apply_mutations ?src muts) (\<lambda>out'. Inr (out', muts)))"
    by (simp add: mutate_file_def read_text_def assms(1) parse)
  show ?thesis
  proof (cases "list_all (\<lambda>(n, d). decl_ok d) decls")
    case True
    then have "wp (pick decls) (\<lambda>ms _. drawn decls ms) (twister seed)" by (rule pick_wp)
    then obtain ms ws where p: "pick decls (twister seed) = Inr (ms, ws)" "drawn decls ms" by (rule wpD)
    from apply_drawn [OF d(2) p(2)] obtain out' where "apply_mutations ?src ms = Inr out'" by blast
    with True parse p run show ?thesis by simp
  next
    case False
    from pick_fails [OF this] obtain e where "pick decls (twister seed) = Inl e" by blast
    with False parse run show ?thesis by simp
  qed
qed

section \<open>Properties\<close>

text \<open>
  C32. A mutation with an integer value changes one constant and nothing else: the first definition of the
  upper-case name in the source gets the value; without one, the first definition of the name itself;
  without that the source is returned unchanged. It never raises.
\<close>

theorem apply_mutation_exact:
  assumes "list_all is_word_char n"
  shows "\<exists>out'. apply_mutation \<lparr>mut_name = n, mut_value = VInt i\<rparr> src = Inr out' \<and>
    (if has_const (upper n) src then const_set (upper n) i src out'
     else if has_const n src then const_set n i src out' else out' = src)"
  by (rule apply_mutation_int [OF word_no_backslash [OF assms]])

theorem apply_mutation_exact_witness:
  "\<exists>out'. apply_mutation \<lparr>mut_name = ''n'', mut_value = VInt 5\<rparr> ''enum { N = 8 };'' = Inr out' \<and>
    (if has_const (upper ''n'') ''enum { N = 8 };'' then const_set (upper ''n'') 5 ''enum { N = 8 };'' out'
     else if has_const ''n'' ''enum { N = 8 };'' then const_set ''n'' 5 ''enum { N = 8 };'' out' else out' = ''enum { N = 8 };'')"
  by (rule apply_mutation_exact) (simp add: is_word_char_def)

text \<open>
  C33. For a readable source whose headers are all ranges, whatever the seed: the headers parse, and
  \<open>mutate_file\<close> raises exactly when some range is empty; otherwise it draws, in the order of the
  declarations, one value inside each declared range and returns the source with these applied.
\<close>

theorem mutate_file_exact:
  assumes "fs p = Some s" and "re_finditer HEADER_RE_CHOICE (universal_newlines s) = []"
  shows "\<exists>decls. parse_headers (universal_newlines s) = Inr decls \<and>
    (if list_all (\<lambda>(n, d). decl_ok d) decls
     then \<exists>out' muts. mutate_file twister fs p seed = Inr (out', muts) \<and> drawn decls muts
            \<and> apply_mutations (universal_newlines s) muts = Inr out'
     else \<exists>e. mutate_file twister fs p seed = Inl e)"
  using assms by (rule mutate_file_ranges)

lemma demo_source:
  "universal_newlines ''// MUTATE: n = randint(2, 12)'' = ''// MUTATE: n = randint(2, 12)''"
  "length (re_finditer HEADER_RE_CHOICE ''// MUTATE: n = randint(2, 12)'') = 0"
  "parse_headers ''// MUTATE: n = randint(2, 12)'' = Inr [(''n'', Range_Decl 2 12)]"
  by code_simp+

theorem mutate_file_exact_witness:
  "\<exists>out' muts. mutate_file (\<lambda>_. [1, 2]) [''a.c'' \<mapsto> ''// MUTATE: n = randint(2, 12)''] ''a.c'' 0 = Inr (out', muts)
     \<and> drawn [(''n'', Range_Decl 2 12)] muts"
  using mutate_file_exact [of "[''a.c'' \<mapsto> ''// MUTATE: n = randint(2, 12)'']" "''a.c''" "''// MUTATE: n = randint(2, 12)''" "\<lambda>_. [1, 2]" 0]
  unfolding demo_source(1) by (auto simp: demo_source(2) [unfolded length_0_conv] demo_source(3))

section \<open>Every combination\<close>

fun decl_small :: "decl \<Rightarrow> bool" where
  "decl_small (Range_Decl lo hi) \<longleftrightarrow> hi + 1 - lo < 2 ^ 32"
| "decl_small (Choice_Decl opts) \<longleftrightarrow> int (length opts) < 2 ^ 32"

lemma pick_reaches:
  "drawn ds ms \<Longrightarrow> list_all (\<lambda>(n, d). decl_small d) ds \<Longrightarrow> \<exists>ws. \<forall>more. pick ds (ws @ more) = Inr (ms, more)"
proof (induction ds arbitrary: ms rule: pick.induct)
  case 1
  then show ?case by (intro exI [of _ "[]"]) (simp add: drawn_def retM_def)
next
  case (2 name lo hi ds)
  from 2(2) obtain m ms' where ms: "ms = m # ms'" "mut_name m = name" "in_decl (Range_Decl lo hi) (mut_value m)" "drawn ds ms'"
    by (auto simp: drawn_def list_all2_Cons1)
  then obtain i where i: "mut_value m = VInt i" "lo \<le> i" "i \<le> hi" by (cases "mut_value m") auto
  with ms(2) have m: "m = \<lparr>mut_name = name, mut_value = VInt i\<rparr>" by simp
  have "nat (hi + 1 - lo) < 2 ^ 32" using 2(3) i by (simp add: nat_less_iff)
  moreover have "nat (i - lo) < nat (hi + 1 - lo)" using i by simp
  ultimately obtain w where w: "\<forall>ws. randbelow (nat (hi + 1 - lo)) (w # ws) = (nat (i - lo), ws)"
    using randbelow_reaches by blast
  from 2(1) [OF ms(4)] 2(3) obtain ws where "\<forall>more. pick ds (ws @ more) = Inr (ms', more)" by auto
  with w i show ?case
    by (intro exI [of _ "w # ws"]) (simp add: bindM_def randint_def retM_def ms(1) m)
next
  case (3 name opts ds)
  from 3(2) obtain m ms' where ms: "ms = m # ms'" "mut_name m = name" "in_decl (Choice_Decl opts) (mut_value m)" "drawn ds ms'"
    by (auto simp: drawn_def list_all2_Cons1)
  then obtain s where s: "mut_value m = VStr s" "s \<in> set opts" by (cases "mut_value m") auto
  with ms(2) have m: "m = \<lparr>mut_name = name, mut_value = VStr s\<rparr>" by simp
  from s(2) obtain i where i: "i < length opts" "opts ! i = s" by (auto simp: in_set_conv_nth)
  have "length opts < 2 ^ 32" using 3(3) by (simp flip: of_nat_less_iff)
  with i(1) obtain w where w: "\<forall>ws. randbelow (length opts) (w # ws) = (i, ws)" using randbelow_reaches by blast
  from 3(1) [OF ms(4)] 3(3) obtain ws where "\<forall>more. pick ds (ws @ more) = Inr (ms', more)" by auto
  with w i show ?case
    by (intro exI [of _ "w # ws"]) (auto simp: bindM_def choice_def retM_def ms(1) m)
qed


text \<open>
  C40. The fuzzer can reach every combination: for declarations with fewer than \<open>2 ^ 32\<close> values each, every
  list of mutations with values inside the declared ranges and options is drawn by \<open>pick\<close> for some outputs
  of the generator.
\<close>

theorem every_mutation_reachable:
  assumes "drawn ds ms" and "list_all (\<lambda>(n, d). decl_small d) ds"
  shows "\<exists>ws. pick ds ws = Inr (ms, [])"
  using pick_reaches [OF assms] by (metis append_Nil2)

theorem every_mutation_reachable_witness:
  "\<exists>ws. pick [(''n'', Range_Decl 2 12), (''k'', Choice_Decl [''a'', ''b''])] ws
     = Inr ([\<lparr>mut_name = ''n'', mut_value = VInt 12\<rparr>, \<lparr>mut_name = ''k'', mut_value = VStr ''b''\<rparr>], [])"
  by (rule every_mutation_reachable) (simp_all add: drawn_def)

end
