(* ===== verification/Cosim_Runner.thy ===== *)
theory Cosim_Runner
  imports Cosim_Mutator Diff_Child Py_Argparse
begin

text \<open>
  \<open>tools/cosim_fuzz/runner.py\<close>: one mutated C program from its base file to a verdict. The program is
  mutated and compiled, run on the core with a time limit, run on the reference model, and the two
  traces are compared by the diff script. Child processes are the parameter \<open>exec\<close>, the digest that
  names the run is the parameter \<open>sha256\<close>; directories are not modelled.
\<close>

section \<open>The command line and the names\<close>

record cosim_args =
  program :: string
  c_seed :: int
  out_root :: string
  c_kronos_bin :: string
  sail_trace_script :: string
  c_diff_script :: string
  c_common_s :: string
  link_ld :: string

definition CFLAGS :: "string list" where
  "CFLAGS = [''-march=rv64imafdc_zicsr'', ''-mabi=lp64'', ''-nostdlib'', ''-static'', ''-Os'']"

definition TOOLCHAIN :: string where
  "TOOLCHAIN = ''riscv64-unknown-elf''"

definition HALT_TIMEOUT_S :: nat where
  "HALT_TIMEOUT_S = 30"

definition src_hash :: "(string \<Rightarrow> string) \<Rightarrow> string \<Rightarrow> string" where
  "src_hash sha256 src = take 12 (sha256 src)"

text \<open>\<open>path.stem\<close>: the last component up to its last dot, unless that dot begins or ends it.\<close>

definition path_stem :: "string \<Rightarrow> string" where
  "path_stem p =
     (let name = last (split_char CHR ''/'' p);
          ext = takeWhile (\<lambda>c. c \<noteq> CHR ''.'') (rev name);
          stem = take (length name - length ext - 1) name
      in if CHR ''.'' \<in> set name \<and> ext \<noteq> [] \<and> stem \<noteq> [] then stem else name)"

definition run_name :: "(string \<Rightarrow> string) \<Rightarrow> cosim_args \<Rightarrow> string \<Rightarrow> string" where
  "run_name sha256 args src = path_stem (program args) @ ''_seed'' @ str_int (c_seed args) @ ''_'' @ src_hash sha256 src"

section \<open>The stages\<close>

definition compile_program :: "exec \<Rightarrow> string \<Rightarrow> string \<Rightarrow> string \<Rightarrow> string \<Rightarrow> string \<Rightarrow> (string \<times> string) io" where
  "compile_program exec src common link out_dir name =
     (let src_path = path_join out_dir (name @ ''.c'');
          elf_path = path_join out_dir (name @ ''.elf'');
          hex_path = path_join out_dir (name @ ''.hex'')
      in bindI (writeI src_path src) (\<lambda>_.
         bindI (passthroughI True exec
           ([TOOLCHAIN @ ''-gcc''] @ CFLAGS @ [''-T'', link, ''-o'', elf_path, src_path, common]) [] None) (\<lambda>_.
         bindI (passthroughI True exec [TOOLCHAIN @ ''-objcopy'', ''-O'', ''ihex'', elf_path, hex_path] [] None) (\<lambda>_.
         retI (elf_path, hex_path)))))"

text \<open>The last \<open>k\<close> lines of the text under \<open>pre\<close>.\<close>

definition print_tail :: "nat \<Rightarrow> string \<Rightarrow> string \<Rightarrow> unit io" where
  "print_tail k pre s = printI (map (\<lambda>l. pre @ l) (last_n k (splitlines s)))"

text \<open>
  \<open>int(line.split("x10 = ")[1].split()[0])\<close>: the first word between the first and the second
  \<open>x10 = \<close> of a line as an integer; \<open>None\<close> when the line has no \<open>x10 = \<close> or the conversion raises.
\<close>

definition x10_mark :: string where
  "x10_mark = ''x10 = ''"

definition up_to_first :: "string \<Rightarrow> string \<Rightarrow> string" where
  "up_to_first t s = (case after_first t s of None \<Rightarrow> s | Some rest \<Rightarrow> take (length s - length rest - length t) s)"

definition x10_of_line :: "string \<Rightarrow> int option" where
  "x10_of_line line = (case after_first x10_mark line of
      None \<Rightarrow> None
    | Some rest \<Rightarrow> (case split_ws (up_to_first x10_mark rest) of
        [] \<Rightarrow> None
      | w # _ \<Rightarrow> (case py_int w of Inr i \<Rightarrow> Some i | Inl _ \<Rightarrow> None)))"

fun find_x10 :: "string list \<Rightarrow> int option" where
  "find_x10 [] = None"
| "find_x10 (l # ls) = (case x10_of_line l of Some i \<Rightarrow> Some i | None \<Rightarrow> find_x10 ls)"

definition run_kronos :: "exec \<Rightarrow> string \<Rightarrow> string \<Rightarrow> string \<Rightarrow> int io" where
  "run_kronos exec kronos hex_path trace_path =
     catchI
       (bindI (runI exec [kronos, hex_path] [(''SIM_TRACE'', trace_path), (''SIM_MAX_CYCLES'', ''2000000'')] (Some HALT_TIMEOUT_S)) (\<lambda>res.
        case find_x10 (splitlines (stdout res) @ splitlines (stderr res)) of
          Some i \<Rightarrow> retI i
        | None \<Rightarrow>
            bindI (printI [''  [run_kronos] no halt-x10 line (sim self-terminated or crashed)'']) (\<lambda>_.
            bindI filesI (\<lambda>fs.
            bindI (if fs trace_path = None then retI ()
                   else bindI (readI trace_path) (\<lambda>t. bindI (printI [''  trace tail:'']) (\<lambda>_. print_tail 10 ''    '' t))) (\<lambda>_.
            bindI (if stderr res = [] then retI () else print_tail 10 ''  stderr: '' (stderr res)) (\<lambda>_. retI (-1)))))))
       (\<lambda>e. case e of
          TimeoutExpired err \<Rightarrow> Some
           (bindI (printI [''  [run_kronos] subprocess timeout after '' @ str_int (int HALT_TIMEOUT_S) @ ''s'']) (\<lambda>_.
            bindI filesI (\<lambda>fs.
            bindI (if fs trace_path = None then retI ()
                   else bindI (readI trace_path) (\<lambda>t.
                     bindI (printI [''  trace tail ('' @ str_int (int (length (last_n 15 (splitlines t)))) @ '' of ''
                         @ str_int (int (length (file_lines t))) @ '' lines):'']) (\<lambda>_. print_tail 15 ''    '' t))) (\<lambda>_.
            bindI (if err = [] then retI ()
                   else bindI (printI [''  stderr tail:'']) (\<lambda>_. print_tail 15 ''    '' err)) (\<lambda>_. retI (-2))))))
        | _ \<Rightarrow> None)"

text \<open>
  The trace file is opened before the model runs and gets its output as the model writes it; after a
  time-out it holds whatever \<open>exec\<close> left in it.
\<close>

definition run_sail :: "exec \<Rightarrow> string \<Rightarrow> string \<Rightarrow> string \<Rightarrow> unit io" where
  "run_sail exec script elf_path trace_path =
     bindI (writeI trace_path []) (\<lambda>_.
     bindI (runI exec [script, elf_path] [] (Some HALT_TIMEOUT_S)) (\<lambda>res.
     bindI (writeI trace_path (stdout res)) (\<lambda>_.
     bindI (errI (stderr res)) (\<lambda>_.
     if returncode res \<noteq> 0 then raiseI (CalledProcessError (returncode res) []) else retI ()))))"

definition diff_traces :: "exec \<Rightarrow> string \<Rightarrow> string \<Rightarrow> string \<Rightarrow> (bool \<times> string) io" where
  "diff_traces exec script k_trace s_trace =
     bindI (runI exec [script, ''--strip-noeffect'', k_trace, s_trace] [] None) (\<lambda>res.
     retI (returncode res = 0, stdout res @ stderr res))"

section \<open>The run\<close>

definition show_trace :: "string \<times> string \<Rightarrow> unit io" where
  "show_trace = (\<lambda>(label, p).
     bindI filesI (\<lambda>fs. case fs p of
       None \<Rightarrow> printI [''  ['' @ label @ ''] trace file MISSING'']
     | Some raw \<Rightarrow> bindI (readI p) (\<lambda>t. let ls = splitlines t in
         printI ([''  ['' @ label @ ''] '' @ str_int (int (length ls)) @ '' lines, '' @ str_int (int (length raw)) @ '' bytes'']
           @ map (\<lambda>l. ''    '' @ label @ '' head: '' @ l) (take 3 ls)
           @ map (\<lambda>l. ''    '' @ label @ '' tail: '' @ l) (last_n 3 ls)))))"

definition cosim_main :: "exec \<Rightarrow> (int \<Rightarrow> rng) \<Rightarrow> (string \<Rightarrow> string) \<Rightarrow> cosim_args \<Rightarrow> unit io" where
  "cosim_main exec twister sha256 args =
     bindI filesI (\<lambda>fs.
     bindI (liftI (mutate_file twister fs (program args) (c_seed args))) (\<lambda>(src_mut, muts).
     let name = run_name sha256 args src_mut;
         out_dir = path_join (out_root args) name;
         k_trace = path_join out_dir ''kronos.trace'';
         s_trace = path_join out_dir ''sail.trace''
     in bindI (printI [''[cosim_fuzz] '' @ name @ '' mutations='' @ repr_list (map str_mutation muts)]) (\<lambda>_.
        bindI (compile_program exec src_mut (c_common_s args) (link_ld args) out_dir name) (\<lambda>(elf_path, hex_path).
        bindI (run_kronos exec (c_kronos_bin args) hex_path k_trace) (\<lambda>kronos_x10.
        if kronos_x10 \<noteq> 0
        then bindI (printI [''[cosim_fuzz] FAIL '' @ name @ '' (kronos x10 = '' @ str_int kronos_x10 @ '')'']) (\<lambda>_. raiseI (SystemExit 1))
        else bindI (run_sail exec (sail_trace_script args) elf_path s_trace) (\<lambda>_.
        bindI (diff_traces exec (c_diff_script args) k_trace s_trace) (\<lambda>(ok, diff).
        if \<not> ok
        then bindI (printI [''[cosim_fuzz] FAIL '' @ name @ '' (trace diff)'']) (\<lambda>_.
             bindI (eachI show_trace [(''kronos'', k_trace), (''sail'', s_trace)]) (\<lambda>_.
             bindI (printI [take 4000 diff]) (\<lambda>_. raiseI (SystemExit 1))))
        else printI [''[cosim_fuzz] PASS '' @ name])))))))"

text \<open>The command line.\<close>

definition COSIM_ARGS :: cli where
  "COSIM_ARGS = \<lparr>c_opts = [needs_opt ''--program'' To_Path, needs_opt ''--seed'' To_Int, needs_opt ''--out-dir'' To_Path,
     needs_opt ''--kronos-bin'' To_Path, needs_opt ''--sail-trace-script'' To_Path, needs_opt ''--diff-script'' To_Path,
     (takes_opt ''--common-s'' To_Path)\<lparr>o_default := AStr ''sw/cosim/cosim_common.S''\<rparr>,
     (takes_opt ''--link-ld'' To_Path)\<lparr>o_default := AStr ''sw/stage0/link.ld''\<rparr>], c_pos = []\<rparr>"

definition cosim_args_of :: "namespace \<Rightarrow> cosim_args" where
  "cosim_args_of ns = \<lparr>program = str_arg ns ''--program'', c_seed = int_arg ns ''--seed'', out_root = str_arg ns ''--out-dir'',
     c_kronos_bin = str_arg ns ''--kronos-bin'', sail_trace_script = str_arg ns ''--sail-trace-script'',
     c_diff_script = str_arg ns ''--diff-script'', c_common_s = str_arg ns ''--common-s'', link_ld = str_arg ns ''--link-ld''\<rparr>"

definition cosim_cli :: "(string list \<Rightarrow> string) \<Rightarrow> exec \<Rightarrow> (int \<Rightarrow> rng) \<Rightarrow> (string \<Rightarrow> string) \<Rightarrow> string list \<Rightarrow> unit io" where
  "cosim_cli says exec twister sha256 argv =
     bindI (parse_argsI says COSIM_ARGS argv) (\<lambda>ns. cosim_main exec twister sha256 (cosim_args_of ns))"

section \<open>What a stage that succeeds has seen\<close>

abbreviation kronos_env :: "string \<Rightarrow> (string \<times> string) list" where
  "kronos_env trace_path \<equiv> [(''SIM_TRACE'', trace_path), (''SIM_MAX_CYCLES'', ''2000000'')]"

lemma print_tail_value: "fst (print_tail k pre s w) = Inr ()"
  by (simp add: print_tail_def printI_def)

lemma run_kronos_zero:
  assumes "run_kronos exec kronos hex tr w = (Inr 0, w')"
  shows "\<exists>res fs. exec [kronos, hex] (kronos_env tr) (Some HALT_TIMEOUT_S) (w_files w) = (Exited res, fs)
    \<and> find_x10 (splitlines (stdout res) @ splitlines (stderr res)) = Some 0"
proof (cases "exec [kronos, hex] (kronos_env tr) (Some HALT_TIMEOUT_S) (w_files w)")
  case (Pair o' fs)
  show ?thesis
  proof (cases o')
    case (Exited res)
    show ?thesis
    proof (cases "find_x10 (splitlines (stdout res) @ splitlines (stderr res))")
      case None
      with assms Pair Exited show ?thesis
        by (auto simp: run_kronos_def catchI_def runI_exited io_simps print_tail_def read_text_def printI_def
          bindI_def runI_def filesI_def readI_def retI_def split: if_splits)
    next
      case (Some i)
      with assms Pair Exited have "i = 0" by (simp add: run_kronos_def catchI_def runI_exited io_simps)
      with Some Pair Exited show ?thesis by simp
    qed
  next
    case (TimedOut err)
    with assms Pair show ?thesis
      by (auto simp: run_kronos_def catchI_def io_simps print_tail_def read_text_def printI_def
          bindI_def runI_def filesI_def readI_def retI_def split: if_splits)
  next
    case (NotStarted err)
    with assms Pair show ?thesis
      by (auto simp: run_kronos_def catchI_def bindI_def runI_def)
  qed
qed

lemma run_kronos_value:
  assumes "exec [kronos, hex] (kronos_env tr) (Some HALT_TIMEOUT_S) (w_files w) = (Exited res, fs)"
    and "find_x10 (splitlines (stdout res) @ splitlines (stderr res)) = Some i"
  shows "run_kronos exec kronos hex tr w = (Inr i, w\<lparr>w_files := fs\<rparr>)"
  by (simp add: run_kronos_def catchI_def assms(2) io_simps
        runI_exited [of exec "[kronos, hex]" "kronos_env tr" "Some HALT_TIMEOUT_S" w, OF assms(1)])

lemma run_kronos_iff:
  "run_kronos exec kronos hex tr w = (Inr 0, w') \<longleftrightarrow>
    (\<exists>res fs. exec [kronos, hex] (kronos_env tr) (Some HALT_TIMEOUT_S) (w_files w) = (Exited res, fs)
      \<and> find_x10 (splitlines (stdout res) @ splitlines (stderr res)) = Some 0 \<and> w' = w\<lparr>w_files := fs\<rparr>)"
proof
  assume run: "run_kronos exec kronos hex tr w = (Inr 0, w')"
  from run_kronos_zero [OF this] obtain res fs where res:
    "exec [kronos, hex] (kronos_env tr) (Some HALT_TIMEOUT_S) (w_files w) = (Exited res, fs)"
    "find_x10 (splitlines (stdout res) @ splitlines (stderr res)) = Some 0" by blast
  have "run_kronos exec kronos hex tr w = (Inr 0, w\<lparr>w_files := fs\<rparr>)" by (rule run_kronos_value) (fact res)+
  with run res show "\<exists>res fs.
      exec [kronos, hex] (kronos_env tr) (Some HALT_TIMEOUT_S) (w_files w) = (Exited res, fs)
      \<and> find_x10 (splitlines (stdout res) @ splitlines (stderr res)) = Some 0 \<and> w' = w\<lparr>w_files := fs\<rparr>"
    by simp
qed (auto simp: run_kronos_value)

lemma run_sail_iff:
  "run_sail exec script elf tr w = (Inr u, w') \<longleftrightarrow>
    (\<exists>res fs. exec [script, elf] [] (Some HALT_TIMEOUT_S) ((w_files w)(tr \<mapsto> [])) = (Exited res, fs) \<and> returncode res = 0
      \<and> w' = w\<lparr>w_files := fs(tr \<mapsto> stdout res), w_err := w_err w @ stderr res\<rparr>)"
  unfolding run_sail_def eq_Inr_simps by (auto simp: raiseI_def retI_def split: if_splits)

definition gcc_argv :: "cosim_args \<Rightarrow> string \<Rightarrow> string list" where
  "gcc_argv args base = [''riscv64-unknown-elf-gcc'', ''-march=rv64imafdc_zicsr'', ''-mabi=lp64'', ''-nostdlib'', ''-static'', ''-Os'',
     ''-T'', link_ld args, ''-o'', base @ ''.elf'', base @ ''.c'', c_common_s args]"

definition objcopy_argv :: "string \<Rightarrow> string list" where
  "objcopy_argv base = [''riscv64-unknown-elf-objcopy'', ''-O'', ''ihex'', base @ ''.elf'', base @ ''.hex'']"

lemma compile_program_iff:
  assumes "base = path_join d name"
  shows "compile_program exec src (c_common_s args) (link_ld args) d name w = (Inr r, w') \<longleftrightarrow>
    (\<exists>c1 fs1 c2 fs2. exec (gcc_argv args base) [] None ((w_files w)(base @ ''.c'' \<mapsto> src)) = (Exited c1, fs1) \<and> returncode c1 = 0
      \<and> exec (objcopy_argv base) [] None fs1 = (Exited c2, fs2) \<and> returncode c2 = 0 \<and> r = (base @ ''.elf'', base @ ''.hex'')
      \<and> w' = w\<lparr>w_files := fs2, w_out := (w_out w @ stdout c1) @ stdout c2, w_err := (w_err w @ stderr c1) @ stderr c2\<rparr>)"
proof -
  have ext: "path_join d (name @ e) = base @ e" for e
    using assms by (auto simp: path_join_def)
  show ?thesis
    unfolding compile_program_def Let_def eq_Inr_simps ext gcc_argv_def objcopy_argv_def TOOLCHAIN_def CFLAGS_def by auto
qed

lemma compile_then:
  assumes "base = path_join d name"
  shows "(\<exists>w'. bindI (compile_program exec src (c_common_s args) (link_ld args) d name) f w = (Inr u, w')) \<longleftrightarrow>
    (\<exists>c1 fs1 c2 fs2. exec (gcc_argv args base) [] None ((w_files w)(base @ ''.c'' \<mapsto> src)) = (Exited c1, fs1) \<and> returncode c1 = 0
      \<and> exec (objcopy_argv base) [] None fs1 = (Exited c2, fs2) \<and> returncode c2 = 0
      \<and> (\<exists>w'. f (base @ ''.elf'', base @ ''.hex'')
          (w\<lparr>w_files := fs2, w_out := (w_out w @ stdout c1) @ stdout c2, w_err := (w_err w @ stderr c1) @ stderr c2\<rparr>) = (Inr u, w')))"
  unfolding bindI_eq_Inr compile_program_iff [OF assms] by blast

lemma diff_traces_iff:
  "diff_traces exec script k s w = (Inr (ok, out), w') \<longleftrightarrow>
    (\<exists>res fs. exec (diff_argv script True k s) [] None (w_files w) = (Exited res, fs)
      \<and> ok = (returncode res = 0) \<and> out = stdout res @ stderr res \<and> w' = w\<lparr>w_files := fs\<rparr>)"
  unfolding diff_traces_def diff_argv_def eq_Inr_simps by auto

definition run_dir :: "(string \<Rightarrow> string) \<Rightarrow> cosim_args \<Rightarrow> string \<Rightarrow> string" where
  "run_dir sha256 args src = path_join (out_root args) (run_name sha256 args src)"

lemma path_join_not_flag: "f \<noteq> ''--strip-noeffect'' \<Longrightarrow> path_join d f \<noteq> ''--strip-noeffect''"
  using path_join_slash [of d f] by auto

text \<open>The part of a run after the compilation passes exactly when these children do.\<close>

lemma diff_passes:
  assumes "\<And>k s. runs_trace_diff exec (diff_argv script True k s)"
    and "k \<noteq> ''--strip-noeffect''" and "s \<noteq> ''--strip-noeffect''"
  shows "(\<exists>out w'. diff_traces exec script k s w = (Inr (True, out), w'))
    \<longleftrightarrow> (\<exists>a b. load_trace (w_files w) k True = Inr a \<and> load_trace (w_files w) s True = Inr b \<and> agrees a b)"
proof -
  obtain res fs where r: "exec (diff_argv script True k s) [] None (w_files w) = (Exited res, fs)"
    using assms(1) [of k s] unfolding runs_trace_diff_def by blast
  then have "(\<exists>out w'. diff_traces exec script k s w = (Inr (True, out), w'))
      \<longleftrightarrow> returncode (result_of exec (diff_argv script True k s) [] None (w_files w)) = 0"
    by (auto simp: diff_traces_iff result_of_def)
  then show ?thesis unfolding diff_child_iff [OF assms] .
qed

text \<open>What a run does with a compiled program, as it stands in \<open>main\<close>.\<close>

definition cosim_checks :: "exec \<Rightarrow> cosim_args \<Rightarrow> string \<Rightarrow> string \<Rightarrow> string \<Rightarrow> string \<times> string \<Rightarrow> unit io" where
  "cosim_checks exec args name k s = (\<lambda>(elf, hex). bindI (run_kronos exec (c_kronos_bin args) hex k) (\<lambda>kronos_x10.
        if kronos_x10 \<noteq> 0
        then bindI (printI [''[cosim_fuzz] FAIL '' @ name @ '' (kronos x10 = '' @ str_int kronos_x10 @ '')'']) (\<lambda>_. raiseI (SystemExit 1))
        else bindI (run_sail exec (sail_trace_script args) elf s) (\<lambda>_.
        bindI (diff_traces exec (c_diff_script args) k s) (\<lambda>(ok, diff).
        if \<not> ok
        then bindI (printI [''[cosim_fuzz] FAIL '' @ name @ '' (trace diff)'']) (\<lambda>_.
             bindI (eachI show_trace [(''kronos'', k), (''sail'', s)]) (\<lambda>_.
             bindI (printI [take 4000 diff]) (\<lambda>_. raiseI (SystemExit 1))))
        else printI [''[cosim_fuzz] PASS '' @ name]))))"

lemma cosim_main_checks:
  assumes "mutate_file twister (w_files w) (program args) (c_seed args) = Inr (src, muts)"
  shows "cosim_main exec twister sha256 args w =
    bindI (compile_program exec src (c_common_s args) (link_ld args) (run_dir sha256 args src) (run_name sha256 args src))
      (cosim_checks exec args (run_name sha256 args src) (path_join (run_dir sha256 args src) ''kronos.trace'')
        (path_join (run_dir sha256 args src) ''sail.trace''))
      (w\<lparr>w_out := w_out w @ unlines [''[cosim_fuzz] '' @ run_name sha256 args src @ '' mutations='' @ repr_list (map str_mutation muts)]\<rparr>)"
  unfolding cosim_main_def bindI_files assms bindI_lift Let_def run_dir_def [symmetric] prod.case cosim_checks_def
  by (subst bindI_print) rule

lemma checks_pass:
  assumes "\<And>k s. runs_trace_diff exec (diff_argv (c_diff_script args) True k s)"
    and "k \<noteq> ''--strip-noeffect''" and "s \<noteq> ''--strip-noeffect''"
  shows "(\<exists>w'. cosim_checks exec args name k s (elf, hex) w = (Inr (), w'))
    \<longleftrightarrow> (\<exists>res fs3 sail fs4 a b.
         exec [c_kronos_bin args, hex] (kronos_env k) (Some HALT_TIMEOUT_S) (w_files w) = (Exited res, fs3)
       \<and> find_x10 (splitlines (stdout res) @ splitlines (stderr res)) = Some 0
       \<and> exec [sail_trace_script args, elf] [] (Some HALT_TIMEOUT_S) (fs3(s \<mapsto> [])) = (Exited sail, fs4) \<and> returncode sail = 0
       \<and> load_trace (fs4(s \<mapsto> stdout sail)) k True = Inr a \<and> load_trace (fs4(s \<mapsto> stdout sail)) s True = Inr b \<and> agrees a b)"
    (is "?run \<longleftrightarrow> ?chain")
proof -
  have "?run \<longleftrightarrow> (\<exists>w1. run_kronos exec (c_kronos_bin args) hex k w = (Inr 0, w1)
      \<and> (\<exists>w2. run_sail exec (sail_trace_script args) elf s w1 = (Inr (), w2)
      \<and> (\<exists>out w3. diff_traces exec (c_diff_script args) k s w2 = (Inr (True, out), w3))))"
    unfolding cosim_checks_def prod.case bindI_eq_Inr [of "run_kronos _ _ _ _"] by (auto simp: eq_Inr_simps split: if_splits) blast+
  also have "\<dots> \<longleftrightarrow> ?chain"
    unfolding diff_passes [OF assms] run_kronos_iff run_sail_iff by auto
  finally show ?thesis .
qed

lemma cosim_pass:
  assumes "\<And>k s. runs_trace_diff exec (diff_argv (c_diff_script args) True k s)"
  shows "(\<exists>w'. cosim_main exec twister sha256 args w = (Inr (), w')) \<longleftrightarrow>
    (\<exists>src muts. mutate_file twister (w_files w) (program args) (c_seed args) = Inr (src, muts) \<and>
      (let d = run_dir sha256 args src; base = path_join d (run_name sha256 args src);
           k = path_join d ''kronos.trace''; s = path_join d ''sail.trace''
       in \<exists>c1 fs1 c2 fs2 res fs3 sail fs4 a b.
         exec (gcc_argv args base) [] None ((w_files w)(base @ ''.c'' \<mapsto> src)) = (Exited c1, fs1) \<and> returncode c1 = 0
       \<and> exec (objcopy_argv base) [] None fs1 = (Exited c2, fs2) \<and> returncode c2 = 0
       \<and> exec [c_kronos_bin args, base @ ''.hex''] (kronos_env k) (Some HALT_TIMEOUT_S) fs2 = (Exited res, fs3)
       \<and> find_x10 (splitlines (stdout res) @ splitlines (stderr res)) = Some 0
       \<and> exec [sail_trace_script args, base @ ''.elf''] [] (Some HALT_TIMEOUT_S) (fs3(s \<mapsto> [])) = (Exited sail, fs4) \<and> returncode sail = 0
       \<and> load_trace (fs4(s \<mapsto> stdout sail)) k True = Inr a \<and> load_trace (fs4(s \<mapsto> stdout sail)) s True = Inr b \<and> agrees a b))"
proof (cases "mutate_file twister (w_files w) (program args) (c_seed args)")
  case (Inl e)
  then show ?thesis by (simp add: cosim_main_def io_simps)
next
  case (Inr r)
  then obtain src muts where m: "mutate_file twister (w_files w) (program args) (c_seed args) = Inr (src, muts)" by (cases r) auto
  let ?d = "run_dir sha256 args src" and ?name = "run_name sha256 args src"
  let ?w = "w\<lparr>w_out := w_out w @ unlines [''[cosim_fuzz] '' @ ?name @ '' mutations='' @ repr_list (map str_mutation muts)]\<rparr>"
  have flags: "path_join ?d ''kronos.trace'' \<noteq> ''--strip-noeffect''" "path_join ?d ''sail.trace'' \<noteq> ''--strip-noeffect''"
    by (simp_all add: path_join_not_flag)
  note checks = checks_pass [where exec = exec and args = args, OF assms flags]
  show ?thesis
    unfolding cosim_main_checks [of twister w args src muts, OF m] compile_then [OF refl] checks m Let_def by simp
qed

text \<open>Tools for the example: the core reports \<open>x10 = 0\<close> and both executions leave one trace line.\<close>

definition demo_args :: cosim_args where
  "demo_args = \<lparr>program = ''a.c'', c_seed = 1, out_root = ''o'', c_kronos_bin = ''k'', sail_trace_script = ''s'',
     c_diff_script = ''d'', c_common_s = ''c'', link_ld = ''l''\<rparr>"

definition demo_sha :: "string \<Rightarrow> string" where
  "demo_sha src = ''0''"

definition demo_tools :: exec where
  "demo_tools cmd env limit fs =
     (if hd cmd = ''d''
      then (Exited (case trace_diff_main cmd fs of Inr c \<Rightarrow> c | Inl e \<Rightarrow> \<lparr>returncode = 1, stdout = [], stderr = []\<rparr>), fs)
      else if hd cmd = ''k''
      then (Exited \<lparr>returncode = 0, stdout = ''x10 = 0'', stderr = []\<rparr>, fs(''o/a_seed1_0/kronos.trace'' \<mapsto> ''1:x1=0x1''))
      else (Exited \<lparr>returncode = 0, stdout = ''1:x1=0x1'', stderr = []\<rparr>, fs))"

lemma demo_tools_diff: "runs_trace_diff demo_tools (diff_argv (c_diff_script demo_args) True k s)"
  by (simp add: runs_trace_diff_def demo_tools_def diff_argv_def demo_args_def)

lemma demo_values:
  "mutate_file (\<lambda>_. [1, 2]) [''a.c'' \<mapsto> ''x''] ''a.c'' 1 = Inr (''x'', [])"
  "run_name demo_sha demo_args ''x'' = ''a_seed1_0''"
  "find_x10 (splitlines ''x10 = 0'' @ splitlines []) = Some 0"
  "load_lines True (splitlines (universal_newlines ''1:x1=0x1'')) \<noteq> []"
  subgoal by code_simp
  subgoal by code_simp
  subgoal by code_simp
  subgoal by code_simp
  done


lemma demo_load:
  "fs p = Some ''1:x1=0x1'' \<Longrightarrow> load_trace fs p True = Inr (load_lines True (splitlines (universal_newlines ''1:x1=0x1'')))"
  by (simp add: load_trace_def read_text_def)

lemma demo_diff:
  assumes "fs k = Some ''1:x1=0x1''" and "fs s = Some ''1:x1=0x1''" and "k \<noteq> ''--strip-noeffect''" and "s \<noteq> ''--strip-noeffect''"
  shows "\<exists>c :: completed. returncode c = 0 \<and> demo_tools [''d'', ''--strip-noeffect'', k, s] [] None fs = (Exited c, fs)"
proof -
  let ?ls = "load_lines True (splitlines (universal_newlines ''1:x1=0x1''))"
  have argv: "[''d'', ''--strip-noeffect'', k, s] = diff_argv ''d'' True k s" by (simp add: diff_argv_def)
  have "trace_diff_main (diff_argv ''d'' True k s) fs = Inr (compare_traces ?ls ?ls)"
    unfolding trace_diff_main_files [OF assms(3,4)] by (simp only: demo_load assms(1,2) bindR.simps)
  moreover have "returncode (compare_traces ?ls ?ls) = 0"
    using compare_traces_iff [of ?ls ?ls] agrees_refl [OF demo_values(4)] by blast
  ultimately show ?thesis unfolding argv by (simp add: demo_tools_def diff_argv_def)
qed

lemma demo_cosim:
  "\<exists>w'. cosim_main demo_tools (\<lambda>_. [1, 2]) demo_sha demo_args \<lparr>w_files = [''a.c'' \<mapsto> ''x''], w_out = [], w_err = []\<rparr> = (Inr (), w')"
proof -
  have path: "path_join (path_join (out_root demo_args) ''a_seed1_0'') f = ''o/a_seed1_0/'' @ f" for f
    by (simp add: path_join_def demo_args_def)
  have pr: "printI ls w = (Inr (), w\<lparr>w_out := w_out w @ unlines ls\<rparr>)" for ls and w :: world by (simp add: printI_def)
  have fin: "finishes demo_tools" by (simp add: finishes_def demo_tools_def)
  have args: "program demo_args = ''a.c''" "c_seed demo_args = 1" "c_kronos_bin demo_args = ''k''" "c_diff_script demo_args = ''d''"
    "sail_trace_script demo_args = ''s''"
    by (simp_all add: demo_args_def)
  have kr: "bindI (run_kronos demo_tools ''k'' h ''o/a_seed1_0/kronos.trace'') f w =
      f 0 (w\<lparr>w_files := (w_files w)(''o/a_seed1_0/kronos.trace'' \<mapsto> ''1:x1=0x1'')\<rparr>)" for h f and w :: world
    by (rule bindI_done, rule run_kronos_value, simp add: demo_tools_def, unfold completed.simps, rule demo_values)
  have other: "result_of demo_tools (c # cs) e l fs = \<lparr>returncode = 0, stdout = ''1:x1=0x1'', stderr = []\<rparr>"
    "files_of demo_tools (c # cs) e l fs = fs"
    if "c \<noteq> ''d''" "c \<noteq> ''k''" for c cs e l fs
    using that by (simp_all add: demo_tools_def result_of_def files_of_def)
  have df: "returncode (result_of demo_tools [''d'', ''--strip-noeffect'', ''o/a_seed1_0/kronos.trace'', ''o/a_seed1_0/sail.trace''] [] None fs) = 0"
    if "fs ''o/a_seed1_0/kronos.trace'' = Some ''1:x1=0x1''" "fs ''o/a_seed1_0/sail.trace'' = Some ''1:x1=0x1''" for fs
    using demo_diff [of fs "''o/a_seed1_0/kronos.trace''" "''o/a_seed1_0/sail.trace''"] that by (auto simp: result_of_def)
  show ?thesis
    by (simp add: cosim_main_def io_simps args demo_values path compile_program_def passthroughI_finishes [OF fin] runI_finishes [OF fin]
      other kr df after_child_def TOOLCHAIN_def Let_def run_sail_def diff_traces_def pr)
qed


section \<open>Properties\<close>

text \<open>
  C34. A run passes, with \<open>trace_diff.py\<close> as its diff script, exactly when the mutated program compiles, the
  core, run on it within the time limit, reports \<open>x10 = 0\<close>, the reference model succeeds within the limit, and the traces that these
  runs have left, the reference's being the model's output, load and agree once stripped of their lines without
  effect. Each child runs on the files its predecessor has left.
\<close>

theorem cosim_pass_agrees:
  assumes "\<forall>k s. runs_trace_diff exec (diff_argv (c_diff_script args) True k s)"
  shows "(\<exists>w'. cosim_main exec twister sha256 args w = (Inr (), w')) \<longleftrightarrow>
    (\<exists>src muts. mutate_file twister (w_files w) (program args) (c_seed args) = Inr (src, muts) \<and>
      (let d = run_dir sha256 args src; base = path_join d (run_name sha256 args src);
           k = path_join d ''kronos.trace''; s = path_join d ''sail.trace''
       in \<exists>c1 fs1 c2 fs2 res fs3 sail fs4 a b.
         exec (gcc_argv args base) [] None ((w_files w)(base @ ''.c'' \<mapsto> src)) = (Exited c1, fs1) \<and> returncode c1 = 0
       \<and> exec (objcopy_argv base) [] None fs1 = (Exited c2, fs2) \<and> returncode c2 = 0
       \<and> exec [c_kronos_bin args, base @ ''.hex''] (kronos_env k) (Some HALT_TIMEOUT_S) fs2 = (Exited res, fs3)
       \<and> find_x10 (splitlines (stdout res) @ splitlines (stderr res)) = Some 0
       \<and> exec [sail_trace_script args, base @ ''.elf''] [] (Some HALT_TIMEOUT_S) (fs3(s \<mapsto> [])) = (Exited sail, fs4) \<and> returncode sail = 0
       \<and> load_trace (fs4(s \<mapsto> stdout sail)) k True = Inr a \<and> load_trace (fs4(s \<mapsto> stdout sail)) s True = Inr b \<and> agrees a b))"
  by (rule cosim_pass) (use assms in blast)

theorem cosim_pass_agrees_witness:
  "\<exists>src muts sail fs4 a b.
    mutate_file (\<lambda>_. [1, 2]) [''a.c'' \<mapsto> ''x''] ''a.c'' 1 = Inr (src, muts) \<and> returncode (sail :: completed) = 0
     \<and> load_trace (fs4(path_join (run_dir demo_sha demo_args src) ''sail.trace'' \<mapsto> stdout sail))
         (path_join (run_dir demo_sha demo_args src) ''kronos.trace'') True = Inr a
     \<and> load_trace (fs4(path_join (run_dir demo_sha demo_args src) ''sail.trace'' \<mapsto> stdout sail))
         (path_join (run_dir demo_sha demo_args src) ''sail.trace'') True = Inr b \<and> agrees a b"
proof -
  have "\<exists>w'. cosim_main demo_tools (\<lambda>_. [1, 2]) demo_sha demo_args \<lparr>w_files = [''a.c'' \<mapsto> ''x''], w_out = [], w_err = []\<rparr> = (Inr (), w')"
    by (rule demo_cosim)
  then show ?thesis
    unfolding cosim_pass_agrees [of demo_tools demo_args, OF allI [OF allI [OF demo_tools_diff]]]
    by (simp add: demo_args_def Let_def) blast
qed

end
