(* ===== verification/Diff_Retire.thy ===== *)
theory Diff_Retire
  imports Py_Csv Py_Argparse
begin

text \<open>
  \<open>tools/trace/diff_retire.py\<close>: the first row at which two retire traces differ. Output is in UTF-8.
\<close>

definition load_rows :: "files \<Rightarrow> string \<Rightarrow> csv_row list result" where
  "load_rows fs path = read_dicts fs path"

definition diff_key :: "csv_row \<Rightarrow> string option list result" where
  "diff_key row = mapR (column row) [''pc'', ''rd_wdata'', ''fp_wdata'', ''mem_wdata'']"

text \<open>The line of one side at row \<open>j\<close> of the context around row \<open>i\<close>.\<close>

definition side_line :: "string \<Rightarrow> string \<Rightarrow> nat \<Rightarrow> csv_row \<Rightarrow> string result" where
  "side_line marker side j r =
     bindR (column r ''pc'') (\<lambda>pc.
     bindR (bindR (column r ''mnemonic'') (pad_cell 8)) (\<lambda>mn.
     bindR (column r ''rd_wdata'') (\<lambda>rd.
     bindR (column r ''mem_wdata'') (\<lambda>mem.
       Inr (marker @ pad_left 6 (str_int (int j)) @ '' | '' @ side @ '' pc='' @ str_cell pc @ '' mn='' @ mn
         @ '' rd='' @ str_cell rd @ '' mem='' @ str_cell mem)))))"

definition show_row :: "csv_row list \<Rightarrow> csv_row list \<Rightarrow> nat \<Rightarrow> nat \<Rightarrow> unit io" where
  "show_row a b i j =
     (let marker = (if j = i then ''>>'' else ''  '') in
      bindI (liftI (side_line marker ''A'' j (a ! j))) (\<lambda>l. bindI (printI [l]) (\<lambda>_.
      bindI (liftI (side_line marker ''B'' j (b ! j))) (\<lambda>l. printI [l]))))"

text \<open>The loop over the rows both sides have, from row \<open>i\<close>; \<open>None\<close> when it ends without a difference.\<close>

function compare_rows :: "int \<Rightarrow> csv_row list \<Rightarrow> csv_row list \<Rightarrow> nat \<Rightarrow> int option io" where
  "compare_rows context a b i =
     (let n = min (length a) (length b) in
      if n \<le> i then retI None
      else bindI (liftI (diff_key (a ! i))) (\<lambda>ka. bindI (liftI (diff_key (b ! i))) (\<lambda>kb.
        if ka \<noteq> kb
        then bindI (printI [''DIVERGE at row '' @ str_int (int i) @ '':'']) (\<lambda>_.
             (let lo = nat (max 0 (int i - context div 2)); hi = nat (min (int n) (int i + context div 2 + 1)) in
              bindI (eachI (show_row a b i) [lo ..< hi]) (\<lambda>_. retI (Some 1))))
        else compare_rows context a b (Suc i))))"
  by pat_completeness auto
termination
  by (relation "measure (\<lambda>(context, a, b, i). min (length a) (length b) - i)") auto

declare compare_rows.simps [simp del]

definition em_dash :: string where
  "em_dash = [CHR 0xE2, CHR 0x80, CHR 0x94]"

definition diff_retire_main :: "string \<Rightarrow> string \<Rightarrow> int \<Rightarrow> int io" where
  "diff_retire_main path_a path_b context =
     bindI filesI (\<lambda>fs.
     case bindR (load_rows fs path_a) (\<lambda>a. bindR (load_rows fs path_b) (\<lambda>b. Inr (a, b))) of
       Inl (OSError e) \<Rightarrow> bindI (errI (unlines [''error: '' @ e])) (\<lambda>_. retI 2)
     | Inl (CsvError e) \<Rightarrow> bindI (errI (unlines [''error: '' @ e])) (\<lambda>_. retI 2)
     | Inl e \<Rightarrow> raiseI e
     | Inr (a, b) \<Rightarrow>
         bindI (compare_rows context a b 0) (\<lambda>found. case found of
           Some rc \<Rightarrow> retI rc
         | None \<Rightarrow>
             if length a \<noteq> length b
             then bindI (printI [''DIVERGE at end: a='' @ str_int (int (length a)) @ '' rows, b='' @ str_int (int (length b)) @ '' rows''])
                    (\<lambda>_. retI 1)
             else bindI (printI [''OK '' @ em_dash @ '' '' @ str_int (int (min (length a) (length b))) @ '' rows identical on diff key''])
                    (\<lambda>_. retI 0)))"

text \<open>The command line.\<close>

definition RETIRE_ARGS :: cli where
  "RETIRE_ARGS = \<lparr>c_opts = [(takes_opt ''--context'' To_Int)\<lparr>o_default := AInt 10\<rparr>],
     c_pos = [\<lparr>p_name = ''a'', p_nargs = One, p_conv = To_Str\<rparr>, \<lparr>p_name = ''b'', p_nargs = One, p_conv = To_Str\<rparr>]\<rparr>"

definition diff_retire_cli :: "(string list \<Rightarrow> string) \<Rightarrow> string list \<Rightarrow> int io" where
  "diff_retire_cli says argv = bindI (parse_argsI says RETIRE_ARGS argv) (\<lambda>ns.
     diff_retire_main (str_arg ns ''a'') (str_arg ns ''b'') (int_arg ns ''--context''))"

section \<open>Verdict\<close>

text \<open>Two rows have the same key: all four columns are there and agree.\<close>

definition same_key :: "csv_row \<Rightarrow> csv_row \<Rightarrow> bool" where
  "same_key r r' \<longleftrightarrow> (\<forall>k \<in> {''pc'', ''rd_wdata'', ''fp_wdata'', ''mem_wdata''}. \<exists>v. column r k = Inr v \<and> column r' k = Inr v)"

lemma same_key_diff: "same_key r r' \<longleftrightarrow> (\<exists>k. diff_key r = Inr k \<and> diff_key r' = Inr k)"
  by (auto simp: same_key_def diff_key_def result_iff)

lemma bindI_const: "fst (bindI m (\<lambda>_. retI v) w) = Inr y \<Longrightarrow> y = v"
  by (auto simp: bindI_def retI_def split: prod.splits sum.splits)

text \<open>One round of the loop, by what the two keys are.\<close>

lemma compare_rows_step:
  assumes "i < min (length a) (length b)"
  shows "diff_key (a ! i) = Inl e \<Longrightarrow> compare_rows ctx a b i w = (Inl e, w)"
    and "diff_key (a ! i) = Inr ka \<Longrightarrow> diff_key (b ! i) = Inl e \<Longrightarrow> compare_rows ctx a b i w = (Inl e, w)"
    and "diff_key (a ! i) = Inr ka \<Longrightarrow> diff_key (b ! i) = Inr ka \<Longrightarrow> compare_rows ctx a b i w = compare_rows ctx a b (Suc i) w"
    and "diff_key (a ! i) = Inr ka \<Longrightarrow> diff_key (b ! i) = Inr kb \<Longrightarrow> ka \<noteq> kb \<Longrightarrow>
      fst (compare_rows ctx a b i w) = Inr y \<Longrightarrow> y = Some 1"
  using assms
  by (simp_all only: compare_rows.simps [of ctx a b i] Let_def not_le [symmetric] if_False bindI_lift HOL.simp_thms)
     (simp_all add: io_simps, (drule bindI_const)?, simp?)

lemma from_first: "i < n \<Longrightarrow> (\<forall>j. i \<le> j \<and> j < n \<longrightarrow> P j) \<longleftrightarrow> P i \<and> (\<forall>j. Suc i \<le> j \<and> j < n \<longrightarrow> P j)"
proof (intro iffI conjI allI impI)
  fix j assume "P i \<and> (\<forall>j. Suc i \<le> j \<and> j < n \<longrightarrow> P j)" and "i \<le> j \<and> j < n"
  then show "P j" by (cases "j = i") auto
qed auto

lemma compare_rows_None:
  "fst (compare_rows ctx a b i w) = Inr None \<longleftrightarrow>
     (\<forall>j. i \<le> j \<and> j < min (length a) (length b) \<longrightarrow> same_key (a ! j) (b ! j))"
proof (induction ctx a b i arbitrary: w rule: compare_rows.induct)
  case (1 ctx a b i)
  let ?n = "min (length a) (length b)"
  show ?case
  proof (cases "?n \<le> i")
    case True
    then show ?thesis by (subst compare_rows.simps) (auto simp: io_simps)
  next
    case False
    have split: "(\<forall>j. i \<le> j \<and> j < ?n \<longrightarrow> same_key (a ! j) (b ! j)) \<longleftrightarrow>
        same_key (a ! i) (b ! i) \<and> (\<forall>j. Suc i \<le> j \<and> j < ?n \<longrightarrow> same_key (a ! j) (b ! j))"
      using False by (intro from_first) linarith
    from False have i: "i < ?n" by linarith
    consider (ea) e where "diff_key (a ! i) = Inl e"
      | (eb) ka e where "diff_key (a ! i) = Inr ka" "diff_key (b ! i) = Inl e"
      | (eq) ka where "diff_key (a ! i) = Inr ka" "diff_key (b ! i) = Inr ka"
      | (ne) ka kb where "diff_key (a ! i) = Inr ka" "diff_key (b ! i) = Inr kb" "ka \<noteq> kb"
      by (cases "diff_key (a ! i)"; cases "diff_key (b ! i)") auto
    then show ?thesis
    proof cases
      case eq
      with split compare_rows_step(3) [OF i eq, of ctx w] 1 [OF refl False, of ka ka] show ?thesis
        by (simp add: same_key_diff)
    next
      case ne
      then have "fst (compare_rows ctx a b i w) \<noteq> Inr None" using compare_rows_step(4) [OF i ne, of ctx w None] by auto
      with ne split show ?thesis by (simp add: same_key_diff)
    qed (use split compare_rows_step(1,2) [OF i] in \<open>auto simp: same_key_diff\<close>)
  qed
qed

lemma compare_rows_Some: "fst (compare_rows ctx a b i w) = Inr (Some rc) \<Longrightarrow> rc = 1"
proof (induction ctx a b i arbitrary: w rule: compare_rows.induct)
  case (1 ctx a b i)
  show ?case
  proof (cases "min (length a) (length b) \<le> i")
    case True
    with 1(2) show ?thesis by (subst (asm) compare_rows.simps) (simp add: io_simps)
  next
    case False
    then have i: "i < min (length a) (length b)" by linarith
    consider (ea) e where "diff_key (a ! i) = Inl e"
      | (eb) ka e where "diff_key (a ! i) = Inr ka" "diff_key (b ! i) = Inl e"
      | (eq) ka where "diff_key (a ! i) = Inr ka" "diff_key (b ! i) = Inr ka"
      | (ne) ka kb where "diff_key (a ! i) = Inr ka" "diff_key (b ! i) = Inr kb" "ka \<noteq> kb"
      by (cases "diff_key (a ! i)"; cases "diff_key (b ! i)") auto
    then show ?thesis
    proof cases
      case eq
      with 1(2) compare_rows_step(3) [OF i eq, of ctx w] 1(1) [OF refl False, of ka ka] show ?thesis by simp
    next
      case ne
      with 1(2) compare_rows_step(4) [OF i ne, of ctx w "Some rc"] show ?thesis by simp
    qed (use 1(2) compare_rows_step(1,2) [OF i] in auto)
  qed
qed

lemma diff_retire_loaded:
  assumes "load_rows (w_files w) pa = Inr a" and "load_rows (w_files w) pb = Inr b"
  shows "fst (diff_retire_main pa pb ctx w) = Inr 0 \<longleftrightarrow> list_all2 same_key a b"
proof -
  obtain r w1 where c: "compare_rows ctx a b 0 w = (r, w1)" by (rule prod.exhaust)
  have none: "r = Inr None \<longleftrightarrow> (\<forall>j < min (length a) (length b). same_key (a ! j) (b ! j))"
    using compare_rows_None [of ctx a b 0 w] c by simp
  have "fst (diff_retire_main pa pb ctx w) = (case r of
      Inl e \<Rightarrow> Inl e | Inr None \<Rightarrow> Inr (if length a \<noteq> length b then 1 else 0) | Inr (Some rc) \<Rightarrow> Inr rc)"
    by (simp add: diff_retire_main_def io_simps assms bindI_def [of "compare_rows ctx a b 0"] c split: sum.split option.split)
  moreover have "r = Inr (Some rc) \<Longrightarrow> rc = 1" for rc using compare_rows_Some [of ctx a b 0 w] c by simp
  ultimately have "fst (diff_retire_main pa pb ctx w) = Inr 0 \<longleftrightarrow> r = Inr None \<and> length a = length b"
    by (force split: sum.splits option.splits)
  then show ?thesis by (auto simp: none list_all2_conv_all_nth)
qed


section \<open>Properties\<close>

text \<open>
  C35. The comparison of two retire traces is exact: when both files load, the tool returns 0 if and only if
  they have the same number of rows and every row of one has the key columns of the row of the other, all
  present and equal; the size of the context does not matter.
\<close>

theorem diff_retire_verdict:
  assumes "load_rows (w_files w) pa = Inr a" and "load_rows (w_files w) pb = Inr b"
  shows "fst (diff_retire_main pa pb ctx w) = Inr 0 \<longleftrightarrow> list_all2 same_key a b"
  using assms by (rule diff_retire_loaded)

definition demo_table :: "string list list" where
  "demo_table = [[''pc'', ''mnemonic'', ''rd_wdata'', ''fp_wdata'', ''mem_wdata''], [''80'', ''addi'', ''1'', ''0'', ''0'']]"

lemma demo_rows:
  "\<exists>r. load_rows [''a'' \<mapsto> csv_text demo_table] ''a'' = Inr [r] \<and> same_key r r"
proof -
  have "list_all plain_row demo_table" by (simp add: demo_table_def plain_row_def plain_field_def is_nl_def)
  from csv_rows_plain [OF this] show ?thesis
    by (simp add: load_rows_def read_dicts_def demo_table_def dict_rows_def dict_row_def same_key_def diff_key_def column_def)
qed

theorem diff_retire_verdict_witness:
  "fst (diff_retire_main ''a'' ''a'' 10 \<lparr>w_files = [''a'' \<mapsto> csv_text demo_table], w_out = [], w_err = []\<rparr>) = Inr 0"
proof -
  obtain r where r: "load_rows [''a'' \<mapsto> csv_text demo_table] ''a'' = Inr [r]" "same_key r r" using demo_rows by blast
  show ?thesis
    by (subst diff_retire_verdict [of _ _ "[r]" _ "[r]"], simp add: r(1), simp add: r(1), simp only: list_all2_Cons list_all2_Nil r(2))
qed

end
