(* ===== verification/Trace_Text.thy ===== *)
theory Trace_Text
  imports Py_Csv Py_Argparse
begin

text \<open>
  \<open>tools/trace/trace_to_text.py\<close>: a retire trace as readable text, one line per row with the row's effects.
\<close>

definition TRAP_NAMES :: "(string \<times> string) list" where
  "TRAP_NAMES = [(''0'', []), (''1'', ''INSTR_ACCESS_FAULT''), (''2'', ''ILLEGAL_INSTR''), (''3'', ''BREAKPOINT''),
     (''4'', ''LOAD_ADDR_MISALIGNED''), (''11'', ''ECALL_M'')]"

definition trap_name :: "string option \<Rightarrow> string" where
  "trap_name cause = (case cause of None \<Rightarrow> ''None''
     | Some c \<Rightarrow> (case map_of TRAP_NAMES c of Some n \<Rightarrow> n | None \<Rightarrow> c))"

text \<open>One effect of a row: empty when its condition does not hold.\<close>

definition when_set :: "csv_row \<Rightarrow> string \<Rightarrow> string list result \<Rightarrow> string list result" where
  "when_set r flag eff = bindR (int_column r flag) (\<lambda>v. if v \<noteq> 0 then eff else Inr [])"

definition rd_effect :: "csv_row \<Rightarrow> string list result" where
  "rd_effect r = when_set r ''rd_wen'' (bindR (int_column r ''rd'') (\<lambda>rd.
     if rd \<noteq> 0 then bindR (hex_column r ''rd_wdata'') (\<lambda>v. Inr [''x'' @ str_int rd @ '' = 0x'' @ fmt_hex 0 v]) else Inr []))"

definition fp_effect :: "csv_row \<Rightarrow> string list result" where
  "fp_effect r = when_set r ''fp_wen'' (bindR (int_column r ''fp_rd'') (\<lambda>rd.
     bindR (hex_column r ''fp_wdata'') (\<lambda>v. Inr [''f'' @ str_int rd @ '' = 0x'' @ fmt_hex 0 v])))"

definition mem_effect :: "csv_row \<Rightarrow> string list result" where
  "mem_effect r = when_set r ''mem_wen'' (bindR (hex_column r ''mem_addr'') (\<lambda>a.
     bindR (hex_column r ''mem_wdata'') (\<lambda>v. Inr [''mem[0x'' @ fmt_hex 0 a @ ''] = 0x'' @ fmt_hex 0 v])))"

definition csr_effect :: "csv_row \<Rightarrow> string list result" where
  "csr_effect r = when_set r ''csr_wen'' (bindR (hex_column r ''csr_addr'') (\<lambda>a.
     bindR (hex_column r ''csr_wdata'') (\<lambda>v. Inr [''csr[0x'' @ fmt_hex 3 a @ ''] = 0x'' @ fmt_hex 0 v])))"

definition trap_effect :: "csv_row \<Rightarrow> string list result" where
  "trap_effect r = when_set r ''trap_taken'' (bindR (column r ''trap_cause'') (\<lambda>c. Inr [''trap='' @ trap_name c]))"

definition fmt_row :: "csv_row \<Rightarrow> string result" where
  "fmt_row r =
     bindR (hex_column r ''pc'') (\<lambda>pc.
     bindR (int_column r ''cycle'') (\<lambda>cycle.
     bindR (bindR (column r ''mnemonic'') (pad_cell 10)) (\<lambda>mn.
     bindR (rd_effect r) (\<lambda>e1.
     bindR (fp_effect r) (\<lambda>e2.
     bindR (mem_effect r) (\<lambda>e3.
     bindR (csr_effect r) (\<lambda>e4.
     bindR (trap_effect r) (\<lambda>e5.
     (let extras = e1 @ e2 @ e3 @ e4 @ e5 in
      Inr (pad_left 8 (str_int cycle) @ '': 0x'' @ fmt_hex 0 pc @ ''  '' @ mn
        @ (if extras \<noteq> [] then ''  '' @ join ''  '' extras else [])))))))))))"

text \<open>
  The reader is read as the rows are printed: an exception of the parser comes after the lines of the
  records before it, of which \<open>csv_prefix\<close> is the list.
\<close>

fun csv_prefix :: "csv_reader \<Rightarrow> string list \<Rightarrow> string list list \<times> pyexc option" where
  "csv_prefix r [] = ((if cst r = In_Quoted then [cfields r @ [cfield r]] else []), None)"
| "csv_prefix r (l # ls) = (case csv_line l r of
      Inl e \<Rightarrow> ([], Some e)
    | Inr r' \<Rightarrow> if cst r' = Start_Record then (case csv_prefix csv_start ls of (rows, e) \<Rightarrow> (cfields r' # rows, e))
               else csv_prefix r' ls)"

definition trace_to_text_main :: "string \<Rightarrow> int io" where
  "trace_to_text_main path =
     bindI filesI (\<lambda>fs. case fs path of
       None \<Rightarrow> raiseI (OSError (''[Errno 2] No such file or directory: '' @ repr_str path))
     | Some s \<Rightarrow> (case csv_prefix csv_start (raw_lines s) of (rows, e) \<Rightarrow>
         bindI (eachI (\<lambda>r. bindI (liftI (fmt_row r)) (\<lambda>l. printI [l])) (dict_rows rows)) (\<lambda>_.
           case e of Some ex \<Rightarrow> raiseI ex | None \<Rightarrow> retI 0)))"

text \<open>The command line.\<close>

definition TRACE_TEXT_ARGS :: cli where
  "TRACE_TEXT_ARGS = \<lparr>c_opts = [], c_pos = [\<lparr>p_name = ''path'', p_nargs = One, p_conv = To_Str\<rparr>]\<rparr>"

definition trace_to_text_cli :: "(string list \<Rightarrow> string) \<Rightarrow> string list \<Rightarrow> int io" where
  "trace_to_text_cli says argv = bindI (parse_argsI says TRACE_TEXT_ARGS argv) (\<lambda>ns. trace_to_text_main (str_arg ns ''path''))"

lemma csv_prefix_plain: "list_all plain_row rows \<Longrightarrow> csv_prefix csv_start (raw_lines (csv_text rows)) = (rows, None)"
proof -
  have "list_all plain_row rows \<Longrightarrow> csv_prefix csv_start (map (\<lambda>r. join '','' r @ [CHR 0x0A]) rows) = (rows, None)"
    by (induction rows) (simp_all add: plain_line, simp add: csv_start_def)
  then show "list_all plain_row rows \<Longrightarrow> ?thesis" by (simp add: raw_lines_csv_text)
qed

section \<open>Typed tables\<close>

definition hex_columns :: "string list" where
  "hex_columns = [''pc'', ''rd_wdata'', ''fp_wdata'', ''mem_addr'', ''mem_wdata'', ''csr_addr'', ''csr_wdata'']"

definition int_columns :: "string list" where
  "int_columns = [''cycle'', ''rd_wen'', ''rd'', ''fp_wen'', ''fp_rd'', ''mem_wen'', ''csr_wen'', ''trap_taken'']"

text \<open>The columns of a row have their types: hex numbers, decimal numbers, and some text.\<close>

definition typed_row :: "csv_row \<Rightarrow> bool" where
  "typed_row r \<longleftrightarrow>
     (\<forall>k \<in> set hex_columns. \<exists>s. column r k = Inr (Some s) \<and> s \<noteq> [] \<and> list_all is_hex s) \<and>
     (\<forall>k \<in> set int_columns. \<exists>s. column r k = Inr (Some s) \<and> s \<noteq> [] \<and> list_all is_digit s) \<and>
     (\<forall>k \<in> {''mnemonic'', ''trap_cause''}. \<exists>s. column r k = Inr (Some s))"

lemma typed_hex: "typed_row r \<Longrightarrow> k \<in> set hex_columns \<Longrightarrow> \<exists>n. hex_column r k = Inr (int n)"
  unfolding typed_row_def by (fastforce simp: hex_column_def hex_cell_def hexes_py_int16)

lemma typed_int: "typed_row r \<Longrightarrow> k \<in> set int_columns \<Longrightarrow> \<exists>n. int_column r k = Inr (int n)"
  unfolding typed_row_def by (fastforce simp: int_column_def int_cell_def digits_py_int)

lemma typed_when:
  assumes "typed_row r" and "flag \<in> set int_columns" and "\<exists>e. eff = Inr e"
  shows "\<exists>e. when_set r flag eff = Inr e"
  using typed_int [OF assms(1,2)] assms(3) by (auto simp: when_set_def)

lemma typed_progress:
  assumes t: "typed_row r"
  shows "\<exists>l. fmt_row r = Inr l"
proof -
  have hex: "k \<in> set hex_columns \<Longrightarrow> \<exists>n. hex_column r k = Inr n" for k using typed_hex [OF t] by blast
  have int: "k \<in> set int_columns \<Longrightarrow> \<exists>n. int_column r k = Inr n" for k using typed_int [OF t] by blast
  have cols: "''pc'' \<in> set hex_columns" "''rd_wdata'' \<in> set hex_columns" "''fp_wdata'' \<in> set hex_columns"
    "''mem_addr'' \<in> set hex_columns" "''mem_wdata'' \<in> set hex_columns" "''csr_addr'' \<in> set hex_columns" "''csr_wdata'' \<in> set hex_columns"
    "''cycle'' \<in> set int_columns" "''rd_wen'' \<in> set int_columns" "''rd'' \<in> set int_columns" "''fp_wen'' \<in> set int_columns"
    "''fp_rd'' \<in> set int_columns" "''mem_wen'' \<in> set int_columns" "''csr_wen'' \<in> set int_columns" "''trap_taken'' \<in> set int_columns"
    by (simp_all add: hex_columns_def int_columns_def)
  from t obtain mn c where shown: "column r ''mnemonic'' = Inr (Some mn)" "column r ''trap_cause'' = Inr (Some c)"
    by (auto simp: typed_row_def)
  have "\<exists>e. rd_effect r = Inr e" unfolding rd_effect_def
    using typed_when [OF t cols(9)] int [OF cols(10)] hex [OF cols(2)] by (auto split: if_splits)
  moreover have "\<exists>e. fp_effect r = Inr e" unfolding fp_effect_def
    using typed_when [OF t cols(11)] int [OF cols(12)] hex [OF cols(3)] by auto
  moreover have "\<exists>e. mem_effect r = Inr e" unfolding mem_effect_def
    using typed_when [OF t cols(13)] hex [OF cols(4)] hex [OF cols(5)] by auto
  moreover have "\<exists>e. csr_effect r = Inr e" unfolding csr_effect_def
    using typed_when [OF t cols(14)] hex [OF cols(6)] hex [OF cols(7)] by auto
  moreover have "\<exists>e. trap_effect r = Inr e" unfolding trap_effect_def
    using typed_when [OF t cols(15)] shown by auto
  moreover obtain pc cy where "hex_column r ''pc'' = Inr pc" "int_column r ''cycle'' = Inr cy"
    using hex [OF cols(1)] int [OF cols(8)] by blast
  ultimately show ?thesis using shown by (auto simp: fmt_row_def pad_cell_def Let_def)
qed

lemma trace_to_text_plain:
  assumes "w_files w path = Some (csv_text (names # rows))" and "list_all plain_row (names # rows)"
    and "\<forall>row \<in> set rows. typed_row (dict_row names row)"
  shows "\<exists>ls. mapR (\<lambda>row. fmt_row (dict_row names row)) rows = Inr ls \<and>
    trace_to_text_main path w = (Inr 0, w\<lparr>w_out := w_out w @ unlines ls\<rparr>)"
proof -
  obtain ls where ls: "mapR (\<lambda>row. fmt_row (dict_row names row)) rows = Inr ls"
    using mapR_total [of rows "\<lambda>row. fmt_row (dict_row names row)"] typed_progress assms(3) by blast
  have "filter (\<lambda>r. r \<noteq> []) rows = rows"
    using assms(2) by (simp add: filter_id_conv list_all_iff plain_row_def)
  then have dicts: "dict_rows (names # rows) = map (dict_row names) rows" by (simp add: dict_rows_def)
  have comp: "mapR f (map g xs) = mapR (\<lambda>x. f (g x)) xs" for f g and xs :: "string list list"
    by (induction xs) auto
  have "eachI (\<lambda>r. bindI (liftI (fmt_row r)) (\<lambda>l. printI [l])) (map (dict_row names) rows) w
      = (Inr (), w\<lparr>w_out := w_out w @ unlines ls\<rparr>)"
    by (rule eachI_lines) (simp add: comp ls)
  then have "trace_to_text_main path w = (Inr 0, w\<lparr>w_out := w_out w @ unlines ls\<rparr>)"
    by (simp add: trace_to_text_main_def io_simps assms(1) csv_prefix_plain [OF assms(2)] dicts bindI_def [of "eachI _ _"])
  with ls show ?thesis by blast
qed

section \<open>Properties\<close>

text \<open>
  C36. Well-typed traces do not go wrong: when every row of a trace has hexadecimal and decimal numbers where
  they belong, and a mnemonic and a trap cause, the tool raises nothing, returns 0 and prints one line per
  row, in order, whatever the flags select.
\<close>

theorem trace_to_text_typed:
  assumes "w_files w path = Some (csv_text (names # rows))" and "list_all plain_row (names # rows)"
    and "\<forall>row \<in> set rows. typed_row (dict_row names row)"
  shows "\<exists>ls. mapR (\<lambda>row. fmt_row (dict_row names row)) rows = Inr ls \<and>
    trace_to_text_main path w = (Inr 0, w\<lparr>w_out := w_out w @ unlines ls\<rparr>)"
  using assms by (rule trace_to_text_plain)

definition demo_names :: "string list" where
  "demo_names = [''cycle'', ''pc'', ''mnemonic'', ''rd_wen'', ''rd'', ''rd_wdata'', ''fp_wen'', ''fp_rd'', ''fp_wdata'',
     ''csr_wen'', ''csr_addr'', ''csr_wdata'', ''mem_wen'', ''mem_addr'', ''mem_wdata'', ''trap_taken'', ''trap_cause'']"

definition demo_row :: "string list" where
  "demo_row = [''7'', ''80'', ''addi'', ''1'', ''5'', ''2a'', ''0'', ''0'', ''0'', ''0'', ''0'', ''0'', ''0'', ''0'', ''0'', ''0'', ''0'']"

lemma demo_trace: "list_all plain_row [demo_names, demo_row]" "typed_row (dict_row demo_names demo_row)"
  by (simp_all add: demo_names_def demo_row_def plain_row_def plain_field_def is_nl_def typed_row_def dict_row_def column_def
      hex_columns_def int_columns_def is_hex_code is_digit_def)

theorem trace_to_text_typed_witness:
  "\<exists>ls. mapR (\<lambda>row. fmt_row (dict_row demo_names row)) [demo_row] = Inr ls \<and>
    trace_to_text_main ''t'' \<lparr>w_files = [''t'' \<mapsto> csv_text [demo_names, demo_row]], w_out = [], w_err = []\<rparr>
      = (Inr 0, \<lparr>w_files = [''t'' \<mapsto> csv_text [demo_names, demo_row]], w_out = unlines ls, w_err = []\<rparr>)"
  using trace_to_text_typed [of "\<lparr>w_files = [''t'' \<mapsto> csv_text [demo_names, demo_row]], w_out = [], w_err = []\<rparr>" "''t''" demo_names "[demo_row]"]
    demo_trace by simp

end
