(* ===== verification/Profile_Pc.thy ===== *)
theory Profile_Pc
  imports Py_Number Py_Argparse "HOL-Library.AList" "HOL-Library.Multiset"
begin

text \<open>
  \<open>tools/trace/profile_pc.py\<close>: the hottest program counters of a profile with their share and a bar.
  Output is in UTF-8.
\<close>

definition BAR_WIDTH :: int where
  "BAR_WIDTH = 40"

text \<open>A line of the table: the address, the mnemonic and the count.\<close>

type_synonym hot = "(string option \<times> string option) \<times> int"

text \<open>The cache-line mode: the counts of each 64-byte line, with the mnemonic of its first row.\<close>

fun aggregate :: "csv_row list \<Rightarrow> (int \<times> int \<times> string option) list \<Rightarrow> (int \<times> int \<times> string option) list result" where
  "aggregate [] agg = Inr agg"
| "aggregate (r # rs) agg =
     bindR (hex_column r ''pc'') (\<lambda>pc. let line = pc AND NOT 0x3F in
     bindR (column r ''mnemonic'') (\<lambda>mn.
     bindR (int_column r ''count'') (\<lambda>c.
     (let (k, m) = (case map_of agg line of Some km \<Rightarrow> km | None \<Rightarrow> (0, mn))
      in aggregate rs (AList.update line (k + c, m) agg)))))"

definition flat_rows :: "bool \<Rightarrow> csv_row list \<Rightarrow> hot list result" where
  "flat_rows cacheline rows =
     (if cacheline
      then bindR (aggregate rows []) (\<lambda>agg. Inr (map (\<lambda>(k, c, m). ((Some (fmt_hex 16 k), m), c)) agg))
      else mapR (\<lambda>r. bindR (column r ''pc'') (\<lambda>pc. bindR (column r ''mnemonic'') (\<lambda>mn.
        bindR (int_column r ''count'') (\<lambda>c. Inr ((pc, mn), c))))) rows)"

text \<open>\<open>flat[: top]\<close>.\<close>

definition take_slice :: "int \<Rightarrow> 'a list \<Rightarrow> 'a list" where
  "take_slice k xs = (if k < 0 then take (nat (int (length xs) + k)) xs else take (nat k) xs)"

definition hottest :: "int \<Rightarrow> hot list \<Rightarrow> hot list" where
  "hottest limit flat = take_slice limit (sort_desc snd flat)"

definition bar_length :: "int \<Rightarrow> int \<Rightarrow> int result" where
  "bar_length c max_count = scaled BAR_WIDTH c max_count"

definition hot_line :: "int \<Rightarrow> int \<Rightarrow> hot \<Rightarrow> string result" where
  "hot_line tot max_count = (\<lambda>((pc, mn), c).
     bindR (true_div c tot) (\<lambda>frac.
     bindR (bar_length c max_count) (\<lambda>n.
     bindR (pad_left_cell 16 pc) (\<lambda>p.
     bindR (pad_cell 10 mn) (\<lambda>m.
       Inr (p @ '' '' @ m @ '' '' @ pad_left 10 (str_int c) @ ''  '' @ pad_left 6 (fmt_fixed 2 (fl (frac * 100))) @ ''%  ''
         @ concat (replicate (nat n) full_block)))))))"

definition profile_header :: string where
  "profile_header = pad_left 16 ''pc'' @ '' '' @ pad_right 10 ''mnemonic'' @ '' '' @ pad_left 10 ''count'' @ ''  fraction  bar''"

definition profile_main :: "string \<Rightarrow> int \<Rightarrow> bool \<Rightarrow> int io" where
  "profile_main path limit cacheline =
     bindI filesI (\<lambda>fs.
     bindI (liftI (read_dicts fs path)) (\<lambda>rows.
     if rows = [] then bindI (printI [''(empty profile)'']) (\<lambda>_. retI 0)
     else bindI (liftI (flat_rows cacheline rows)) (\<lambda>flat.
       let flat = hottest limit flat;
           tot = or_one (sum_list (map snd flat))
       in if flat = [] then raiseI (ValueError ''max() arg is an empty sequence'')
       else let max_count = or_one (Max (snd ` set flat)) in
         bindI (printI [profile_header]) (\<lambda>_.
         bindI (eachI (\<lambda>h. bindI (liftI (hot_line tot max_count h)) (\<lambda>l. printI [l])) flat) (\<lambda>_. retI 0)))))"

text \<open>The command line.\<close>

definition PROFILE_ARGS :: cli where
  "PROFILE_ARGS = \<lparr>c_opts = [(takes_opt ''--top'' To_Int)\<lparr>o_default := AInt 20\<rparr>, flag_opt ''--cacheline''], c_pos = [\<lparr>p_name = ''path'', p_nargs = One, p_conv = To_Str\<rparr>]\<rparr>"

definition profile_cli :: "(string list \<Rightarrow> string) \<Rightarrow> string list \<Rightarrow> int io" where
  "profile_cli says argv = bindI (parse_argsI says PROFILE_ARGS argv) (\<lambda>ns.
     profile_main (str_arg ns ''path'') (int_arg ns ''--top'') (bool_arg ns ''--cacheline''))"

section \<open>The table\<close>

lemma hottest_take: "0 < limit \<Longrightarrow> hottest limit flat = take (nat limit) (sort_desc snd flat)"
  by (simp add: hottest_def take_slice_def)

lemma bar_bounds:
  "0 \<le> c \<Longrightarrow> c \<le> m \<Longrightarrow> 0 < m \<Longrightarrow> \<exists>n. bar_length c m = Inr n \<and> 0 \<le> n \<and> n \<le> BAR_WIDTH"
  unfolding bar_length_def by (rule scaled_bounds) (simp_all add: BAR_WIDTH_def)

lemma bar_full: "0 < c \<Longrightarrow> bar_length c c = Inr BAR_WIDTH"
  unfolding bar_length_def by (rule scaled_full) (simp_all add: BAR_WIDTH_def)

lemma profile_shown:
  assumes "flat \<noteq> []" and "0 < limit" and "\<forall>h \<in> set flat. 0 \<le> snd h"
  shows "\<exists>rest. mset flat = mset (hottest limit flat) + mset rest \<and> length (hottest limit flat) = min (nat limit) (length flat)
      \<and> sorted_wrt (\<lambda>a b. snd b \<le> snd a) (hottest limit flat @ rest)"
    and "h \<in> set (hottest limit flat) \<Longrightarrow>
      \<exists>n. bar_length (snd h) (or_one (Max (snd ` set (hottest limit flat)))) = Inr n \<and> 0 \<le> n \<and> n \<le> BAR_WIDTH"
    and "0 < snd (hd (hottest limit flat)) \<Longrightarrow>
      bar_length (snd (hd (hottest limit flat))) (or_one (Max (snd ` set (hottest limit flat)))) = Inr BAR_WIDTH"
proof -
  let ?s = "sort_desc snd flat"
  let ?t = "hottest limit flat"
  have split: "?s = ?t @ drop (nat limit) ?s" by (simp add: hottest_take [OF assms(2)])
  have "mset flat = mset ?t + mset (drop (nat limit) ?s)" by (metis mset_append mset_sort split sort_desc_def)
  moreover have "sorted_wrt (\<lambda>a b. snd b \<le> snd a) (?t @ drop (nat limit) ?s)"
    unfolding split [symmetric] by (rule sort_desc_sorted)
  ultimately show "\<exists>rest. mset flat = mset ?t + mset rest \<and> length ?t = min (nat limit) (length flat)
      \<and> sorted_wrt (\<lambda>a b. snd b \<le> snd a) (?t @ rest)"
    by (intro exI [of _ "drop (nat limit) ?s"]) (simp add: hottest_take [OF assms(2)])
  have sub: "set ?t \<subseteq> set flat" using set_take_subset [of "nat limit" ?s] by (simp add: hottest_take [OF assms(2)])
  have "?s \<noteq> []" using assms(1) sort_desc_set [of snd flat] by (metis set_empty)
  then have ne: "?t \<noteq> []" using assms(2) by (simp add: hottest_take)
  define M where "M = Max (snd ` set ?t)"
  have M: "h \<in> set ?t \<Longrightarrow> snd h \<le> M" for h unfolding M_def by simp
  have "0 \<le> snd (hd ?t)" using ne assms(3) sub by (meson hd_in_set subsetD)
  then have M0: "0 \<le> M" using M [OF hd_in_set [OF ne]] by linarith
  show "\<exists>n. bar_length (snd h) (or_one (Max (snd ` set ?t))) = Inr n \<and> 0 \<le> n \<and> n \<le> BAR_WIDTH" if h: "h \<in> set ?t"
    unfolding M_def [symmetric]
  proof (rule bar_bounds)
    show "0 \<le> snd h" using h sub assms(3) by blast
    show "snd h \<le> or_one M" "0 < or_one M" using M [OF h] M0 or_one_pos [of M] by linarith+
  qed
  assume pos: "0 < snd (hd ?t)"
  have "sorted_wrt (\<lambda>a b. snd b \<le> snd a) ?t" using sort_desc_sorted [of snd flat] sorted_wrt_take by (simp add: hottest_take [OF assms(2)])
  then have "\<forall>h \<in> set ?t. snd h \<le> snd (hd ?t)" using ne by (cases ?t) auto
  then have "M = snd (hd ?t)" unfolding M_def using ne by (intro Max_eqI) auto
  with pos bar_full show "bar_length (snd (hd ?t)) (or_one (Max (snd ` set ?t))) = Inr BAR_WIDTH"
    unfolding M_def [symmetric] by (simp add: or_one_def)
qed

lemma aggregate_nonempty: "aggregate rs agg = Inr x \<Longrightarrow> rs \<noteq> [] \<or> agg \<noteq> [] \<Longrightarrow> x \<noteq> []"
proof (induction rs arbitrary: agg)
  case (Cons r rs)
  have upd: "AList.update k v al \<noteq> []" for k v and al :: "(int \<times> int \<times> string option) list"
    by (cases al) auto
  from Cons.prems(1) obtain k v where "aggregate rs (AList.update k v agg) = Inr x"
    by (auto simp: result_iff Let_def case_prod_unfold)
  with Cons.IH upd show ?case by blast
qed simp

lemma flat_rows_nonempty: "flat_rows cacheline rows = Inr flat \<Longrightarrow> rows \<noteq> [] \<Longrightarrow> flat \<noteq> []"
  using aggregate_nonempty [of rows "[]"] by (auto simp: flat_rows_def result_iff dest!: mapR_length split: if_splits)

lemma hot_line_total:
  assumes "tot \<noteq> 0" and "m \<noteq> 0"
  shows "\<exists>l. hot_line tot m ((Some p, Some mn), c) = Inr l"
  using assms by (simp add: hot_line_def true_div_def bar_length_def scaled_def pad_left_cell_def pad_cell_def)

lemma profile_main_table:
  assumes "read_dicts (w_files w) path = Inr rows" and "rows \<noteq> []" and "flat_rows cacheline rows = Inr flat"
    and "0 < limit" and "\<forall>h \<in> set flat. 0 \<le> snd h \<and> (\<exists>p mn. fst h = (Some p, Some mn))"
  shows "\<exists>shown rest ls.
    profile_main path limit cacheline w = (Inr 0, w\<lparr>w_out := w_out w @ unlines (profile_header # ls)\<rparr>) \<and>
    mset flat = mset shown + mset rest \<and> length shown = min (nat limit) (length flat) \<and>
    sorted_wrt (\<lambda>a b. snd b \<le> snd a) (shown @ rest) \<and>
    mapR (hot_line (or_one (sum_list (map snd shown))) (or_one (Max (snd ` set shown)))) shown = Inr ls \<and>
    (\<forall>h \<in> set shown. \<exists>n. bar_length (snd h) (or_one (Max (snd ` set shown))) = Inr n \<and> 0 \<le> n \<and> n \<le> BAR_WIDTH)"
proof -
  let ?t = "hottest limit flat"
  let ?f = "hot_line (or_one (sum_list (map snd ?t))) (or_one (Max (snd ` set ?t)))"
  have ne: "flat \<noteq> []" using assms(2,3) by (simp add: flat_rows_nonempty)
  have pos: "\<forall>h \<in> set flat. 0 \<le> snd h" using assms(5) by blast
  from profile_shown(1) [OF ne assms(4) pos] obtain rest where rest: "mset flat = mset ?t + mset rest"
    "length ?t = min (nat limit) (length flat)" "sorted_wrt (\<lambda>a b. snd b \<le> snd a) (?t @ rest)" by blast
  have bars: "\<forall>h \<in> set ?t. \<exists>n. bar_length (snd h) (or_one (Max (snd ` set ?t))) = Inr n \<and> 0 \<le> n \<and> n \<le> BAR_WIDTH"
    using profile_shown(2) [OF ne assms(4) pos] by blast
  have "set ?t \<subseteq> set flat" using rest(1) by (metis mset_subset_eq_add_left set_mset_mono set_mset_mset)
  have "\<exists>l. ?f h = Inr l" if "h \<in> set ?t" for h
  proof -
    from that \<open>set ?t \<subseteq> set flat\<close> assms(5) obtain p mn where "fst h = (Some p, Some mn)" by blast
    then have "h = ((Some p, Some mn), snd h)" by (cases h) simp
    then show ?thesis using hot_line_total [of "or_one (sum_list (map snd ?t))" "or_one (Max (snd ` set ?t))" p mn "snd h"] by simp
  qed
  then obtain ls where ls: "mapR ?f ?t = Inr ls" using mapR_total [of ?t ?f] by blast
  have "0 < min (nat limit) (length flat)" using ne assms(4) by simp
  then have "?t \<noteq> []" using rest(2) by (metis length_greater_0_conv)
  then have "profile_main path limit cacheline w = bindI (eachI (\<lambda>h. bindI (liftI (?f h)) (\<lambda>l. printI [l])) ?t) (\<lambda>_. retI 0)
      (w\<lparr>w_out := w_out w @ unlines [profile_header]\<rparr>)"
    using assms(1-3) by (simp add: profile_main_def io_simps Let_def)
  also have "... = (Inr 0, w\<lparr>w_out := w_out w @ unlines (profile_header # ls)\<rparr>)"
    by (subst bindI_done, rule eachI_lines [OF ls]) (simp add: retI_def unlines_def)
  finally show ?thesis using rest ls bars by blast
qed

section \<open>Properties\<close>

text \<open>
  C37. The profile is the table it says it is: for a profile that loads, with counts that are not negative, the
  rows shown are the \<open>--top\<close> largest, in descending order, and together with the rows left out they are
  the rows of the profile; every row gets its line, and every bar has between 0 and \<open>BAR_WIDTH\<close> blocks,
  whatever the floating-point quotients round to.
\<close>

theorem profile_table:
  assumes "read_dicts (w_files w) path = Inr rows" and "rows \<noteq> []" and "flat_rows cacheline rows = Inr flat"
    and "0 < limit" and "\<forall>h \<in> set flat. 0 \<le> snd h \<and> (\<exists>p mn. fst h = (Some p, Some mn))"
  shows "\<exists>shown rest ls.
    profile_main path limit cacheline w = (Inr 0, w\<lparr>w_out := w_out w @ unlines (profile_header # ls)\<rparr>) \<and>
    mset flat = mset shown + mset rest \<and> length shown = min (nat limit) (length flat) \<and>
    sorted_wrt (\<lambda>a b. snd b \<le> snd a) (shown @ rest) \<and>
    mapR (hot_line (or_one (sum_list (map snd shown))) (or_one (Max (snd ` set shown)))) shown = Inr ls \<and>
    (\<forall>h \<in> set shown. \<exists>n. bar_length (snd h) (or_one (Max (snd ` set shown))) = Inr n \<and> 0 \<le> n \<and> n \<le> BAR_WIDTH)"
  using assms by (rule profile_main_table)

definition demo_profile :: "string list list" where
  "demo_profile = [[''pc'', ''mnemonic'', ''count'', ''fraction''], [''80'', ''addi'', ''3'', ''0.75''], [''84'', ''lw'', ''1'', ''0.25'']]"

lemma demo_profile_loads:
  "\<exists>rows. read_dicts [''p'' \<mapsto> csv_text demo_profile] ''p'' = Inr rows \<and> rows \<noteq> []
     \<and> flat_rows False rows = Inr [((Some ''80'', Some ''addi''), 3), ((Some ''84'', Some ''lw''), 1)]"
proof -
  have "list_all plain_row demo_profile" by (simp add: demo_profile_def plain_row_def plain_field_def is_nl_def)
  from csv_rows_plain [OF this] have r: "read_dicts [''p'' \<mapsto> csv_text demo_profile] ''p'' = Inr (dict_rows demo_profile)"
    by (simp add: read_dicts_def)
  have i: "py_int ''3'' = Inr 3" "py_int ''1'' = Inr 1" by code_simp+
  show ?thesis
    unfolding r by (simp add: demo_profile_def dict_rows_def dict_row_def flat_rows_def column_def int_column_def int_cell_def i)
qed

theorem profile_table_witness:
  "\<exists>ls. profile_main ''p'' 1 False \<lparr>w_files = [''p'' \<mapsto> csv_text demo_profile], w_out = [], w_err = []\<rparr>
     = (Inr 0, \<lparr>w_files = [''p'' \<mapsto> csv_text demo_profile], w_out = unlines (profile_header # ls), w_err = []\<rparr>)"
proof -
  obtain rows where "read_dicts [''p'' \<mapsto> csv_text demo_profile] ''p'' = Inr rows" "rows \<noteq> []"
    "flat_rows False rows = Inr [((Some ''80'', Some ''addi''), 3), ((Some ''84'', Some ''lw''), 1)]"
    using demo_profile_loads by blast
  then show ?thesis
    using profile_table [of "\<lparr>w_files = [''p'' \<mapsto> csv_text demo_profile], w_out = [], w_err = []\<rparr>" "''p''" rows False
      "[((Some ''80'', Some ''addi''), 3), ((Some ''84'', Some ''lw''), 1)]" 1] by auto
qed

end
