(* ===== verification/Stall_Taxonomy.thy ===== *)
theory Stall_Taxonomy
  imports Py_Number Py_Argparse "HOL-Library.Multiset"
begin

text \<open>
  \<open>tools/trace/stall_taxonomy.py\<close>: the stall causes of a run, the most expensive first, with their share
  and a bar. Output is in UTF-8.
\<close>

definition STALL_BAR :: int where
  "STALL_BAR = 30"

definition stall_header :: string where
  "stall_header = pad_right 22 ''event'' @ '' '' @ pad_left 10 ''cycles'' @ '' '' @ pad_left 10 ''fraction'' @ ''  bar''"

text \<open>One line: the exceptions of its parts come in the order of the statements.\<close>

definition stall_line :: "int \<Rightarrow> csv_row \<Rightarrow> string result" where
  "stall_line max_c r =
     bindR (int_column r ''cycle_count'') (\<lambda>c.
     bindR (bindR (column r ''fraction'') float_cell) (\<lambda>frac.
     bindR (scaled STALL_BAR c max_c) (\<lambda>n.
     bindR (column r ''event_name'') (\<lambda>name.
     bindR (pad_cell 22 name) (\<lambda>p.
       Inr (p @ '' '' @ pad_left 10 (str_int c) @ '' '' @ pad_left 9 (fmt_number 2 (times100 frac)) @ ''%  ''
         @ concat (replicate (nat n) full_block)))))))"

text \<open>The rows with their keys, sorted, and the largest key, 1 when there is none or it is 0.\<close>

definition keyed_rows :: "csv_row list \<Rightarrow> (csv_row \<times> int) list result" where
  "keyed_rows rows = bindR (mapR (\<lambda>r. bindR (int_column r ''cycle_count'') (\<lambda>k. Inr (r, k))) rows)
     (\<lambda>keyed. Inr (sort_desc snd keyed))"

definition max_cycles :: "int list \<Rightarrow> int" where
  "max_cycles ks = or_one (if ks = [] then 1 else Max (set ks))"

definition stall_main :: "string \<Rightarrow> int io" where
  "stall_main path =
     bindI filesI (\<lambda>fs.
     bindI (liftI (read_dicts fs path)) (\<lambda>rows.
     bindI (liftI (keyed_rows rows)) (\<lambda>keyed.
     (let max_c = max_cycles (map snd keyed) in
      bindI (printI [stall_header]) (\<lambda>_.
      bindI (eachI (\<lambda>r. bindI (liftI (stall_line max_c r)) (\<lambda>l. printI [l])) (map fst keyed)) (\<lambda>_. retI 0))))))"

text \<open>The command line.\<close>

definition STALL_ARGS :: cli where
  "STALL_ARGS = \<lparr>c_opts = [], c_pos = [\<lparr>p_name = ''path'', p_nargs = One, p_conv = To_Str\<rparr>]\<rparr>"

definition stall_cli :: "(string list \<Rightarrow> string) \<Rightarrow> string list \<Rightarrow> int io" where
  "stall_cli says argv = bindI (parse_argsI says STALL_ARGS argv) (\<lambda>ns. stall_main (str_arg ns ''path''))"

section \<open>The table\<close>

definition stall_row :: "csv_row \<Rightarrow> int \<Rightarrow> bool" where
  "stall_row r c \<longleftrightarrow> int_column r ''cycle_count'' = Inr c \<and> 0 \<le> c \<and>
     (\<exists>x. bindR (column r ''fraction'') float_cell = Inr x) \<and> (\<exists>s. column r ''event_name'' = Inr (Some s))"

lemma keyed_rows_stall:
  "list_all2 stall_row rows ks \<Longrightarrow> keyed_rows rows = Inr (sort_desc snd (zip rows ks))"
proof -
  assume *: "list_all2 stall_row rows ks"
  have "mapR (\<lambda>r. bindR (int_column r ''cycle_count'') (\<lambda>k. Inr (r, k))) rows = Inr (zip rows ks)"
    using * by (induction rule: list_all2_induct) (simp_all add: stall_row_def)
  then show ?thesis by (simp add: keyed_rows_def)
qed

lemma max_cycles_bound:
  assumes "k \<in> set ks" and "\<forall>k \<in> set ks. 0 \<le> k"
  shows "k \<le> max_cycles ks \<and> 0 < max_cycles ks"
proof -
  have "k \<le> Max (set ks)" using assms(1) by simp
  moreover have "0 \<le> k" using assms by blast
  ultimately have "0 \<le> Max (set ks)" by linarith
  from or_one_pos [OF this] have "0 < or_one (Max (set ks))" "Max (set ks) \<le> or_one (Max (set ks))" by simp_all
  moreover have "max_cycles ks = or_one (Max (set ks))" using assms(1) by (auto simp: max_cycles_def)
  ultimately show ?thesis using \<open>k \<le> Max (set ks)\<close> by (metis order_trans)
qed

lemma stall_line_total:
  assumes "stall_row r c" and "m \<noteq> 0"
  shows "\<exists>l. stall_line m r = Inr l"
  using assms by (auto simp: stall_row_def stall_line_def scaled_def true_div_def pad_cell_def)

text \<open>
  For a table that loads, with counts that are not negative, every row is printed once, in descending order of
  the count, with a bar of at most \<open>STALL_BAR\<close> blocks; an empty table prints the header alone.
\<close>

lemma stall_main_table:
  assumes "read_dicts (w_files w) path = Inr rows" and "list_all2 stall_row rows ks"
  shows "\<exists>shown ls. stall_main path w = (Inr 0, w\<lparr>w_out := w_out w @ unlines (stall_header # ls)\<rparr>) \<and>
    mset shown = mset (zip rows ks) \<and> sorted_wrt (\<lambda>a b. snd b \<le> snd a) shown \<and>
    mapR (stall_line (max_cycles (map snd shown))) (map fst shown) = Inr ls \<and>
    (\<forall>(r, c) \<in> set shown. \<exists>n. scaled STALL_BAR c (max_cycles (map snd shown)) = Inr n \<and> 0 \<le> n \<and> n \<le> STALL_BAR)"
proof -
  define shown where "shown = sort_desc snd (zip rows ks)"
  define m where "m = max_cycles (map snd shown)"
  have row: "stall_row r c" if "(r, c) \<in> set shown" for r c
    using that assms(2) by (auto simp: shown_def list_all2_iff)
  then have pos: "\<forall>k \<in> set (map snd shown). 0 \<le> k" by (auto simp: stall_row_def)
  have bound: "c \<le> m \<and> 0 < m" if "(r, c) \<in> set shown" for r c
    unfolding m_def by (rule max_cycles_bound) (use that pos in force)+
  have "m \<noteq> 0" by (simp add: m_def max_cycles_def)
  have "\<forall>r \<in> set (map fst shown). \<exists>l. stall_line m r = Inr l"
  proof
    fix r assume "r \<in> set (map fst shown)"
    then obtain c where "(r, c) \<in> set shown" by auto
    from stall_line_total [OF row [OF this] \<open>m \<noteq> 0\<close>] show "\<exists>l. stall_line m r = Inr l" .
  qed
  from mapR_total [OF this] obtain ls where ls: "mapR (stall_line m) (map fst shown) = Inr ls" by blast
  have "stall_main path w = (Inr 0, w\<lparr>w_out := w_out w @ unlines (stall_header # ls)\<rparr>)"
    unfolding stall_main_def
    by (simp add: io_simps assms(1) keyed_rows_stall [OF assms(2)] Let_def flip: shown_def m_def)
      (subst bindI_done, rule eachI_lines [OF ls], simp add: retI_def unlines_def)
  moreover have "\<exists>n. scaled STALL_BAR c m = Inr n \<and> 0 \<le> n \<and> n \<le> STALL_BAR" if "(r, c) \<in> set shown" for r c
    using row [OF that] bound [OF that] by (intro scaled_bounds) (simp_all add: stall_row_def STALL_BAR_def)
  moreover have "mset shown = mset (zip rows ks)" by (simp add: shown_def sort_desc_def)
  moreover have "sorted_wrt (\<lambda>a b. snd b \<le> snd a) shown" unfolding shown_def by (rule sort_desc_sorted)
  ultimately show ?thesis using ls unfolding m_def by (intro exI [of _ shown] exI [of _ ls]) auto
qed

end
