(* ===== verification/Testfloat_Vectors.thy ===== *)
theory Testfloat_Vectors
  imports Py_IO
begin

text \<open>
  \<open>tools/gen_testfloat_vectors.py\<close>: for every operation and rounding mode, the test generator of Berkeley
  TestFloat is run as a child process and its lines get the rounding mode before their last field.
\<close>

definition OPS_2OP_S :: "string list" where "OPS_2OP_S = [''f32_add'', ''f32_sub'', ''f32_mul'']"
definition OPS_2OP_D :: "string list" where "OPS_2OP_D = [''f64_add'', ''f64_sub'', ''f64_mul'']"
definition OPS_3OP_S :: "string list" where "OPS_3OP_S = [''f32_mulAdd'']"
definition OPS_3OP_D :: "string list" where "OPS_3OP_D = [''f64_mulAdd'']"

definition CVT_OPS :: "string list" where
  "CVT_OPS = [''f32_to_i32'', ''f32_to_ui32'', ''f32_to_i64'', ''f32_to_ui64'',
     ''f64_to_i32'', ''f64_to_ui32'', ''f64_to_i64'', ''f64_to_ui64'',
     ''i32_to_f32'', ''ui32_to_f32'', ''i64_to_f32'', ''ui64_to_f32'',
     ''i32_to_f64'', ''ui32_to_f64'', ''i64_to_f64'', ''ui64_to_f64'',
     ''f32_to_f64'', ''f64_to_f32'']"

definition RMS :: "(string \<times> string \<times> int) list" where
  "RMS = [(''rne'', ''-rnear_even'', 0), (''rtz'', ''-rminMag'', 1), (''rdn'', ''-rmin'', 2), (''rup'', ''-rmax'', 3),
     (''rmm'', ''-rnear_maxMag'', 4)]"

text \<open>One line of the generator with the rounding mode inserted before its last field.\<close>

definition vector_line :: "int \<Rightarrow> string \<Rightarrow> string" where
  "vector_line rm_byte line =
     (let parts = split_ws line;
          parts = (if length parts \<ge> 2 then butlast parts @ [fmt_hex 2 rm_byte, last parts] else parts)
      in join '' '' parts)"

definition testfloat_cmd :: "string \<Rightarrow> string \<Rightarrow> string list" where
  "testfloat_cmd op rm_flag = [''testfloat_gen'', ''-tininessafter'', rm_flag, ''-level'', ''1'', op]"

definition vector_path :: "string \<Rightarrow> string \<Rightarrow> string \<Rightarrow> string" where
  "vector_path out_dir op rm_name = path_join out_dir (op @ ''_'' @ rm_name @ ''.txt'')"

definition run_op :: "exec \<Rightarrow> string \<Rightarrow> string \<Rightarrow> string \<times> string \<times> int \<Rightarrow> unit io" where
  "run_op exec out_dir op = (\<lambda>(rm_name, rm_flag, rm_byte).
     bindI (check_outputI exec (testfloat_cmd op rm_flag)) (\<lambda>out'.
     (let ls = map (vector_line rm_byte) (splitlines out') in
      bindI (writeI (vector_path out_dir op rm_name) (join [CHR 0x0A] ls @ [CHR 0x0A])) (\<lambda>_.
      printI [''  wrote '' @ op @ ''_'' @ rm_name @ ''.txt  ('' @ str_int (int (length ls)) @ '' lines)'']))))"

definition testfloat_ops :: "string list" where
  "testfloat_ops = OPS_2OP_S @ OPS_2OP_D @ OPS_3OP_S @ OPS_3OP_D @ CVT_OPS"

definition testfloat_main :: "exec \<Rightarrow> string \<Rightarrow> unit io" where
  "testfloat_main exec out_dir = eachI (\<lambda>op. eachI (run_op exec out_dir op) RMS) testfloat_ops"

section \<open>The files written\<close>

lemma join_words: "list_all (\<lambda>w. w \<noteq> [] \<and> no_space w) ws \<Longrightarrow> split_ws (join '' '' ws) = ws"
proof (induction ws)
  case (Cons w ws)
  show ?case
  proof (cases "ws = []")
    case True
    with Cons.prems split_ws_word [of w "[]"] show ?thesis by simp
  next
    case False
    with Cons split_ws_word [of w "'' '' @ join '' '' ws"] show ?thesis by (simp add: join_Cons)
  qed
qed simp

text \<open>The fields of a line with the rounding mode before the last one.\<close>

definition with_mode :: "int \<Rightarrow> string list \<Rightarrow> string list" where
  "with_mode rm cells = (if length cells < 2 then cells else butlast cells @ [fmt_hex 2 rm, last cells])"

definition vector_text :: "int \<Rightarrow> string \<Rightarrow> string" where
  "vector_text rm out' = join [CHR 0x0A] (map (vector_line rm) (splitlines out')) @ [CHR 0x0A]"

lemma run_op_reads:
  assumes "only_reads exec gen"
  shows "\<exists>out'. run_op exec d op (nm, flag, rm) w = (Inr (), w\<lparr>w_files := (w_files w)(vector_path d op nm \<mapsto>
    vector_text rm (gen (testfloat_cmd op flag))), w_out := out'\<rparr>)"
  unfolding run_op_def prod.case check_output_reads [OF assms] Let_def bindI_write printI_def vector_text_def by blast

text \<open>All the files of a run: the path of each operation and mode with its text, later writes winning.\<close>

definition vector_jobs :: "string list \<Rightarrow> (string \<times> string \<times> string \<times> int) list" where
  "vector_jobs ops = concat (map (\<lambda>op. map (\<lambda>m. (op, m)) RMS) ops)"

definition write_job :: "(string list \<Rightarrow> string) \<Rightarrow> string \<Rightarrow> files \<Rightarrow> string \<times> string \<times> string \<times> int \<Rightarrow> files" where
  "write_job gen d fs = (\<lambda>(op, nm, flag, rm). fs(vector_path d op nm \<mapsto> vector_text rm (gen (testfloat_cmd op flag))))"

lemma run_ops_reads:
  assumes "only_reads exec gen"
  shows "\<exists>out'. eachI (run_op exec d op) ms w = (Inr (), w\<lparr>w_files := foldl (write_job gen d) (w_files w) (map (\<lambda>m. (op, m)) ms), w_out := out'\<rparr>)"
proof (induction ms arbitrary: w)
  case Nil
  show ?case by (intro exI [of _ "w_out w"]) (simp add: retI_def)
next
  case (Cons m ms)
  obtain nm flag rm where m: "m = (nm, flag, rm)" by (rule prod_cases3)
  from run_op_reads [OF assms, of d op nm flag rm w] obtain o1 where r: "run_op exec d op m w = (Inr (),
      w\<lparr>w_files := write_job gen d (w_files w) (op, m), w_out := o1\<rparr>)"
    unfolding m write_job_def prod.case by blast
  from Cons.IH [of "w\<lparr>w_files := write_job gen d (w_files w) (op, m), w_out := o1\<rparr>"] show ?case
    by (simp add: bindI_done [of "run_op exec d op m" w, OF r])
qed

lemma testfloat_reads:
  assumes "only_reads exec gen"
  shows "\<exists>out'. eachI (\<lambda>op. eachI (run_op exec d op) RMS) ops w
    = (Inr (), w\<lparr>w_files := foldl (write_job gen d) (w_files w) (vector_jobs ops), w_out := out'\<rparr>)"
proof (induction ops arbitrary: w)
  case Nil
  show ?case by (intro exI [of _ "w_out w"]) (simp add: retI_def vector_jobs_def)
next
  case (Cons op ops)
  let ?fs = "foldl (write_job gen d) (w_files w) (map (\<lambda>m. (op, m)) RMS)"
  from run_ops_reads [OF assms, of d op RMS w] obtain o1 where r: "eachI (run_op exec d op) RMS w = (Inr (), w\<lparr>w_files := ?fs, w_out := o1\<rparr>)"
    by blast
  have jobs: "vector_jobs (op # ops) = map (\<lambda>m. (op, m)) RMS @ vector_jobs ops" by (simp add: vector_jobs_def)
  have "eachI (\<lambda>op. eachI (run_op exec d op) RMS) (op # ops) w
      = eachI (\<lambda>op. eachI (run_op exec d op) RMS) ops (w\<lparr>w_files := ?fs, w_out := o1\<rparr>)"
    by (simp add: bindI_done [of "eachI (run_op exec d op) RMS" w, OF r])
  with Cons.IH [of "w\<lparr>w_files := ?fs, w_out := o1\<rparr>"] show ?case by (simp add: jobs)
qed


lemma vector_path_inj: "vector_path d op nm = vector_path d op' nm' \<Longrightarrow> length nm = length nm' \<Longrightarrow> op = op' \<and> nm = nm'"
  by (auto simp: vector_path_def path_join_def split: if_splits)

lemma RMS_names: "(nm, flag, rm) \<in> set RMS \<Longrightarrow> length nm = 3 \<and> 0 \<le> rm"
  by (auto simp: RMS_def)

lemma RMS_functional: "(nm, flag, rm) \<in> set RMS \<Longrightarrow> (nm, flag', rm') \<in> set RMS \<Longrightarrow> flag' = flag \<and> rm' = rm"
  by (auto simp: RMS_def)

lemma foldl_update_other:
  "p \<notin> key ` set js \<Longrightarrow> foldl (\<lambda>fs j. fs(key j \<mapsto> val j)) fs js p = fs p"
  by (induction js arbitrary: fs) auto

lemma foldl_update_Some:
  "\<forall>a \<in> set js. key a = key j \<longrightarrow> val a = val j \<Longrightarrow> j \<in> set js \<Longrightarrow>
   foldl (\<lambda>fs j. fs(key j \<mapsto> val j)) fs js (key j) = Some (val j)"
proof (induction js arbitrary: fs j)
  case (Cons a js)
  show ?case
  proof (cases "\<exists>b \<in> set js. key b = key j")
    case True
    then obtain b where b: "b \<in> set js" "key b = key j" by blast
    with Cons.prems(1) have same: "\<forall>a \<in> set js. key a = key b \<longrightarrow> val a = val b" and v: "val b = val j" by simp_all
    from Cons.IH [where j = b] same b(1) have "foldl (\<lambda>fs j. fs(key j \<mapsto> val j)) (fs(key a \<mapsto> val a)) js (key b) = Some (val b)"
      by blast
    then show ?thesis by (simp only: b(2) v foldl_Cons)
  next
    case False
    then have "key j \<notin> key ` set js" and a: "j = a" using Cons.prems(2) by (force, auto)
    have "foldl (\<lambda>fs j. fs(key j \<mapsto> val j)) (fs(key a \<mapsto> val a)) js (key j) = (fs(key a \<mapsto> val a)) (key j)"
      by (rule foldl_update_other) fact
    also have "... = Some (val j)" unfolding a by simp
    finally show ?thesis by (simp only: foldl_Cons)
  qed
qed simp

definition testfloat_files :: "string \<Rightarrow> string set" where
  "testfloat_files d = {vector_path d op nm | op nm flag rm. op \<in> set testfloat_ops \<and> (nm, flag, rm) \<in> set RMS}"

definition job_path :: "string \<Rightarrow> string \<times> string \<times> string \<times> int \<Rightarrow> string" where
  "job_path d = (\<lambda>(op, nm, flag, rm). vector_path d op nm)"

definition job_text :: "(string list \<Rightarrow> string) \<Rightarrow> string \<times> string \<times> string \<times> int \<Rightarrow> string" where
  "job_text gen = (\<lambda>(op, nm, flag, rm). vector_text rm (gen (testfloat_cmd op flag)))"

lemma write_jobs: "write_job gen d = (\<lambda>fs j. fs(job_path d j \<mapsto> job_text gen j))"
  by (auto simp: fun_eq_iff write_job_def job_path_def job_text_def)

lemma vector_jobs_set: "set (vector_jobs ops) = {(op, m). op \<in> set ops \<and> m \<in> set RMS}"
  by (auto simp: vector_jobs_def)

lemma jobs_file:
  assumes "op \<in> set ops" and "(nm, flag, rm) \<in> set RMS"
  shows "foldl (write_job gen d) fs (vector_jobs ops) (vector_path d op nm)
    = Some (vector_text rm (gen (testfloat_cmd op flag)))"
proof -
  let ?j = "(op, nm, flag, rm)"
  have "\<forall>a \<in> set (vector_jobs ops). job_path d a = job_path d ?j \<longrightarrow> job_text gen a = job_text gen ?j"
  proof (intro ballI impI)
    fix a assume a: "a \<in> set (vector_jobs ops)" "job_path d a = job_path d ?j"
    obtain op' nm' flag' rm' where e: "a = (op', nm', flag', rm')" by (rule prod_cases4)
    with a have m: "(nm', flag', rm') \<in> set RMS" by (simp add: vector_jobs_set)
    have "op' = op \<and> nm' = nm" using a(2) RMS_names [OF m] RMS_names [OF assms(2)]
      by (intro vector_path_inj [of d]) (simp_all add: e job_path_def)
    with m RMS_functional [OF assms(2)] have "a = ?j" unfolding e by blast
    then show "job_text gen a = job_text gen ?j" by simp
  qed
  from foldl_update_Some [OF this, of fs] assms show ?thesis
    by (simp add: vector_jobs_set write_jobs) (simp add: job_path_def job_text_def)
qed

lemma jobs_other:
  assumes "p \<notin> testfloat_files d"
  shows "foldl (write_job gen d) fs (vector_jobs testfloat_ops) p = fs p"
  unfolding write_jobs using assms
  by (intro foldl_update_other) (auto simp: testfloat_files_def vector_jobs_set job_path_def)

lemma join_unbroken: "list_all no_space ws \<Longrightarrow> list_all (\<lambda>c. \<not> line_break c) (join '' '' ws)"
proof (induction ws)
  case (Cons w ws)
  from Cons.prems have "list_all (\<lambda>c. \<not> line_break c) w"
    by (auto simp: no_space_def list_all_iff dest: line_break_space)
  moreover have "\<not> line_break CHR '' ''" by (simp add: line_break_def)
  ultimately show ?case using Cons by (cases "ws = []") (simp_all add: join_Cons)
qed simp

lemma mode_digits:
  assumes "0 \<le> rm"
  shows "no_space (fmt_hex 2 rm)" and "fmt_hex 2 rm \<noteq> []"
proof -
  have "list_all is_hex (fmt_hex 2 rm)" by (rule fmt_hex_all_hex [OF assms])
  then show "no_space (fmt_hex 2 rm)" by (auto simp: no_space_def list_all_iff hex_not_space)
  show "fmt_hex 2 rm \<noteq> []" using assms by (auto simp: fmt_hex_def zero_pad_def)
qed

lemma vector_line_words:
  assumes "0 \<le> rm"
  shows "list_all (\<lambda>w. w \<noteq> [] \<and> no_space w) (with_mode rm (split_ws line))"
    and "vector_line rm line = join '' '' (with_mode rm (split_ws line))"
proof -
  have "w \<in> set (split_ws line) \<Longrightarrow> w \<noteq> [] \<and> no_space w" for w by (rule split_ws_words)
  with mode_digits [OF assms] show "list_all (\<lambda>w. w \<noteq> [] \<and> no_space w) (with_mode rm (split_ws line))"
    by (cases "split_ws line = []") (auto simp: with_mode_def list_all_iff dest: in_set_butlastD)
  show "vector_line rm line = join '' '' (with_mode rm (split_ws line))"
    by (simp add: vector_line_def with_mode_def Let_def not_less)
qed

lemma join_lines: "ls \<noteq> [] \<Longrightarrow> join [CHR 0x0A] ls @ [CHR 0x0A] = unlines ls"
proof (induction ls)
  case (Cons l ls)
  then show ?case by (cases "ls = []") (simp_all add: join_Cons unlines_def)
qed simp

lemma vector_text_fields:
  assumes "0 \<le> rm"
  shows "map split_ws (splitlines (vector_text rm out')) =
    (if splitlines out' = [] then [[]] else map (\<lambda>l. with_mode rm (split_ws l)) (splitlines out'))"
proof (cases "splitlines out' = []")
  case True
  have "vector_text rm out' = unlines [[]]" by (simp add: vector_text_def True unlines_def)
  then show ?thesis using splitlines_unlines [of "[[]]"] True by simp
next
  case False
  let ?ls = "map (vector_line rm) (splitlines out')"
  have one: "list_all (\<lambda>c. \<not> line_break c) (vector_line rm l) \<and> split_ws (vector_line rm l) = with_mode rm (split_ws l)" for l
    using vector_line_words [OF assms, of l] join_words [of "with_mode rm (split_ws l)"]
      join_unbroken [of "with_mode rm (split_ws l)"] by (simp add: list_all_iff)
  have "splitlines (unlines ?ls) = ?ls" by (rule splitlines_unlines) (simp add: one list_all_iff [of _ "map _ _"])
  moreover have "vector_text rm out' = unlines ?ls" using join_lines [of ?ls] False by (simp add: vector_text_def)
  ultimately show ?thesis using False one by simp
qed

lemma testfloat_written:
  assumes "only_reads exec gen"
  shows "\<exists>w'. testfloat_main exec d w = (Inr (), w') \<and>
    (\<forall>op \<in> set testfloat_ops. \<forall>(nm, flag, rm) \<in> set RMS. \<exists>t. w_files w' (vector_path d op nm) = Some t \<and>
       map split_ws (splitlines t) = (let ls = splitlines (gen (testfloat_cmd op flag)) in
         if ls = [] then [[]] else map (\<lambda>l. with_mode rm (split_ws l)) ls)) \<and>
    (\<forall>p. p \<notin> testfloat_files d \<longrightarrow> w_files w' p = w_files w p)"
proof -
  let ?fs = "foldl (write_job gen d) (w_files w) (vector_jobs testfloat_ops)"
  from testfloat_reads [OF assms, of d testfloat_ops w] obtain out'
    where run: "testfloat_main exec d w = (Inr (), w\<lparr>w_files := ?fs, w_out := out'\<rparr>)"
    unfolding testfloat_main_def by blast
  moreover have "\<exists>t. ?fs (vector_path d op nm) = Some t \<and>
      map split_ws (splitlines t) = (let ls = splitlines (gen (testfloat_cmd op flag)) in
        if ls = [] then [[]] else map (\<lambda>l. with_mode rm (split_ws l)) ls)"
    if "op \<in> set testfloat_ops" and m: "(nm, flag, rm) \<in> set RMS" for op nm flag rm
    unfolding jobs_file [OF that] Let_def using vector_text_fields [of rm] RMS_names [OF m] by blast
  moreover have "p \<notin> testfloat_files d \<Longrightarrow> ?fs p = w_files w p" for p by (rule jobs_other)
  ultimately show ?thesis by (intro exI [of _ "w\<lparr>w_files := ?fs, w_out := out'\<rparr>"]) auto
qed

section \<open>Properties\<close>

text \<open>
  C38. The stimulus files of the floating point unit are complete and in the format of the test bench: with a
  generator that exits 0, a run ends with a file for each of the operations and rounding modes, later files do
  not overwrite earlier ones, the lines of a file are the generator's for that operation and mode with the mode's
  byte before the last field (a single blank line when the generator prints nothing), and no other file is touched.
\<close>

theorem testfloat_vectors:
  assumes "only_reads exec gen"
  shows "\<exists>w'. testfloat_main exec d w = (Inr (), w') \<and>
    (\<forall>op \<in> set testfloat_ops. \<forall>(nm, flag, rm) \<in> set RMS. \<exists>t. w_files w' (vector_path d op nm) = Some t \<and>
       map split_ws (splitlines t) = (let ls = splitlines (gen (testfloat_cmd op flag)) in
         if ls = [] then [[]] else map (\<lambda>l. with_mode rm (split_ws l)) ls)) \<and>
    (\<forall>p. p \<notin> testfloat_files d \<longrightarrow> w_files w' p = w_files w p)"
  using assms by (rule testfloat_written)

text \<open>A generator that prints one line, the same for every operation and mode.\<close>

theorem testfloat_vectors_witness:
  "\<exists>w' t. testfloat_main (\<lambda>cmd env limit fs. (Exited \<lparr>returncode = 0, stdout = ''1 2 3 0'', stderr = []\<rparr>, fs)) ''v''
       \<lparr>w_files = Map.empty, w_out = [], w_err = []\<rparr> = (Inr (), w') \<and>
     w_files w' ''v/f32_add_rup.txt'' = Some t \<and> map split_ws (splitlines t) = [[''1'', ''2'', ''3'', ''03'', ''0'']]"
proof -
  let ?exec = "\<lambda>cmd env limit fs. (Exited \<lparr>returncode = 0, stdout = ''1 2 3 0'', stderr = []\<rparr>, fs)"
  have "only_reads ?exec (\<lambda>cmd. ''1 2 3 0'')" by (simp add: only_reads_def)
  from testfloat_vectors [OF this, of "''v''" "\<lparr>w_files = Map.empty, w_out = [], w_err = []\<rparr>"] obtain w' where
    run: "testfloat_main ?exec ''v'' \<lparr>w_files = Map.empty, w_out = [], w_err = []\<rparr> = (Inr (), w')"
    and all: "\<forall>op \<in> set testfloat_ops. \<forall>(nm, flag, rm) \<in> set RMS. \<exists>t. w_files w' (vector_path ''v'' op nm) = Some t \<and>
       map split_ws (splitlines t) = (let ls = splitlines ''1 2 3 0'' in
         if ls = [] then [[]] else map (\<lambda>l. with_mode rm (split_ws l)) ls)" by blast
  have op: "''f32_add'' \<in> set testfloat_ops" by (simp add: testfloat_ops_def OPS_2OP_S_def)
  have m: "(''rup'', ''-rmax'', 3) \<in> set RMS" by (simp add: RMS_def)
  have text_of: "(let ls = splitlines ''1 2 3 0'' in if ls = [] then [[]] else map (\<lambda>l. with_mode 3 (split_ws l)) ls)
      = [[''1'', ''2'', ''3'', ''03'', ''0'']]" by code_simp
  have path: "vector_path ''v'' ''f32_add'' ''rup'' = ''v/f32_add_rup.txt''" by (simp add: vector_path_def path_join_def)
  from bspec [OF bspec [OF all op] m] obtain t where "w_files w' ''v/f32_add_rup.txt'' = Some t"
    and "map split_ws (splitlines t) = [[''1'', ''2'', ''3'', ''03'', ''0'']]" unfolding prod.case path text_of by (elim exE conjE)
  with run show ?thesis by (intro exI [of _ w'] exI [of _ t] conjI)
qed

end
