(* ===== verification/Py_Json.thy ===== *)
theory Py_Json
  imports Py_Number
begin

text \<open>
  Python's \<open>json.loads\<close>: the values, and a reader by recursive descent whose tasks are a value, the rest of
  an array and the rest of an object. A character beyond the first 256 (written with \<open>\u\<close>) becomes U+0080.
  Errors keep their message without its position.
\<close>

section \<open>Values\<close>

datatype json =
    JNull
  | JBool bool
  | JInt int
  | JFloat number
  | JStr string
  | JArr "json list"
  | JObj "(string \<times> json) list"

text \<open>\<open>d.get(k)\<close> of an object: of several members with one name the last counts.\<close>

definition obj_get :: "(string \<times> json) list \<Rightarrow> string \<Rightarrow> json option" where
  "obj_get ms k = map_of (rev ms) k"

text \<open>\<open>bool(x)\<close>.\<close>

fun json_truth :: "json \<Rightarrow> bool" where
  "json_truth JNull \<longleftrightarrow> False"
| "json_truth (JBool b) \<longleftrightarrow> b"
| "json_truth (JInt i) \<longleftrightarrow> i \<noteq> 0"
| "json_truth (JFloat x) \<longleftrightarrow> (case x of Finite _ m \<Rightarrow> m \<noteq> 0 | _ \<Rightarrow> True)"
| "json_truth (JStr s) \<longleftrightarrow> s \<noteq> []"
| "json_truth (JArr xs) \<longleftrightarrow> xs \<noteq> []"
| "json_truth (JObj ms) \<longleftrightarrow> ms \<noteq> []"

section \<open>Tokens\<close>

definition json_error :: "string \<Rightarrow> 'a result" where
  "json_error msg = Inl (JsonError msg)"

definition json_blank :: "char \<Rightarrow> bool" where
  "json_blank c \<longleftrightarrow> c = CHR '' '' \<or> c = CHR 0x09 \<or> c = CHR 0x0A \<or> c = CHR 0x0D"

definition skip_blank :: "string \<Rightarrow> string" where
  "skip_blank s = dropWhile json_blank s"

definition simple_escape :: "char \<Rightarrow> char option" where
  "simple_escape c = map_of [(CHR 0x22, CHR 0x22), (CHR 0x5C, CHR 0x5C), (CHR ''/'', CHR ''/''), (CHR ''b'', CHR 0x08),
     (CHR ''f'', CHR 0x0C), (CHR ''n'', CHR 0x0A), (CHR ''r'', CHR 0x0D), (CHR ''t'', CHR 0x09)] c"

definition code_point :: "nat \<Rightarrow> char" where
  "code_point n = (if n < 256 then char_of n else CHR 0x80)"

text \<open>The rest of a string after its opening quote.\<close>

fun json_string :: "string \<Rightarrow> string \<Rightarrow> (string \<times> string) result" where
  "json_string acc [] = json_error ''Unterminated string starting at''"
| "json_string acc (c # cs) =
     (if c = CHR 0x22 then Inr (acc, cs)
      else if c = CHR 0x5C then (case cs of
          [] \<Rightarrow> json_error ''Unterminated string starting at''
        | e # ds \<Rightarrow>
            if e = CHR ''u'' then
              (if 4 \<le> length ds \<and> list_all is_hex (take 4 ds)
               then json_string (acc @ [code_point (hex_value (take 4 ds))]) (drop 4 ds)
               else json_error (''Invalid '' @ CHR 0x5C # ''uXXXX escape''))
            else (case simple_escape e of
                Some x \<Rightarrow> json_string (acc @ [x]) ds
              | None \<Rightarrow> json_error (''Invalid '' @ CHR 0x5C # ''escape'')))
      else if of_char c < (32 :: nat) then json_error ''Invalid control character at''
      else json_string (acc @ [c]) cs)"

text \<open>The number at the front: an integer without leading zeros, then a fraction and an exponent if they are complete.\<close>

definition span_digits :: "string \<Rightarrow> string \<times> string" where
  "span_digits s = (takeWhile is_digit s, dropWhile is_digit s)"

definition json_int :: "string \<Rightarrow> (string \<times> string) option" where
  "json_int s = (case s of [] \<Rightarrow> None
     | c # cs \<Rightarrow> if c = CHR ''0'' then Some (''0'', cs)
         else if is_digit c then Some (span_digits s) else None)"

definition json_frac :: "string \<Rightarrow> string \<times> string" where
  "json_frac s = (case s of [] \<Rightarrow> ([], s)
     | c # cs \<Rightarrow> if c = CHR ''.'' \<and> cs \<noteq> [] \<and> is_digit (hd cs)
         then (CHR ''.'' # fst (span_digits cs), snd (span_digits cs)) else ([], s))"

definition json_exp :: "string \<Rightarrow> string \<times> string" where
  "json_exp s = (case s of [] \<Rightarrow> ([], s)
     | c # cs \<Rightarrow>
         (let sign = (if cs \<noteq> [] \<and> (hd cs = CHR ''+'' \<or> hd cs = CHR ''-'') then [hd cs] else []);
              ds = drop (length sign) cs
          in if (c = CHR ''e'' \<or> c = CHR ''E'') \<and> ds \<noteq> [] \<and> is_digit (hd ds)
             then (c # sign @ fst (span_digits ds), snd (span_digits ds)) else ([], s)))"

definition json_number :: "string \<Rightarrow> (json \<times> string) option" where
  "json_number s =
     (let negative = (s \<noteq> [] \<and> hd s = CHR ''-''); t = (if negative then tl s else s) in
      case json_int t of
        None \<Rightarrow> None
      | Some (whole, u) \<Rightarrow>
          (let (frac, v) = json_frac u; (ex, r) = json_exp v in
           if frac = [] \<and> ex = []
           then Some (JInt ((if negative then -1 else 1) * int (dec_value whole)), r)
           else map_option (\<lambda>x. (JFloat x, r)) (decimal negative (whole @ frac @ ex))))"

text \<open>The constants, in the order they are tried.\<close>

definition json_constants :: "(string \<times> json) list" where
  "json_constants = [(''null'', JNull), (''true'', JBool True), (''false'', JBool False), (''NaN'', JFloat NaN),
     (''Infinity'', JFloat (Infinite False)), (''-Infinity'', JFloat (Infinite True))]"

definition json_atom :: "string \<Rightarrow> (json \<times> string) result" where
  "json_atom s = (case find (\<lambda>(w, v). starts_with w s) json_constants of
      Some (w, v) \<Rightarrow> Inr (v, drop (length w) s)
    | None \<Rightarrow> (case json_number s of Some p \<Rightarrow> Inr p | None \<Rightarrow> json_error ''Expecting value''))"

section \<open>The reader\<close>

datatype task = Value | Items "json list" | Members "(string \<times> json) list"

definition no_name :: "(json \<times> string) result" where
  "no_name = json_error ''Expecting property name enclosed in double quotes''"

definition no_comma :: "(json \<times> string) result" where
  "no_comma = json_error (''Expecting '' @ [CHR 0x27] @ '','' @ [CHR 0x27] @ '' delimiter'')"

function (domintros) json_at :: "task \<Rightarrow> string \<Rightarrow> (json \<times> string) result" where
  "json_at Value s = (case s of
      [] \<Rightarrow> json_atom s
    | c # cs \<Rightarrow>
        if c = CHR 0x22 then bindR (json_string [] cs) (\<lambda>(x, r). Inr (JStr x, r))
        else if c = CHR ''{'' then
          (case skip_blank cs of [] \<Rightarrow> no_name
           | d # ds \<Rightarrow> if d = CHR ''}'' then Inr (JObj [], ds) else json_at (Members []) (d # ds))
        else if c = CHR ''['' then
          (case skip_blank cs of [] \<Rightarrow> json_error ''Expecting value''
           | d # ds \<Rightarrow> if d = CHR '']'' then Inr (JArr [], ds) else json_at (Items []) (d # ds))
        else json_atom s)"
| "json_at (Items acc) s =
     bindR (json_at Value s) (\<lambda>(v, r). case skip_blank r of
        [] \<Rightarrow> no_comma
      | d # ds \<Rightarrow>
          if d = CHR '']'' then Inr (JArr (acc @ [v]), ds)
          else if d = CHR '','' then json_at (Items (acc @ [v])) (skip_blank ds)
          else no_comma)"
| "json_at (Members acc) s = (case s of
      [] \<Rightarrow> no_name
    | c # cs \<Rightarrow>
        if c \<noteq> CHR 0x22 then no_name
        else bindR (json_string [] cs) (\<lambda>(k, r). case skip_blank r of
            [] \<Rightarrow> json_error (''Expecting '' @ [CHR 0x27] @ '':'' @ [CHR 0x27] @ '' delimiter'')
          | d # ds \<Rightarrow>
              if d \<noteq> CHR '':'' then json_error (''Expecting '' @ [CHR 0x27] @ '':'' @ [CHR 0x27] @ '' delimiter'')
              else bindR (json_at Value (skip_blank ds)) (\<lambda>(v, r'). case skip_blank r' of
                  [] \<Rightarrow> no_comma
                | e # es \<Rightarrow>
                    if e = CHR ''}'' then Inr (JObj (acc @ [(k, v)]), es)
                    else if e = CHR '','' then json_at (Members (acc @ [(k, v)])) (skip_blank es)
                    else no_comma)))"
  by pat_completeness auto

section \<open>Termination\<close>

lemma skip_blank_length: "length (skip_blank s) \<le> length s"
  by (simp add: skip_blank_def length_dropWhile_le)

lemma skip_blank_Cons: "skip_blank s = c # cs \<Longrightarrow> length cs < length s"
  using skip_blank_length [of s] by simp

lemma json_string_shorter: "json_string acc s = Inr (x, r) \<Longrightarrow> length r < length s"
  by (induction acc s rule: json_string.induct)
    (force simp: json_error_def split: if_splits list.splits option.splits)+

lemma span_digits_length: "span_digits s = (u, v) \<Longrightarrow> length v \<le> length s"
  by (auto simp: span_digits_def length_dropWhile_le)

lemma json_int_shorter: "json_int s = Some (w, r) \<Longrightarrow> length r < length s"
  using span_digits_length
  by (auto simp: json_int_def span_digits_def le_imp_less_Suc length_dropWhile_le split: list.splits if_splits)

lemma json_frac_length: "json_frac s = (w, r) \<Longrightarrow> length r \<le> length s"
  by (auto simp: json_frac_def span_digits_def le_SucI length_dropWhile_le split: list.splits if_splits)

lemma json_exp_length: "json_exp s = (w, r) \<Longrightarrow> length r \<le> length s"
  by (auto simp: json_exp_def span_digits_def Let_def le_SucI split: list.splits if_splits
      intro: order_trans [OF length_dropWhile_le])

lemma json_number_shorter: "json_number s = Some (v, r) \<Longrightarrow> length r < length s"
  by (force simp: json_number_def Let_def split: option.splits prod.splits if_splits
      dest: json_int_shorter json_frac_length json_exp_length)

lemma starts_with_drop: "starts_with w s \<Longrightarrow> w \<noteq> [] \<Longrightarrow> length (drop (length w) s) < length s"
  by (auto simp: starts_with_def) (metis diff_less length_greater_0_conv take_eq_Nil)

lemma json_atom_shorter:
  assumes "json_atom s = Inr (v, r)"
  shows "length r < length s"
proof (cases "find (\<lambda>(w, v). starts_with w s) json_constants")
  case None
  with assms json_number_shorter show ?thesis by (auto simp: json_atom_def json_error_def split: option.splits)
next
  case (Some p)
  then have p: "p \<in> set json_constants" "starts_with (fst p) s" by (auto simp: find_Some_iff) (metis nth_mem)
  then have "fst p \<noteq> []" by (auto simp: json_constants_def)
  moreover have "r = drop (length (fst p)) s" using assms Some by (simp add: json_atom_def split: prod.splits)
  ultimately show ?thesis using p(2) starts_with_drop by blast
qed

lemma json_at_shorter: "json_at_dom (t, s) \<Longrightarrow> json_at t s = Inr (v, r) \<Longrightarrow> length r < length s"
proof (induction t s arbitrary: v r rule: json_at.pinduct)
  case (1 s)
  note res = 1(4) [unfolded json_at.psimps(1) [OF 1(1)]]
  show ?case
  proof (cases s)
    case Nil
    with res show ?thesis by (auto dest: json_atom_shorter)
  next
    case (Cons c cs)
    consider (str) "c = CHR 0x22" | (obj) "c = CHR ''{''" | (arr) "c = CHR ''[''"
      | (atom) "c \<noteq> CHR 0x22" "c \<noteq> CHR ''{''" "c \<noteq> CHR ''[''" by blast
    then show ?thesis
    proof cases
      case str
      with res Cons show ?thesis by (auto simp: result_iff dest: json_string_shorter)
    next
      case obj
      with res Cons obtain d ds where d: "skip_blank cs = d # ds" by (auto simp: no_name_def json_error_def split: list.splits)
      with obj res Cons 1(2) [OF Cons _ obj d] skip_blank_length [of cs] show ?thesis by (auto split: if_splits)
    next
      case arr
      with res Cons obtain d ds where d: "skip_blank cs = d # ds" by (auto simp: json_error_def split: list.splits)
      with arr res Cons 1(3) [OF Cons _ _ arr d] skip_blank_length [of cs] show ?thesis by (auto split: if_splits)
    next
      case atom
      with res Cons show ?thesis by (auto dest: json_atom_shorter)
    qed
  qed
next
  case (2 acc s)
  note res = 2(4) [unfolded json_at.psimps(2) [OF 2(1)]]
  from res obtain v' r' where v: "json_at Value s = Inr (v', r')" by (auto simp: result_iff)
  then have less: "length r' < length s" by (rule 2(2))
  from res v obtain d ds where d: "skip_blank r' = d # ds" by (auto simp: no_comma_def json_error_def split: list.splits)
  with res v 2(3) [OF v refl d] less skip_blank_length [of r'] skip_blank_length [of ds] show ?case
    by (auto simp: no_comma_def json_error_def split: if_splits)
next
  case (3 acc s)
  note res = 3(4) [unfolded json_at.psimps(3) [OF 3(1)]]
  from res obtain cs where s: "s = CHR 0x22 # cs" by (auto simp: no_name_def json_error_def split: list.splits if_splits)
  from res s obtain k q where k: "json_string [] cs = Inr (k, q)" by (auto simp: result_iff)
  from res s k obtain ds where d: "skip_blank q = CHR '':'' # ds"
    by (auto simp: json_error_def split: list.splits if_splits)
  from res s k d obtain v' r' where v: "json_at Value (skip_blank ds) = Inr (v', r')" by (auto simp: result_iff)
  from res s k d v obtain e es where e: "skip_blank r' = e # es" by (auto simp: no_comma_def json_error_def split: list.splits)
  have "length r' < length (skip_blank ds)" using 3(2) [OF s _ k refl d _ v] by simp
  moreover have "length q < length s" using json_string_shorter [OF k] s by simp
  ultimately have "length r' < length s" using skip_blank_length [of q] skip_blank_length [of ds] d by simp
  moreover have "length r < length (skip_blank es)" if "e \<noteq> CHR ''}''"
    using 3(3) [OF s _ k refl d _ v refl e that] res s k d v e that by (auto simp: no_comma_def json_error_def split: if_splits)
  ultimately show ?case using res s k d v e skip_blank_length [of r'] skip_blank_length [of es]
    by (auto split: if_splits)
qed

fun task_rank :: "task \<Rightarrow> nat" where
  "task_rank Value = 0"
| "task_rank _ = 1"

lemma skip_blank_twice: "skip_blank r = c # cs \<Longrightarrow> length (skip_blank cs) < length r \<and> length cs < length r"
  using skip_blank_Cons [of r c cs] skip_blank_length [of cs] by simp

termination json_at
  by (relation "inv_image (less_than <*lex*> less_than) (\<lambda>(t, s). (length s, task_rank t))")
    (auto dest!: json_at_shorter json_string_shorter skip_blank_twice)

text \<open>\<open>json.loads(s)\<close>.\<close>

definition json_loads :: "string \<Rightarrow> json result" where
  "json_loads s = bindR (json_at Value (skip_blank s)) (\<lambda>(v, r). if skip_blank r = [] then Inr v else json_error ''Extra data'')"

end
