(* ===== verification/Docs_Lint.thy ===== *)
theory Docs_Lint
  imports Py_Json Py_Regex
begin

text \<open>
  \<open>tools/docs_lint.py\<close>: every diagram of the documentation declares the stage it depicts, and a diagram of
  an older stage than the active one has an era caption. Paths are relative to the repository. The parameter
  \<open>glob\<close> lists the files of a directory with a suffix, in the order of the file system.
\<close>

type_synonym glob = "string \<Rightarrow> string \<Rightarrow> string list"

definition STAGE_RX :: rx where
  "STAGE_RX = Seq (lit ''stage'') (Grp 1 digits)"

text \<open>The argument is what \<open>get\<close> returned; every value that is false stands for the empty string.\<close>

definition stage_num :: "json option \<Rightarrow> int option result" where
  "stage_num s = (case s of
      None \<Rightarrow> Inr None
    | Some v \<Rightarrow> if \<not> json_truth v then Inr None else (case v of
          JStr t \<Rightarrow> (case re_match STAGE_RX t of
              Some m \<Rightarrow> bindR (py_int (group m 1)) (\<lambda>n. Inr (Some n))
            | None \<Rightarrow> Inr None)
        | _ \<Rightarrow> Inl (TypeError ''expected string or bytes-like object'')))"

definition ROWS_RX :: rx where
  "ROWS_RX = seqs [BolM, chr CHR 0x7C, spaces, Grp 1 digits,
     opt (Cls (\<lambda>c. CHR ''a'' \<le> c \<and> c \<le> CHR ''z'')), spaces, chr CHR 0x7C, Star (Cls (\<lambda>c. c \<noteq> CHR 0x0A)), chr CHR 0x7C, spaces,
     Grp 2 (Alt (lit ''In progress'') (Seq (lit ''Complete'') (Star (Cls (\<lambda>c. c \<noteq> CHR 0x7C))))), spaces, chr CHR 0x7C]"

definition active_stage :: "string \<Rightarrow> int result" where
  "active_stage readme = bindR (mapR (\<lambda>m. py_int (group m 1)) (re_finditer ROWS_RX readme))
     (\<lambda>ns. if ns = [] then Inl (ValueError ''max() arg is an empty sequence'') else Inr (Max (set ns)))"

text \<open>\<open>stage_num(json.loads(p.read_text()).get("depicts"))\<close>.\<close>

definition diagram_stage :: "files \<Rightarrow> string \<Rightarrow> int option result" where
  "diagram_stage fs p = bindR (read_text fs p) (\<lambda>s. bindR (json_loads s) (\<lambda>d. case d of
      JObj ms \<Rightarrow> stage_num (obj_get ms ''depicts'')
    | _ \<Rightarrow> Inl (AttributeError ''object has no attribute get'')))"

definition check_diagram :: "files \<Rightarrow> string \<Rightarrow> string list result" where
  "check_diagram fs j = bindR (diagram_stage fs j) (\<lambda>n. Inr (if n = None
     then [j @ '': missing \"depicts\": \"stage<N>\"''] else []))"

definition DEPICTS_RX :: rx where
  "DEPICTS_RX = seqs [lit ''%%'', spaces, lit ''depicts:'', spaces, Grp 1 (seqs [lit ''stage'', digits, Star (Cls is_word_char)])]"

definition SVG_RX :: rx where
  "SVG_RX = seqs [chr CHR ''('', opt (Grp 1 (lit ''docs/'')), lit ''diagrams/svg/'',
     Grp 2 (plus_rx (Cls (\<lambda>c. is_word_char c \<or> c = CHR ''-''))), lit ''.svg'', chr CHR '')'']"

text \<open>Lines \<open>a\<close> to \<open>b\<close> mention an era.\<close>

definition captioned :: "string list \<Rightarrow> nat \<Rightarrow> nat \<Rightarrow> bool" where
  "captioned ls a b \<longleftrightarrow> contains ''(era: stage'' (join [CHR 0x0A] (take (b - a) (drop a ls)))"

definition doc_line :: "string \<Rightarrow> nat \<Rightarrow> string" where
  "doc_line md i = md @ '':'' @ str_int (int i + 1)"

definition is_fence :: "string \<Rightarrow> bool" where
  "is_fence line \<longleftrightarrow> starts_with ''```mermaid'' (strip line)"

definition is_older :: "int option \<Rightarrow> int \<Rightarrow> bool" where
  "is_older n active \<longleftrightarrow> (case n of Some k \<Rightarrow> k < active | None \<Rightarrow> False)"

text \<open>A mermaid block opened at line \<open>i\<close>: \<open>None\<close> when the loop goes on to the next line at once.\<close>

definition check_mermaid :: "int \<Rightarrow> string \<Rightarrow> string list \<Rightarrow> nat \<Rightarrow> (bool \<times> string list) result" where
  "check_mermaid active md ls i =
     (let nxt = (if i + 1 < length ls then strip (ls ! (i + 1)) else []) in
      case re_match DEPICTS_RX nxt of
        None \<Rightarrow> Inr (True, [doc_line md i @ '': mermaid block missing '' @ [CHR 0x27] @ ''%% depicts: stage<N>'' @ [CHR 0x27]])
      | Some m \<Rightarrow> bindR (stage_num (Some (JStr (group m 1)))) (\<lambda>n. Inr (False,
          if is_older n active \<and> \<not> captioned ls (i - 3) i
          then [doc_line md i @ '': depicts stage'' @ str_int (the n) @ '' < active stage'' @ str_int active
                 @ '' without an '' @ [CHR 0x27] @ ''(era: stage'' @ str_int (the n) @ '')'' @ [CHR 0x27] @ '' caption''] else [])))"

definition check_svg :: "files \<Rightarrow> int \<Rightarrow> string \<Rightarrow> string list \<Rightarrow> nat \<Rightarrow> string list result" where
  "check_svg fs active md ls i =
     (let line = ls ! i in
      if \<not> (contains ''.svg'' line \<and> contains ''diagrams'' line) then Inr []
      else case re_search SVG_RX line of
          None \<Rightarrow> Inr []
        | Some m \<Rightarrow> (let src = ''docs/diagrams/src/'' @ group m 2 @ ''.json'' in
            if fs src = None then Inr []
            else bindR (diagram_stage fs src) (\<lambda>n. Inr (if is_older n active \<and> \<not> captioned ls (i - 3) (i + 1)
              then [doc_line md i @ '': embeds stage'' @ str_int (the n) @ '' diagram without era caption''] else []))))"

definition lint_line :: "files \<Rightarrow> int \<Rightarrow> string \<Rightarrow> string list \<Rightarrow> nat \<Rightarrow> string list result" where
  "lint_line fs active md ls i =
     bindR (if is_fence (ls ! i) then check_mermaid active md ls i else Inr (False, [])) (\<lambda>(next_line, found).
     if next_line then Inr found
     else bindR (check_svg fs active md ls i) (\<lambda>more. Inr (found @ more)))"

definition check_page :: "files \<Rightarrow> int \<Rightarrow> string \<Rightarrow> string list result" where
  "check_page fs active md = bindR (read_text fs md) (\<lambda>s. let ls = splitlines s in
     bindR (mapR (lint_line fs active md ls) [0..<length ls]) (\<lambda>found. Inr (concat found)))"

definition docs_lint_main :: "glob \<Rightarrow> int io" where
  "docs_lint_main glob =
     bindI filesI (\<lambda>fs.
     bindI (liftI (read_text fs ''README.md'')) (\<lambda>readme.
     bindI (liftI (active_stage readme)) (\<lambda>active.
     bindI (liftI (mapR (check_diagram fs) (glob ''docs/diagrams/src'' ''.json''))) (\<lambda>diagrams.
     bindI (liftI (mapR (check_page fs active) (glob ''docs'' ''.md''))) (\<lambda>pages.
     let fail = concat diagrams @ concat pages in
     if fail \<noteq> [] then bindI (printI (''docs_lint: FAIL'' # map (\<lambda>f. ''  '' @ f) fail)) (\<lambda>_. retI 1)
     else bindI (printI [''docs_lint: OK (active stage '' @ str_int active @ '')'']) (\<lambda>_. retI 0))))))"

section \<open>The declared stage\<close>

definition declared :: "string \<Rightarrow> int option" where
  "declared nxt = (case re_match DEPICTS_RX nxt of
      None \<Rightarrow> None
    | Some m \<Rightarrow> (case stage_num (Some (JStr (group m 1))) of Inr n \<Rightarrow> n | Inl _ \<Rightarrow> None))"

lemma stage_num_text:
  assumes "ds \<noteq> []" and "list_all is_digit ds" and "t = [] \<or> \<not> is_digit (hd t)"
  shows "stage_num (Some (JStr (''stage'' @ ds @ t))) = Inr (Some (int (dec_value ds)))"
proof -
  have d: "first digits (rev ''stage'', ds @ t, []) = Some (rev ds @ rev ''stage'', t, [])"
    unfolding digits_def using assms by (intro first_plus_Cls)
  have "first STAGE_RX ([], (''stage'' @ ds) @ t, []) = Some (rev ds @ rev ''stage'', t, [(1, ds)])"
    unfolding STAGE_RX_def append_assoc
    by (rule first_Seq [OF first_lit [of "''stage''" "[]" "ds @ t" "[]"]]) (use first_Grp [OF d, of 1] in simp)
  from match_at_word [OF this]
  have "re_match STAGE_RX (''stage'' @ ds @ t) = Some \<lparr>m_text = ''stage'' @ ds, m_groups = [(1, ds)], m_rest = t\<rparr>"
    unfolding re_match_def append_assoc .
  then show ?thesis using assms(1,2) by (simp add: stage_num_def group_def digits_py_int)
qed

lemma digits_split:
  assumes "ds \<noteq> []" and "list_all is_digit ds" and "list_all is_word_char v"
  shows "\<exists>ds' t. ds @ v = ds' @ t \<and> ds' \<noteq> [] \<and> list_all is_digit ds' \<and> (t = [] \<or> \<not> is_digit (hd t))"
proof -
  from span_split [of v is_digit] obtain d2 t where "v = d2 @ t" "list_all is_digit d2" "t = [] \<or> \<not> is_digit (hd t)" by blast
  with assms show ?thesis by (intro exI [of _ "ds @ d2"] exI [of _ t]) simp
qed

text \<open>The group of a \<open>depicts\<close> line is always the name of a stage.\<close>

lemma depicts_stage:
  assumes "re_match DEPICTS_RX s = Some m"
  shows "\<exists>n. stage_num (Some (JStr (group m 1))) = Inr (Some n)"
proof -
  from match_at_run [OF assms [unfolded re_match_def]]
  obtain b' a' where r: "(b', a', m_groups m) \<in> set (run DEPICTS_RX ([], s, []))" by blast
  have "list_all flat_rx [lit ''%%'', spaces, lit ''depicts:'', spaces, Grp 1 (seqs [lit ''stage'', digits, Star (Cls is_word_char)])]"
    by (simp add: spaces_def digits_def plus_rx_def chr_def)
  from run_seq_groups [OF this r [unfolded DEPICTS_RX_def]] obtain w where
    w: "rx_word (seqs [lit ''stage'', digits, Star (Cls is_word_char)]) w" "m_groups m = [(1, w)]"
    by (auto simp: spaces_def chr_def)
  from w(1) obtain ds v where "w = ''stage'' @ ds @ v" "ds \<noteq> []" "list_all is_digit ds" "list_all is_word_char v"
    by (auto simp: digits_def)
  with digits_split [of ds v] stage_num_text w(2) show ?thesis by (metis group_def map_of_Cons_code(2) option.simps(5))
qed

text \<open>A line that declares a stage in the documented form, with a letter after the number or none.\<close>

lemma declared_tag:
  assumes "list_all is_space u" and "list_all is_space v" and "ds \<noteq> []" and "list_all is_digit ds"
    and "list_all is_word_char t" and "t = [] \<or> \<not> is_digit (hd t)" and "z = [] \<or> \<not> is_word_char (hd z)"
  shows "declared (''%%'' @ u @ ''depicts:'' @ v @ ''stage'' @ ds @ t @ z) = Some (int (dec_value ds))"
proof -
  let ?w = "''stage'' @ ds @ t" and ?name = "seqs [lit ''stage'', digits, Star (Cls is_word_char)]"
  have "t @ z = [] \<or> \<not> is_digit (hd (t @ z))" using assms(6,7) digit_is_hex hex_is_word by (cases t) auto
  then have dg: "first digits (rev ''stage'' @ b, ds @ t @ z, []) = Some (rev ds @ rev ''stage'' @ b, t @ z, [])" for b
    unfolding digits_def using assms(3,4) by (intro first_plus_Cls)
  have wd: "first (Star (Cls is_word_char)) (rev ds @ rev ''stage'' @ b, t @ z, []) = Some (rev t @ rev ds @ rev ''stage'' @ b, z, [])" for b
    using assms(5,7) by (rule first_Star_Cls)
  have "first ?name (b, ?w @ z, []) = Some (rev t @ rev ds @ rev ''stage'' @ b, z, [])" for b
    unfolding append_assoc by (rule first_seqs(2) [OF first_lit first_seqs(2) [OF dg first_seqs(2) [OF wd first_seqs(1)]]])
  from first_Grp [OF this, of 1] have g: "first (Grp 1 ?name) (b, ?w @ z, []) = Some (rev t @ rev ds @ rev ''stage'' @ b, z, [(1, ?w)])" for b .
  have sp: "first spaces (b, u @ ''depicts:'' @ v @ ?w @ z, []) = Some (rev u @ b, ''depicts:'' @ v @ ?w @ z, [])"
    "first spaces (b, v @ ?w @ z, []) = Some (rev v @ b, ?w @ z, [])" for b
    unfolding spaces_def using assms(1,2) by (intro first_Star_Cls; simp add: is_space_def)+
  have "\<exists>b'. first DEPICTS_RX ([], ''%%'' @ u @ ''depicts:'' @ v @ ?w @ z, []) = Some (b', z, [(1, ?w)])"
    unfolding DEPICTS_RX_def 
    by (rule exI, rule first_seqs(2) [OF first_lit first_seqs(2) [OF sp(1) first_seqs(2) [OF first_lit
      first_seqs(2) [OF sp(2) first_seqs(2) [OF g first_seqs(1)]]]]])
  then obtain b' where "first DEPICTS_RX ([], (''%%'' @ u @ ''depicts:'' @ v @ ?w) @ z, []) = Some (b', z, [(1, ?w)])"
    by auto
  from match_at_word [OF this] have "re_match DEPICTS_RX (''%%'' @ u @ ''depicts:'' @ v @ ''stage'' @ ds @ t @ z)
      = Some \<lparr>m_text = ''%%'' @ u @ ''depicts:'' @ v @ ?w, m_groups = [(1, ?w)], m_rest = z\<rparr>"
    unfolding re_match_def append_assoc .
  then show ?thesis using stage_num_text [OF assms(3,4,6)] unfolding declared_def by (simp add: group_def)
qed

section \<open>The verdict\<close>

definition next_line :: "string list \<Rightarrow> nat \<Rightarrow> string" where
  "next_line ls i = (if i + 1 < length ls then strip (ls ! (i + 1)) else [])"

definition embeds :: "string \<Rightarrow> string option" where
  "embeds line = (if contains ''.svg'' line \<and> contains ''diagrams'' line
     then map_option (\<lambda>m. ''docs/diagrams/src/'' @ group m 2 @ ''.json'') (re_search SVG_RX line) else None)"

text \<open>
  What the check demands of a page: a block declares its stage, and a block or an embedded diagram of an older
  stage has a caption in the three lines above it (or in its own line, for a diagram).
\<close>

definition page_ok :: "files \<Rightarrow> int \<Rightarrow> string list \<Rightarrow> bool" where
  "page_ok fs active ls \<longleftrightarrow> (\<forall>i < length ls.
     (is_fence (ls ! i) \<longrightarrow> (\<exists>n. declared (next_line ls i) = Some n \<and> (n < active \<longrightarrow> captioned ls (i - 3) i))) \<and>
     (\<forall>src n. embeds (ls ! i) = Some src \<longrightarrow> fs src \<noteq> None \<longrightarrow> diagram_stage fs src = Inr (Some n) \<longrightarrow> n < active \<longrightarrow>
        captioned ls (i - 3) (i + 1)))"

definition mermaid_ok :: "int \<Rightarrow> string list \<Rightarrow> nat \<Rightarrow> bool" where
  "mermaid_ok active ls i \<longleftrightarrow> (\<exists>n. declared (next_line ls i) = Some n \<and> (n < active \<longrightarrow> captioned ls (i - 3) i))"

definition svg_ok :: "files \<Rightarrow> int \<Rightarrow> string list \<Rightarrow> nat \<Rightarrow> bool" where
  "svg_ok fs active ls i \<longleftrightarrow> (\<forall>src n. embeds (ls ! i) = Some src \<longrightarrow> fs src \<noteq> None \<longrightarrow> diagram_stage fs src = Inr (Some n) \<longrightarrow>
     n < active \<longrightarrow> captioned ls (i - 3) (i + 1))"

lemma check_mermaid_verdict:
  "\<exists>skip found. check_mermaid active md ls i = Inr (skip, found) \<and> (found = [] \<longleftrightarrow> mermaid_ok active ls i) \<and> (skip \<longrightarrow> found \<noteq> [])"
  (is "\<exists>skip found. ?P skip found")
proof (cases "re_match DEPICTS_RX (next_line ls i)")
  case None
  then have "declared (next_line ls i) = None" by (simp add: declared_def)
  with None have "\<exists>found. ?P True found" unfolding check_mermaid_def Let_def next_line_def [symmetric] mermaid_ok_def by simp
  then show ?thesis by (rule exI)
next
  case (Some m)
  then obtain n where "stage_num (Some (JStr (group m 1))) = Inr (Some n)" using depicts_stage by blast
  moreover from this Some have "declared (next_line ls i) = Some n" by (simp add: declared_def)
  ultimately have "\<exists>found. ?P False found" using Some
    unfolding check_mermaid_def Let_def next_line_def [symmetric] mermaid_ok_def by (simp add: is_older_def)
  then show ?thesis by (rule exI)
qed

text \<open>Every diagram that exists is an object with a stage, a string that names none, or nothing.\<close>

definition diagrams_load :: "files \<Rightarrow> bool" where
  "diagrams_load fs \<longleftrightarrow> (\<forall>p. fs p \<noteq> None \<longrightarrow> starts_with ''docs/diagrams/src/'' p \<longrightarrow> (\<exists>n. diagram_stage fs p = Inr n))"

lemma check_svg_verdict:
  assumes "diagrams_load fs"
  shows "\<exists>found. check_svg fs active md ls i = Inr found \<and> (found = [] \<longleftrightarrow> svg_ok fs active ls i)"
proof (cases "embeds (ls ! i)")
  case None
  then have "check_svg fs active md ls i = Inr []"
    by (auto simp: check_svg_def embeds_def Let_def split: if_splits option.splits)
  with None show ?thesis by (simp add: svg_ok_def)
next
  case (Some src)
  then obtain m where m: "contains ''.svg'' (ls ! i)" "contains ''diagrams'' (ls ! i)" "re_search SVG_RX (ls ! i) = Some m"
    "src = ''docs/diagrams/src/'' @ group m 2 @ ''.json''" by (auto simp: embeds_def split: if_splits)
  show ?thesis
  proof (cases "fs src")
    case None
    with m Some show ?thesis unfolding check_svg_def Let_def svg_ok_def by simp
  next
    case (Some s)
    have "starts_with ''docs/diagrams/src/'' src" unfolding m(4) by (simp add: starts_with_def)
    with Some assms obtain n where "diagram_stage fs src = Inr n" unfolding diagrams_load_def by blast
    with m Some \<open>embeds (ls ! i) = Some src\<close> show ?thesis unfolding check_svg_def Let_def svg_ok_def
      by (cases n) (auto simp: is_older_def)
  qed
qed

lemma lint_line_verdict:
  assumes "diagrams_load fs"
  shows "\<exists>found. lint_line fs active md ls i = Inr found \<and>
    (found = [] \<longleftrightarrow> (is_fence (ls ! i) \<longrightarrow> mermaid_ok active ls i) \<and> svg_ok fs active ls i)"
proof -
  from check_svg_verdict [OF assms] obtain more where more: "check_svg fs active md ls i = Inr more"
    "more = [] \<longleftrightarrow> svg_ok fs active ls i" by blast
  from check_mermaid_verdict obtain skip found where "check_mermaid active md ls i = Inr (skip, found)"
    "found = [] \<longleftrightarrow> mermaid_ok active ls i" "skip \<longrightarrow> found \<noteq> []" by blast
  with more show ?thesis by (cases "is_fence (ls ! i)"; cases skip) (auto simp: lint_line_def)
qed

lemma page_ok_lines:
  "page_ok fs active ls \<longleftrightarrow> (\<forall>i < length ls. (is_fence (ls ! i) \<longrightarrow> mermaid_ok active ls i) \<and> svg_ok fs active ls i)"
  by (simp add: page_ok_def mermaid_ok_def svg_ok_def)

lemma concat_verdict:
  assumes "\<forall>x \<in> set xs. \<exists>found. f x = Inr found \<and> (found = [] \<longleftrightarrow> P x)"
  shows "\<exists>ys. mapR f xs = Inr ys \<and> (concat ys = [] \<longleftrightarrow> (\<forall>x \<in> set xs. P x))"
proof -
  from assms obtain g where g: "\<forall>x \<in> set xs. f x = Inr (g x) \<and> (g x = [] \<longleftrightarrow> P x)" by metis
  then have "mapR f xs = Inr (map g xs)" by (intro mapR_Inr) blast
  moreover have "concat (map g xs) = [] \<longleftrightarrow> (\<forall>x \<in> set xs. P x)" using g by auto
  ultimately show ?thesis by blast
qed

lemma check_page_verdict:
  assumes "diagrams_load fs" and "read_text fs md = Inr s"
  shows "\<exists>found. check_page fs active md = Inr found \<and> (found = [] \<longleftrightarrow> page_ok fs active (splitlines s))"
proof -
  let ?ls = "splitlines s"
  have "\<forall>i \<in> set [0..<length ?ls]. \<exists>found. lint_line fs active md ?ls i = Inr found \<and>
      (found = [] \<longleftrightarrow> (is_fence (?ls ! i) \<longrightarrow> mermaid_ok active ?ls i) \<and> svg_ok fs active ?ls i)"
    using lint_line_verdict [OF assms(1)] by blast
  from concat_verdict [OF this] show ?thesis using assms(2)
    unfolding check_page_def page_ok_lines by (auto simp: Let_def)
qed

text \<open>Every diagram names its stage, and every page is as demanded.\<close>

definition docs_ok :: "glob \<Rightarrow> files \<Rightarrow> int \<Rightarrow> bool" where
  "docs_ok glob fs active \<longleftrightarrow>
     (\<forall>j \<in> set (glob ''docs/diagrams/src'' ''.json''). diagram_stage fs j \<noteq> Inr None) \<and>
     (\<forall>md \<in> set (glob ''docs'' ''.md''). \<forall>s. read_text fs md = Inr s \<longrightarrow> page_ok fs active (splitlines s))"

lemma docs_lint_outcome:
  assumes "read_text (w_files w) ''README.md'' = Inr readme" and "active_stage readme = Inr active"
    and "diagrams_load (w_files w)"
    and "\<forall>j \<in> set (glob ''docs/diagrams/src'' ''.json''). \<exists>n. diagram_stage (w_files w) j = Inr n"
    and "\<forall>md \<in> set (glob ''docs'' ''.md''). \<exists>s. read_text (w_files w) md = Inr s"
  shows "\<exists>w'. docs_lint_main glob w = (Inr (if docs_ok glob (w_files w) active then 0 else 1), w') \<and> w_files w' = w_files w"
proof -
  let ?fs = "w_files w"
  have "\<forall>j \<in> set (glob ''docs/diagrams/src'' ''.json''). \<exists>found. check_diagram ?fs j = Inr found
      \<and> (found = [] \<longleftrightarrow> diagram_stage ?fs j \<noteq> Inr None)"
    using assms(4) by (fastforce simp: check_diagram_def)
  from concat_verdict [OF this] obtain ds where ds: "mapR (check_diagram ?fs) (glob ''docs/diagrams/src'' ''.json'') = Inr ds"
    "concat ds = [] \<longleftrightarrow> (\<forall>j \<in> set (glob ''docs/diagrams/src'' ''.json''). diagram_stage ?fs j \<noteq> Inr None)" by blast
  have "\<forall>md \<in> set (glob ''docs'' ''.md''). \<exists>found. check_page ?fs active md = Inr found
      \<and> (found = [] \<longleftrightarrow> (\<forall>s. read_text ?fs md = Inr s \<longrightarrow> page_ok ?fs active (splitlines s)))"
    using assms(5) check_page_verdict [OF assms(3)] by (metis sum.inject(2))
  from concat_verdict [OF this] obtain ps where ps: "mapR (check_page ?fs active) (glob ''docs'' ''.md'') = Inr ps"
    "concat ps = [] \<longleftrightarrow> (\<forall>md \<in> set (glob ''docs'' ''.md''). \<forall>s. read_text ?fs md = Inr s \<longrightarrow> page_ok ?fs active (splitlines s))" by blast
  have ok: "concat ds @ concat ps \<noteq> [] \<longleftrightarrow> \<not> docs_ok glob ?fs active"
    unfolding append_is_Nil_conv ds(2) ps(2) docs_ok_def by blast
  show ?thesis
    unfolding docs_lint_main_def bindI_files assms(1,2) ds(1) ps(1) bindI_lift Let_def ok
    by (cases "docs_ok glob ?fs active") (simp_all add: bindI_print retI_def)
qed

section \<open>Properties\<close>

text \<open>
  C39. The documentation check passes exactly the documentation it is meant to: with a README that names the active
  stage and readable diagrams and pages, it exits 0 when every diagram names its stage, every mermaid block declares
  one on its first line, and every block or embedded diagram of an older stage than the active one has an era
  caption in the three lines above it (or, for an embedded diagram, in its own line); otherwise it exits 1. No block raises an exception and no file changes.
\<close>

theorem docs_lint_verdict:
  assumes "read_text (w_files w) ''README.md'' = Inr readme" and "active_stage readme = Inr active"
    and "diagrams_load (w_files w)"
    and "\<forall>j \<in> set (glob ''docs/diagrams/src'' ''.json''). \<exists>n. diagram_stage (w_files w) j = Inr n"
    and "\<forall>md \<in> set (glob ''docs'' ''.md''). \<exists>s. read_text (w_files w) md = Inr s"
  shows "\<exists>w'. docs_lint_main glob w = (Inr (if docs_ok glob (w_files w) active then 0 else 1), w') \<and> w_files w' = w_files w"
  using assms by (rule docs_lint_outcome)

text \<open>A page with a block of stage 1 below an era caption, when stage 2 is the active one.\<close>

definition demo_docs :: files where
  "demo_docs = [''README.md'' \<mapsto> unlines [''| 2 | M | Complete |''],
     ''docs/a.md'' \<mapsto> unlines [''(era: stage1)'', ''```mermaid'', ''%% depicts: stage1'', ''```'']]"

definition demo_glob :: glob where
  "demo_glob d suffix = (if d = ''docs'' then [''docs/a.md''] else [])"

lemma demo_page_ok: "page_ok demo_docs 2 [''(era: stage1)'', ''```mermaid'', ''%% depicts: stage1'', ''```'']"
proof -
  let ?ls = "[''(era: stage1)'', ''```mermaid'', ''%% depicts: stage1'', ''```'']"
  have f: "is_fence (?ls ! 0) = False" "is_fence (?ls ! 1) = True" "is_fence (?ls ! 2) = False" "is_fence (?ls ! 3) = False"
    by code_simp+
  have d: "declared (next_line ?ls 1) = Some 1" "captioned ?ls (1 - 3) 1" by code_simp+
  have e: "embeds (?ls ! 0) = None" "embeds (?ls ! 1) = None" "embeds (?ls ! 2) = None" "embeds (?ls ! 3) = None"
    by code_simp+
  have "i = 0 \<or> i = 1 \<or> i = 2 \<or> i = 3" if "i < length ?ls" for i using that by auto
  then show ?thesis unfolding page_ok_lines mermaid_ok_def svg_ok_def using f d e by (metis option.distinct(1))
qed

theorem docs_lint_verdict_witness:
  "\<exists>w'. docs_lint_main demo_glob \<lparr>w_files = demo_docs, w_out = [], w_err = []\<rparr> = (Inr 0, w')"
proof -
  let ?w = "\<lparr>w_files = demo_docs, w_out = [], w_err = []\<rparr>"
  have texts: "universal_newlines (unlines [''| 2 | M | Complete |'']) = unlines [''| 2 | M | Complete |'']"
    "splitlines (universal_newlines (unlines [''(era: stage1)'', ''```mermaid'', ''%% depicts: stage1'', ''```'']))
      = [''(era: stage1)'', ''```mermaid'', ''%% depicts: stage1'', ''```'']"
    by code_simp+
  have readme: "read_text (w_files ?w) ''README.md'' = Inr (unlines [''| 2 | M | Complete |''])"
    by (simp add: demo_docs_def read_text_def texts(1))
  have active: "active_stage (unlines [''| 2 | M | Complete |'']) = Inr 2" by code_simp
  have "diagrams_load (w_files ?w)" by (auto simp: diagrams_load_def demo_docs_def starts_with_def split: if_splits)
  moreover have "docs_ok demo_glob (w_files ?w) 2"
    using demo_page_ok texts(2) by (auto simp: docs_ok_def demo_glob_def read_text_def demo_docs_def)
  moreover have "\<forall>md \<in> set (demo_glob ''docs'' ''.md''). \<exists>s. read_text (w_files ?w) md = Inr s"
    by (simp add: demo_glob_def read_text_def demo_docs_def)
  ultimately show ?thesis
    using docs_lint_verdict [OF readme active, of demo_glob] by (auto simp: demo_glob_def)
qed

end
