(* ===== verification/Spec2Isabelle.thy ===== *)
theory Spec2Isabelle
  imports Srt_Vectors Trace_Refine Crv_Runner Cov_Merge Cycle_Diff Synth_Wns Rtl_Rules Cosim_Runner
    Diff_Retire Trace_Text Profile_Pc Stall_Taxonomy Testfloat_Vectors Docs_Lint
begin

text \<open>
  A model of the Python code of the kronos-riscv repository, with its correctness. The repository is a
  RISC-V core in SystemVerilog; its Python implementation generates the core's test stimuli, runs and
  compares the core with a reference model, and gates the results. The development models these
  programs, function by function and with the source's names, as HOL functions that compute.

  The parts, how they interact, and where they are.

  \<^item> Arithmetic references (\<open>src/tb/stage5/ref\<close>). \<open>Srt_Divide\<close> and \<open>Srt_Sqrt\<close> are the digit-recurrence
    divider and square root of the floating point unit's test bench (\<open>srt_divide.py\<close>, \<open>srt_sqrt.py\<close>): the loop
    body is \<open>srt_divide_step\<close> or \<open>srt_sqrt_step\<close>, its state the pair of remainder and quotient. They are
    proved to be the exact floor of the quotient and of the root with an exact sticky flag. \<open>Srt_Vectors\<close> are
    the two programs that write the stimulus files (\<open>gen_fdiv_vectors.py\<close>, \<open>gen_fsqrt_vectors.py\<close>): for
    every seed they raise nothing and every line they write is a correct result. \<open>fdiv_main\<close> and \<open>fsqrt_main\<close>
    write the file call by call of the generator functions, not line by line.
  \<^item> Constrained-random programs (\<open>src/tools/crv\<close>). \<open>Crv_Encoding\<close> is the assembler text of an instruction
    and the checks that reject bad operands, \<open>Crv_Regfile\<close> the trackers of live registers, \<open>Crv_Memory\<close> the
    address map. \<open>Crv_Scenario\<close> holds what the scenarios share: the state of a run (the random source and
    the two trackers), the loop until the requested length and the contract \<open>safe_text\<close> of a generated
    body, whose lines written as they are, labels and the trap handler, are analysed like the instructions. \<open>Int_Hazards\<close>, \<open>Muldiv_Interleave\<close>, \<open>Mem_Ordering\<close>, \<open>Fp_Arith\<close>, \<open>Fdiv_Fsqrt\<close>, \<open>Branch_Pred\<close>,
    \<open>Traps\<close> and \<open>Raw_Stress\<close> are the scenarios, each with the invariant of its loop. \<open>Crv_Generator\<close> is the
    registry and the program writer, \<open>Crv_Runner\<close> the pipeline from generation to verdict.
  \<^item> Trace comparison (\<open>src/tools\<close>). \<open>Trace_Line\<close> is the line format both executions are brought to,
    \<open>Trace_Diff\<close> the comparison (\<open>trace_diff.py\<close>), \<open>Sail_Normalize\<close> the translation of the reference model's
    log (\<open>sail_trace_normalize.py\<close>), and \<open>Trace_Refine\<close> their composition: it decides whether two executions
    agree as sequences of commits. \<open>Diff_Child\<close> is the comparison as a child process of the two runners.
  \<^item> Cosimulation fuzzing (\<open>src/tools/cosim_fuzz\<close>). \<open>Cosim_Mutator\<close> reads the mutation headers of a C source
    and rewrites its constants; \<open>Cosim_Runner\<close> compiles the result, runs both executions and compares them.
  \<^item> Gates (\<open>src/tools\<close>, \<open>src/scripts\<close>). \<open>Coverage_Gate\<close> and \<open>Cov_Merge\<close> (functional and line coverage;
    merging is an exact bitwise or, may be done in steps, and composes with the gate),
    \<open>Cycle_Diff\<close> (cycle count against a baseline commit), \<open>Synth_Wns\<close> (timing report) and \<open>Rtl_Rules\<close> (coding
    rules of the SystemVerilog sources, as a scan and as a pre-commit hook).
  \<^item> Trace tools (\<open>src/tools/trace\<close>). \<open>Py_Csv\<close> is the record automaton of the \<open>csv\<close> module with the rows of a
    \<open>DictReader\<close>; over it \<open>Diff_Retire\<close> finds the first row at which two retire traces differ, \<open>Trace_Text\<close>
    prints a trace, \<open>Profile_Pc\<close> and \<open>Stall_Taxonomy\<close> print sorted tables with bars (\<open>Py_Number\<close> has the
    floats with infinities and NaN they read and the quotients behind the bars).
  \<^item> \<open>Testfloat_Vectors\<close> (\<open>gen_testfloat_vectors.py\<close>) writes the stimulus files of the other floating point
    operations from the output of an external generator. \<open>Docs_Lint\<close> (\<open>docs_lint.py\<close>) checks the stage
    declarations of the documentation, over \<open>Py_Json\<close>, a model of \<open>json.loads\<close>.

  What they are modelled in. \<open>Prelude\<close> has Python's exceptions, the result type, a state-and-exception
  monad with its total-correctness precondition \<open>wp\<close>, and the scanners \<open>spaced\<close> and \<open>runs\<close> over instruction
  lists. \<open>Py_Float\<close> is binary64 arithmetic as rounding of rationals (\<open>fl\<close>) and the fixed-point formats;
  \<open>Py_Str\<close>, \<open>Py_Text\<close> and \<open>Py_World\<close> are strings, lines, files and \<open>repr\<close>; \<open>Py_Regex\<close> is a backtracking
  matcher for the patterns of the tools, with the lemmas that give a first match from its parts and rule
  one out from the words of a pattern; \<open>Py_IO\<close> is a monad over files and the two output streams in which
  what happened before an exception stays; \<open>Py_Argparse\<close> is \<open>argparse\<close> of Python 3.11, and a tool's \<open>cli\<close>
  function is its \<open>main\<close> from the command line on; \<open>Py_Random\<close> derives \<open>randint\<close>, \<open>choice\<close>, \<open>choices\<close> and \<open>random\<close>
  from the 32-bit outputs of the generator. A seed is the list of these outputs, so a theorem for every
  list holds for every seed.

  The interfaces are locales, interpreted on the model's own definitions: \<open>random_source\<close> in \<open>Py_Random\<close>
  (a draw below \<open>n\<close> is below \<open>n\<close>), on \<open>randbelow\<close>; \<open>tracker\<close> in \<open>Crv_Regfile\<close>, on the integer and the floating
  point tracker; \<open>scenario\<close> in \<open>Crv_Scenario\<close> (what a pass of a generator loop promises), on every scenario; and
  \<open>vector_reference\<close> in \<open>Srt_Vectors\<close>, on the divider and the square root. The properties rest on the facts of
  these interpretations.

  Parameters stand for what is not in the sources: \<open>twister\<close> maps a seed to the outputs of the Mersenne
  Twister; \<open>exec\<close> is what a child process (compiler, simulator, git) returns, prints and does to the files;
  \<open>rm\<close> is what \<open>shutil.rmtree\<close> manages to delete, its errors being ignored;
  \<open>sha256\<close> is the digest; \<open>says\<close> is what \<open>argparse\<close> prints when it exits; \<open>rglob\<close> and \<open>glob\<close> list the files of a directory. The hypotheses about them are named:
  \<open>finishes\<close> (children terminate), \<open>runs_trace_diff\<close> (a child is the comparison tool), \<open>only_reads\<close> (a child
  changes no file), \<open>git_cleans\<close> and \<open>deletable\<close> (the git commands of the clean-up run, and the directory can be
  deleted); the witnesses instantiate them. What a runner's verdict says is stated over the files that its children
  have left, each run on those of its predecessor (\<open>pipeline\<close> in \<open>Crv_Runner\<close>, written out in \<open>Cosim_Runner\<close>).

  Termination and bounds. There is no fuel, and every definition is a total function. The loop of the
  scenarios, \<open>while_short\<close>, is the guard and the pass run under \<open>while_option\<close>; a loop that goes on for ever has the
  value \<open>Divergence\<close>, which is not an exception of Python and which the total-correctness statements \<open>wp\<close> exclude. Every
  pass appends an instruction, so the loops end after at most as many passes as instructions are missing
  (\<open>ends_within\<close> in \<open>Crv_Scenario\<close>, proved for each scenario in \<open>Crv_Generator\<close>). The rejection loop of \<open>randbelow\<close> consumes its list
  of outputs, and an exhausted list yields zeros, which are accepted. The star of a pattern is bounded by
  the length of the remaining text, which loses nothing since an iteration has to consume a character. The
  reader of JSON terminates because every task leaves a shorter text, which is proved together with it.

  Strings are lists of the first 256 code points, one byte of a file per character; what the tools print beyond
  ASCII is in UTF-8. Environment variables are the ones a caller sets. Directories, file modes and times are
  not modelled. A float is
  a rational with its sign where only finite ones occur, and has the infinities and the NaN where it is read
  from a command line or a file (\<open>Py_Number\<close>).

  Not modelled: the hardware description, the C++ and SystemVerilog test benches, the C and assembly
  programs and the vendored floating point libraries, which are not Python. Of the Python code, the
  package files without code are left out, and so are directory creation and the recursion limit and the
  digit limit of the interpreter.
\<close>

end
